(* ===== verification/Prelude.thy ===== *)
theory Prelude
  imports
    Main
    "HOL-Library.Word"
    "HOL-Library.AList"
    "HOL-Library.Sublist"
    "HOL-Library.Multiset"
    "HOL-Library.Char_ord"
    "HOL-Library.List_Lexorder"
    "HOL-Library.Product_Lexorder"
begin

text \<open>
  Shared vocabulary of the development: machine integers (Go's \<open>int\<close>, \<open>int64\<close> and
  \<open>time.Duration\<close> are 64-bit two's complement), association lists standing for Go maps in the
  order in which the runtime enumerates them, and the few functions of Go's \<open>strings\<close> package
  that the program calls.  The collections \<open>go_simps\<close> and \<open>alist_simps\<close> hold the rewrite
  rules the component theories pass to the simplifier.
\<close>

named_theorems go_simps "rewrite rules for the integer and string helpers"
named_theorems alist_simps "rewrite rules for association lists standing for Go maps"

section \<open>Machine integers\<close>

text \<open>
  \<open>int64 x\<close> is the value an \<open>int64\<close> variable holds after the exact result \<open>x\<close> is stored in
  it: the two's complement reading of \<open>x\<close> modulo \<open>2 ^ 64\<close>.
\<close>

definition int64 :: "int \<Rightarrow> int" where
  "int64 x = sint (word_of_int x :: 64 word)"

definition in_int64 :: "int \<Rightarrow> bool" where
  "in_int64 x \<longleftrightarrow> - (2 ^ 63) \<le> x \<and> x < 2 ^ 63"

definition max_int64 :: int where "max_int64 = 2 ^ 63 - 1"
definition min_int64 :: int where "min_int64 = - (2 ^ 63)"

lemma int64_signed_take_bit: "int64 x = signed_take_bit 63 x"
  by (simp add: int64_def sint_sbintrunc')

lemma int64_in_range [simp]: "in_int64 (int64 x)"
  using sint_greater_eq [of "word_of_int x :: 64 word"] sint_lt [of "word_of_int x :: 64 word"]
  by (simp add: int64_def in_int64_def)

lemma int64_id [go_simps]: "in_int64 x \<Longrightarrow> int64 x = x"
  by (simp add: int64_signed_take_bit in_int64_def signed_take_bit_int_eq_self)

lemma int64_mod: "int64 x mod 2 ^ 64 = x mod 2 ^ 64"
proof -
  have "take_bit 64 (signed_take_bit 63 x) = take_bit 64 x"
    by (simp add: take_bit_signed_take_bit)
  then show ?thesis
    by (simp add: int64_signed_take_bit take_bit_eq_mod)
qed

text \<open>Go's integer division truncates toward zero.\<close>

definition go_div :: "int \<Rightarrow> int \<Rightarrow> int" where
  "go_div num den = sgn num * sgn den * (\<bar>num\<bar> div \<bar>den\<bar>)"

lemma go_div_nonneg [go_simps]: "0 \<le> a \<Longrightarrow> 0 < b \<Longrightarrow> go_div a b = a div b"
  by (cases "a = 0") (simp_all add: go_div_def)

section \<open>Go maps as association lists\<close>

text \<open>
  A Go map is an association list with distinct keys.  The order of the list is the order in which
  one \<open>range\<close> loop visits the map; Go leaves that order unspecified, so a result that must not
  depend on it is proved for every order.
\<close>

abbreviation keys :: "('k \<times> 'v) list \<Rightarrow> 'k list" where
  "keys m \<equiv> map fst m"

definition is_map :: "('k \<times> 'v) list \<Rightarrow> bool" where
  "is_map m \<longleftrightarrow> distinct (keys m)"

lemma is_map_Nil [simp]: "is_map []"
  by (simp add: is_map_def)

lemma is_map_update [simp]: "is_map m \<Longrightarrow> is_map (AList.update k v m)"
  by (simp add: is_map_def distinct_update)

lemma is_map_delete [simp]: "is_map m \<Longrightarrow> is_map (AList.delete k m)"
  by (simp add: is_map_def distinct_delete)

lemma is_map_filter [simp]: "is_map m \<Longrightarrow> is_map (filter P m)"
  unfolding is_map_def by (induction m) auto

lemma is_map_Cons [simp]: "is_map ((k, v) # m) \<longleftrightarrow> k \<notin> set (keys m) \<and> is_map m"
  by (simp add: is_map_def)

lemma map_of_alist_update [alist_simps]: "map_of (AList.update k v m) = (map_of m)(k \<mapsto> v)"
  by (rule update_conv')

lemma map_of_alist_delete [alist_simps]: "map_of (AList.delete k m) = (map_of m)(k := None)"
  by (rule delete_conv')

lemma map_of_filter_is_map:
  assumes "is_map m"
  shows "map_of (filter P m) k =
    (case map_of m k of None \<Rightarrow> None | Some v \<Rightarrow> if P (k, v) then Some v else None)"
  using assms
proof (induction m)
  case (Cons kv m)
  obtain k' v' where kv: "kv = (k', v')" by (cases kv)
  with Cons show ?case
    by (auto split: option.splits simp: map_of_eq_None_iff [symmetric] dest: map_of_SomeD
        intro: rev_image_eqI)
qed simp

lemma length_update_fresh:
  "k \<notin> set (keys m) \<Longrightarrow> length (AList.update k v m) = Suc (length m)"
  by (induction m) auto

lemma length_update_present:
  "k \<in> set (keys m) \<Longrightarrow> length (AList.update k v m) = length m"
  by (induction m) auto

lemma length_update_le: "length (AList.update k v m) \<le> Suc (length m)"
  by (cases "k \<in> set (keys m)") (simp_all add: length_update_fresh length_update_present)

lemma delete_absent [alist_simps]: "k \<notin> set (keys m) \<Longrightarrow> AList.delete k m = m"
  by (induction m) auto

lemma length_delete_present:
  "is_map m \<Longrightarrow> k \<in> set (keys m) \<Longrightarrow> Suc (length (AList.delete k m)) = length m"
proof (induction m)
  case (Cons kv m)
  then show ?case
    by (cases kv) (auto simp: delete_absent rev_image_eqI)
qed simp

lemma is_map_mset:
  assumes "mset m = mset m'"
  shows "is_map m = is_map m'"
proof -
  have "mset (keys m) = mset (keys m')" using assms by simp
  then show ?thesis
    unfolding is_map_def by (rule mset_eq_imp_distinct_iff)
qed

lemma map_of_mset:
  assumes "is_map m" and "mset m = mset m'"
  shows "map_of m = map_of m'"
proof -
  have "set m = set m'" using assms(2) by (rule mset_eq_setD)
  moreover have "distinct (keys m')"
    using assms is_map_mset [OF assms(2)] by (simp add: is_map_def)
  ultimately show ?thesis
    using assms(1) by (simp add: is_map_def map_of_inject_set)
qed

section \<open>Sorting by a key\<close>

lemma map_sort_key: "map f (sort_key f xs) = sort (map f xs)"
  by (rule properties_for_sort [symmetric]) simp_all

text \<open>When no two elements have the same key, the sorted list depends on the elements only.\<close>

lemma insort_key_map_comp: "insort_key f (g x) (map g xs) = map g (insort_key (\<lambda>y. f (g y)) x xs)"
  by (induction xs) simp_all

lemma sort_key_map_comp: "sort_key f (map g xs) = map g (sort_key (\<lambda>x. f (g x)) xs)"
  unfolding sort_key_def by (induction xs) (simp_all add: insort_key_map_comp)

lemma sort_key_mset_cong:
  assumes "distinct (map f xs)" and "mset xs = mset ys"
  shows "sort_key f xs = sort_key f ys"
proof (rule map_inj_on)
  show "map f (sort_key f xs) = map f (sort_key f ys)"
    unfolding map_sort_key using assms(2) by (intro properties_for_sort) simp_all
  show "inj_on f (set (sort_key f xs) \<union> set (sort_key f ys))"
    using assms(1) mset_eq_setD [OF assms(2)] by (simp add: distinct_map)
qed

lemma sort_key_id: "sorted (map f xs) \<Longrightarrow> sort_key f xs = xs"
  by (rule sort_key_id_if_sorted)

section \<open>Functions of the package strings\<close>

text \<open>\<open>strings.CutPrefix\<close>: the rest of the string when the prefix is there.\<close>

fun CutPrefix :: "string \<Rightarrow> string \<Rightarrow> string option" where
  "CutPrefix s [] = Some s"
| "CutPrefix [] (p # ps) = None"
| "CutPrefix (c # s) (p # ps) = (if c = p then CutPrefix s ps else None)"

lemma CutPrefix_Some_iff: "CutPrefix s p = Some r \<longleftrightarrow> s = p @ r"
  by (induction s p rule: CutPrefix.induct) auto

lemma CutPrefix_append [simp]: "CutPrefix (p @ r) p = Some r"
  by (simp add: CutPrefix_Some_iff)

text \<open>\<open>strings.HasSuffix\<close> and \<open>strings.TrimSuffix\<close>.\<close>

definition HasSuffix :: "string \<Rightarrow> string \<Rightarrow> bool" where
  "HasSuffix s suf \<longleftrightarrow> length suf \<le> length s \<and> drop (length s - length suf) s = suf"

definition TrimSuffix :: "string \<Rightarrow> string \<Rightarrow> string" where
  "TrimSuffix s suf = (if HasSuffix s suf then take (length s - length suf) s else s)"

lemma HasSuffix_append [simp]: "HasSuffix (s @ suf) suf"
  by (simp add: HasSuffix_def)

lemma TrimSuffix_append [simp]: "TrimSuffix (s @ suf) suf = s"
  by (simp add: TrimSuffix_def)

text \<open>Decimal digits, as the number parsers of the standard library test for them.\<close>

definition is_digit :: "char \<Rightarrow> bool" where
  "is_digit c \<longleftrightarrow> CHR ''0'' \<le> c \<and> c \<le> CHR ''9''"

definition digit_val :: "char \<Rightarrow> nat" where
  "digit_val c = of_char c - 48"

section \<open>White space\<close>

text \<open>
  \<open>strings.TrimSpace\<close> and \<open>bytes.TrimSpace\<close> remove the code points of \<open>unicode.IsSpace\<close>, here by their
  UTF-8 encodings, at both ends.
\<close>

definition space_runes :: "string list" where
  "space_runes =
     [[CHR 0x20], [CHR 0x09], [CHR 0x0A], [CHR 0x0B], [CHR 0x0C], [CHR 0x0D], [CHR 0xC2, CHR 0x85], [CHR 0xC2, CHR 0xA0],
      [CHR 0xE1, CHR 0x9A, CHR 0x80], [CHR 0xE2, CHR 0x80, CHR 0xA8], [CHR 0xE2, CHR 0x80, CHR 0xA9],
      [CHR 0xE2, CHR 0x80, CHR 0xAF], [CHR 0xE2, CHR 0x81, CHR 0x9F], [CHR 0xE3, CHR 0x80, CHR 0x80]] @
     map (\<lambda>k :: nat. [CHR 0xE2, CHR 0x80, char_of (128 + k)]) [0..<11]"

fun cut_any :: "string list \<Rightarrow> string \<Rightarrow> string option" where
  "cut_any [] s = None"
| "cut_any (p # ps) s = (case CutPrefix s p of Some r \<Rightarrow> Some r | None \<Rightarrow> cut_any ps s)"

function trim_left :: "string list \<Rightarrow> string \<Rightarrow> string" where
  "trim_left ps s =
     (case cut_any ps s of
        None \<Rightarrow> s
      | Some r \<Rightarrow> if length r < length s then trim_left ps r else s)"
  by pat_completeness auto
termination by (relation "measure (\<lambda>(ps, s). length s)") auto

declare trim_left.simps [simp del]

definition TrimSpace :: "string \<Rightarrow> string" where
  "TrimSpace s = rev (trim_left (map rev space_runes) (rev (trim_left space_runes s)))"

end
