(* ===== verification/McpTypes.thy ===== *)
theory McpTypes
  imports Prelude
begin

text \<open>
  \<open>internal/mcp/types.go\<close>: the JSON-RPC error codes and the request and result types the other
  components exchange.  A Go value of type \<open>any\<close> that came out of \<open>encoding/json\<close> is one of the
  six constructors of \<open>any\<close>; a \<open>float64\<close> is kept as the text \<open>encoding/json\<close> prints for it, and
  a \<open>json.RawMessage\<close> is the text of the message.
\<close>

datatype any =
    ANil
  | ABool bool
  | ANumber string
  | AString string
  | ASlice "any list"
  | AMap "(string \<times> any) list"

type_synonym RawMessage = string

definition SessionHeader :: string where "SessionHeader = ''Mcp-Session-Id''"

section \<open>JSON-RPC error codes\<close>

definition CodeParseError :: int where "CodeParseError = -32700"
definition CodeInvalidRequest :: int where "CodeInvalidRequest = -32600"
definition CodeMethodNotFound :: int where "CodeMethodNotFound = -32601"
definition CodeInvalidParams :: int where "CodeInvalidParams = -32602"
definition CodeServerError :: int where "CodeServerError = -32000"
definition CodePolicyDenied :: int where "CodePolicyDenied = -32001"
definition CodeUnauthorized :: int where "CodeUnauthorized = -32002"
definition CodeRateLimited :: int where "CodeRateLimited = -32003"

lemmas code_defs =
  CodeParseError_def CodeInvalidRequest_def CodeMethodNotFound_def CodeInvalidParams_def
  CodeServerError_def CodePolicyDenied_def CodeUnauthorized_def CodeRateLimited_def

definition NullID :: RawMessage where "NullID = ''null''"

section \<open>Messages\<close>

text \<open>
  A \<open>json.RawMessage\<close>, slice or map field is nil when the key is absent: \<open>None\<close>, where the program
  can tell the difference.
\<close>

record Request =
  req_JSONRPC :: string
  req_ID :: "RawMessage option"
  req_Method :: string
  req_Params :: "RawMessage option"

record Error =
  err_Code :: int
  err_Message :: string
  err_Data :: "(string \<times> any) list option"

record Content =
  content_Type :: string
  content_Text :: string

record Tool =
  tool_Name :: string
  tool_Description :: string
  tool_InputSchema :: "(string \<times> any) list option"

record ToolsCallRequest =
  call_Name :: string
  call_Arguments :: "(string \<times> any) list"

record ToolsCallResult =
  result_Content :: "Content list option"

record ServerInfo =
  si_Name :: string
  si_Version :: string

record InitializeResult =
  ir_ProtocolVersion :: string
  ir_ServerInfo :: ServerInfo

text \<open>
  The payloads the gateway puts in a response or in an audit event's \<open>Response\<close> field, of Go type
  \<open>any\<close>.
\<close>

datatype payload =
    PInitialize InitializeResult
  | PToolsList "Tool list"
  | PToolsCall ToolsCallResult

record Response =
  resp_JSONRPC :: string
  resp_ID :: RawMessage
  resp_Result :: "payload option"
  resp_Error :: "Error option"

end
