(* ===== verification/Validator.thy ===== *)
theory Validator
  imports McpTypes
begin

text \<open>
  \<open>internal/policy/validator.go\<close>: the constraints a policy puts on one string argument.  Go's
  \<open>regexp\<close> engine is the record \<open>regexp_pkg\<close> of the two functions the code calls:
  \<open>Compile\<close>, which yields an error message or a compiled expression, and \<open>MatchString\<close>.  Every
  statement holds for all such functions.
\<close>

record 're regexp_pkg =
  Compile :: "string \<Rightarrow> string + 're"
  MatchString :: "'re \<Rightarrow> string \<Rightarrow> bool"

record ArgValidator =
  av_Match :: string
  av_NotMatch :: string
  av_OneOf :: "string list"
  av_MaxLen :: int

record 're compiledArgValidator =
  cav_raw :: ArgValidator
  cav_matchRE :: "'re option"
  cav_notMatchRE :: "'re option"

datatype validator_error = MatchError string | NotMatchError string

definition newCompiledArgValidator ::
  "'re regexp_pkg \<Rightarrow> ArgValidator \<Rightarrow> validator_error + 're compiledArgValidator" where
  "newCompiledArgValidator re av =
     (let c = \<lparr>cav_raw = av, cav_matchRE = None, cav_notMatchRE = None\<rparr>
      in case (if av_Match av \<noteq> '''' then
                 (case Compile re (av_Match av) of
                    Inl err \<Rightarrow> Inl (MatchError err)
                  | Inr r \<Rightarrow> Inr (c\<lparr>cav_matchRE := Some r\<rparr>))
               else Inr c) of
           Inl e \<Rightarrow> Inl e
         | Inr c1 \<Rightarrow>
             if av_NotMatch av \<noteq> '''' then
               (case Compile re (av_NotMatch av) of
                  Inl err \<Rightarrow> Inl (NotMatchError err)
                | Inr r \<Rightarrow> Inr (c1\<lparr>cav_notMatchRE := Some r\<rparr>))
             else Inr c1)"

fun one_of :: "string \<Rightarrow> string list \<Rightarrow> bool" where
  "one_of s [] = False"
| "one_of s (opt # opts) = (if s = opt then True else one_of s opts)"

definition Validate :: "'re regexp_pkg \<Rightarrow> 're compiledArgValidator \<Rightarrow> any \<Rightarrow> bool" where
  "Validate re v val =
     (case val of
        AString s \<Rightarrow>
          if (case cav_matchRE v of None \<Rightarrow> False | Some r \<Rightarrow> \<not> MatchString re r s) then False
          else if (case cav_notMatchRE v of None \<Rightarrow> False | Some r \<Rightarrow> MatchString re r s) then False
          else if length (av_OneOf (cav_raw v)) > 0 \<and> \<not> one_of s (av_OneOf (cav_raw v)) then False
          else if av_MaxLen (cav_raw v) > 0 \<and> int (length s) > av_MaxLen (cav_raw v) then False
          else True
      | _ \<Rightarrow> False)"

lemma one_of_iff [simp]: "one_of s opts \<longleftrightarrow> s \<in> set opts"
  by (induction opts) auto

lemma newCompiledArgValidator_raw:
  "newCompiledArgValidator re av = Inr c \<Longrightarrow> cav_raw c = av"
  by (auto simp: newCompiledArgValidator_def Let_def split: if_splits sum.splits)

lemma newCompiledArgValidator_match:
  "newCompiledArgValidator re av = Inr c \<Longrightarrow>
   (av_Match av = '''' \<and> cav_matchRE c = None \<or>
     av_Match av \<noteq> '''' \<and> (\<exists>r. Compile re (av_Match av) = Inr r \<and> cav_matchRE c = Some r)) \<and>
   (av_NotMatch av = '''' \<and> cav_notMatchRE c = None \<or>
     av_NotMatch av \<noteq> '''' \<and> (\<exists>r. Compile re (av_NotMatch av) = Inr r \<and> cav_notMatchRE c = Some r))"
  by (auto simp: newCompiledArgValidator_def Let_def split: if_splits sum.splits)

section \<open>What a compiled validator accepts\<close>

text \<open>
  The documented meaning of a validator entry: a string within every constraint that is set, where
  an empty pattern, an empty list and a maximum that is not positive set no constraint.
\<close>

definition satisfies :: "'re regexp_pkg \<Rightarrow> ArgValidator \<Rightarrow> string \<Rightarrow> bool" where
  "satisfies re av s \<longleftrightarrow>
     (av_Match av \<noteq> '''' \<longrightarrow> (\<exists>r. Compile re (av_Match av) = Inr r \<and> MatchString re r s)) \<and>
     (av_NotMatch av \<noteq> '''' \<longrightarrow> (\<exists>r. Compile re (av_NotMatch av) = Inr r \<and> \<not> MatchString re r s)) \<and>
     (av_OneOf av \<noteq> [] \<longrightarrow> s \<in> set (av_OneOf av)) \<and>
     (0 < av_MaxLen av \<longrightarrow> int (length s) \<le> av_MaxLen av)"

text \<open>
  A validator that compiled accepts an argument value exactly when the value is a string that
  meets every constraint set in its YAML entry; numbers, booleans, null, lists and objects are
  refused even when no constraint is set.
\<close>

theorem Validate_spec:
  assumes "newCompiledArgValidator re av = Inr c"
  shows "Validate re c val \<longleftrightarrow> (\<exists>s. val = AString s \<and> satisfies re av s)"
proof (cases val)
  case (AString s)
  then show ?thesis
    using newCompiledArgValidator_match [OF assms] newCompiledArgValidator_raw [OF assms]
    by (auto simp: Validate_def satisfies_def)
qed (simp_all add: Validate_def)

text \<open>
  A concrete engine for the witnesses: an expression is its own compiled form and matches the
  strings that contain it; an unclosed bracket does not compile.
\<close>

definition substring_re :: "string regexp_pkg" where
  "substring_re = \<lparr>Compile = (\<lambda>p. if p = ''['' then Inl ''missing closing ]'' else Inr p),
                   MatchString = (\<lambda>p s. sublist p s)\<rparr>"

definition etc_validator :: ArgValidator where
  "etc_validator = \<lparr>av_Match = '''', av_NotMatch = ''/etc'', av_OneOf = [], av_MaxLen = 8\<rparr>"

theorem Validate_spec_witness:
  "Validate substring_re \<lparr>cav_raw = etc_validator, cav_matchRE = None, cav_notMatchRE = Some ''/etc''\<rparr>
     (AString ''/etc/x'') = (\<exists>s. AString ''/etc/x'' = AString s \<and> satisfies substring_re etc_validator s)"
  by (rule Validate_spec)
    (simp add: newCompiledArgValidator_def etc_validator_def substring_re_def)

end
