(* ===== verification/GoTime.thy ===== *)
theory GoTime
  imports Prelude
begin

text \<open>
  The parts of Go's \<open>time\<close> package the program uses, plus \<open>parseDuration\<close> of
  \<open>internal/audit/sqlite_store.go\<close>, which extends it.  An instant is a number of nanoseconds
  since the Unix epoch (unbounded: \<open>time.Time\<close> covers far more than 64 bits of nanoseconds), a
  duration is the \<open>int64\<close> count of nanoseconds of \<open>time.Duration\<close>.
\<close>

type_synonym instant = int
type_synonym duration = int

definition Nanosecond :: duration where "Nanosecond = 1"
definition Microsecond :: duration where "Microsecond = 1000"
definition Millisecond :: duration where "Millisecond = 1000000"
definition Second :: duration where "Second = 1000000000"
definition Minute :: duration where "Minute = 60000000000"
definition Hour :: duration where "Hour = 3600000000000"

lemmas time_units = Nanosecond_def Microsecond_def Millisecond_def Second_def Minute_def Hour_def

section \<open>Instants\<close>

text \<open>\<open>t.Sub(u)\<close> saturates at the ends of the \<open>Duration\<close> range.\<close>

definition Sub :: "instant \<Rightarrow> instant \<Rightarrow> duration" where
  "Sub t u = (let d = t - u in
     if d < min_int64 then min_int64 else if max_int64 < d then max_int64 else d)"

definition Add :: "instant \<Rightarrow> duration \<Rightarrow> instant" where
  "Add t d = t + d"

definition After :: "instant \<Rightarrow> instant \<Rightarrow> bool" where
  "After t u \<longleftrightarrow> u < t"

definition Before :: "instant \<Rightarrow> instant \<Rightarrow> bool" where
  "Before t u \<longleftrightarrow> t < u"

definition Milliseconds :: "duration \<Rightarrow> int" where
  "Milliseconds d = go_div d Millisecond"

definition Microseconds :: "duration \<Rightarrow> int" where
  "Microseconds d = go_div d Microsecond"

lemmas instant_defs = Add_def After_def Before_def

lemma Sub_in_int64: "in_int64 (Sub t u)"
  by (simp add: Sub_def in_int64_def min_int64_def max_int64_def Let_def)

text \<open>Saturation never changes a comparison with a duration that is positive and fits in 64 bits.\<close>

lemma Sub_ge_iff [go_simps]: "in_int64 w \<Longrightarrow> 0 < w \<Longrightarrow> w \<le> Sub t u \<longleftrightarrow> w \<le> t - u"
  by (auto simp: Sub_def in_int64_def min_int64_def max_int64_def Let_def)

section \<open>time.ParseDuration\<close>

text \<open>
  The error keeps which of the three messages of \<open>ParseDuration\<close> is produced; the strings are
  the quoted inputs of the message.
\<close>

datatype duration_error =
    InvalidDuration string
  | MissingUnit string
  | UnknownUnit string string

text \<open>
  \<open>leadingInt\<close> and \<open>leadingFraction\<close> read decimal digits into a \<open>uint64\<close>; the first fails
  on a value above \<open>2 ^ 63\<close>, the second keeps the digits read so far and skips the rest.  The
  second returns the number of digits kept, the \<open>k\<close> of \<open>scale = 10 ^ k\<close>.
\<close>

fun leadingInt :: "nat \<Rightarrow> string \<Rightarrow> (nat \<times> string) option" where
  "leadingInt x [] = Some (x, [])"
| "leadingInt x (c # s) =
     (if \<not> is_digit c then Some (x, c # s)
      else if x > 2 ^ 63 div 10 then None
      else let x' = x * 10 + digit_val c
           in if x' > 2 ^ 63 then None else leadingInt x' s)"

fun leadingFraction :: "nat \<Rightarrow> nat \<Rightarrow> bool \<Rightarrow> string \<Rightarrow> nat \<times> nat \<times> string" where
  "leadingFraction x k ovf [] = (x, k, [])"
| "leadingFraction x k ovf (c # s) =
     (if \<not> is_digit c then (x, k, c # s)
      else if ovf \<or> x > (2 ^ 63 - 1) div 10 then leadingFraction x k True s
      else let y = x * 10 + digit_val c
           in if y > 2 ^ 63 then leadingFraction x k True s
              else leadingFraction y (Suc k) False s)"

definition unitMap :: "(string \<times> nat) list" where
  "unitMap =
     [(''ns'', 1), (''us'', 1000),
      ([CHR 0xC2, CHR 0xB5, CHR ''s''], 1000),
      ([CHR 0xCE, CHR 0xBC, CHR ''s''], 1000),
      (''ms'', 1000000), (''s'', 1000000000), (''m'', 60000000000), (''h'', 3600000000000)]"

definition is_unit_char :: "char \<Rightarrow> bool" where
  "is_unit_char c \<longleftrightarrow> \<not> (c = CHR ''.'' \<or> is_digit c)"

text \<open>
  One round of the loop of \<open>ParseDuration\<close>: digits, an optional fraction, a unit.  The result is
  the number of nanoseconds of the part and the rest of the string.  The fraction of a unit is
  computed in \<open>float64\<close>; \<open>frac f u k\<close> stands for
  \<open>uint64(float64(f) * (float64(u) / 10^k))\<close>.
\<close>

type_synonym frac_fn = "nat \<Rightarrow> nat \<Rightarrow> nat \<Rightarrow> nat"

definition parse_fraction :: "string \<Rightarrow> nat \<times> nat \<times> bool \<times> string" where
  "parse_fraction s = (case s of
      [] \<Rightarrow> (0, 0, False, [])
    | c # s1 \<Rightarrow>
      if c = CHR ''.'' then
        (case leadingFraction 0 0 False s1 of
          (f, k, s2) \<Rightarrow> (f, k, length s2 \<noteq> length s1, s2))
      else (0, 0, False, s))"

definition parse_unit ::
  "frac_fn \<Rightarrow> string \<Rightarrow> nat \<Rightarrow> nat \<Rightarrow> nat \<Rightarrow> string \<Rightarrow> duration_error + nat \<times> string" where
  "parse_unit frac orig v f k s =
     (let u = takeWhile is_unit_char s; rest = dropWhile is_unit_char s
      in if u = [] then Inl (MissingUnit orig)
      else case map_of unitMap u of
        None \<Rightarrow> Inl (UnknownUnit u orig)
      | Some unit \<Rightarrow>
        if v > 2 ^ 63 div unit then Inl (InvalidDuration orig)
        else let ns = (if f > 0 then v * unit + frac f unit k else v * unit)
             in if ns > 2 ^ 63 then Inl (InvalidDuration orig) else Inr (ns, rest))"

definition parse_part :: "frac_fn \<Rightarrow> string \<Rightarrow> string \<Rightarrow> duration_error + nat \<times> string" where
  "parse_part frac orig s =
     (if s = [] \<or> \<not> (hd s = CHR ''.'' \<or> is_digit (hd s)) then Inl (InvalidDuration orig)
      else case leadingInt 0 s of
        None \<Rightarrow> Inl (InvalidDuration orig)
      | Some (v, s1) \<Rightarrow>
        (case parse_fraction s1 of (f, k, post, s2) \<Rightarrow>
          if length s1 = length s \<and> \<not> post then Inl (InvalidDuration orig)
          else parse_unit frac orig v f k s2))"

lemma length_leadingInt: "leadingInt x s = Some (v, r) \<Longrightarrow> length r \<le> length s"
  by (induction x s rule: leadingInt.induct) (auto simp: Let_def split: if_splits)

lemma length_leadingFraction:
  "leadingFraction x k ovf s = (f, k', r) \<Longrightarrow> length r \<le> length s"
  by (induction x k ovf s rule: leadingFraction.induct) (auto simp: Let_def split: if_splits)

lemma length_parse_fraction: "parse_fraction s = (f, k, post, r) \<Longrightarrow> length r \<le> length s"
  by (auto simp: parse_fraction_def split: list.splits if_splits prod.splits
      dest!: length_leadingFraction)

lemma length_parse_unit: "parse_unit frac orig v f k s = Inr (ns, r) \<Longrightarrow> length r < length s"
proof -
  assume a: "parse_unit frac orig v f k s = Inr (ns, r)"
  then have ne: "takeWhile is_unit_char s \<noteq> []" and r: "r = dropWhile is_unit_char s"
    by (auto simp: parse_unit_def Let_def split: if_splits option.splits)
  have "length s = length (takeWhile is_unit_char s) + length (dropWhile is_unit_char s)"
    by (metis length_append takeWhile_dropWhile_id)
  with ne r show ?thesis by (cases "takeWhile is_unit_char s") auto
qed

lemma length_parse_part: "parse_part frac orig s = Inr (ns, r) \<Longrightarrow> length r < length s"
  by (auto simp: parse_part_def split: if_splits option.splits prod.splits
      dest!: length_leadingInt length_parse_fraction length_parse_unit)

text \<open>The loop; the accumulator \<open>d\<close> is a \<open>uint64\<close>, so its addition wraps.\<close>

function parse_parts :: "frac_fn \<Rightarrow> string \<Rightarrow> nat \<Rightarrow> string \<Rightarrow> duration_error + nat" where
  "parse_parts frac orig d s =
     (if s = [] then Inr d
      else case parse_part frac orig s of
        Inl e \<Rightarrow> Inl e
      | Inr (v, rest) \<Rightarrow>
        let d' = (d + v) mod 2 ^ 64
        in if d' > 2 ^ 63 then Inl (InvalidDuration orig) else parse_parts frac orig d' rest)"
  by pat_completeness auto
termination
  by (relation "measure (\<lambda>(frac, orig, d, s). length s)") (auto dest: length_parse_part)

declare parse_parts.simps [simp del]

definition strip_sign :: "string \<Rightarrow> bool \<times> string" where
  "strip_sign s = (case s of
      [] \<Rightarrow> (False, [])
    | c # r \<Rightarrow> if c = CHR ''-'' then (True, r) else if c = CHR ''+'' then (False, r) else (False, s))"

definition ParseDuration :: "frac_fn \<Rightarrow> string \<Rightarrow> duration_error + duration" where
  "ParseDuration frac orig =
     (case strip_sign orig of (neg, s) \<Rightarrow>
       if s = ''0'' then Inr 0
       else if s = [] then Inl (InvalidDuration orig)
       else case parse_parts frac orig 0 s of
         Inl e \<Rightarrow> Inl e
       | Inr d \<Rightarrow>
         if neg then Inr (int64 (- int d))
         else if d > 2 ^ 63 - 1 then Inl (InvalidDuration orig)
         else Inr (int d))"

lemma parse_parts_bound: "d \<le> 2 ^ 63 \<Longrightarrow> parse_parts frac orig d s = Inr r \<Longrightarrow> r \<le> 2 ^ 63"
proof (induction frac orig d s rule: parse_parts.induct)
  case (1 frac orig d s)
  show ?case
  proof (cases "s = []")
    case True
    with "1.prems" show ?thesis by (simp add: parse_parts.simps [of frac orig d "[]"])
  next
    case False
    with "1.prems" obtain v rest where part: "parse_part frac orig s = Inr (v, rest)"
      and le: "(d + v) mod 2 ^ 64 \<le> 2 ^ 63"
      and rec: "parse_parts frac orig ((d + v) mod 2 ^ 64) rest = Inr r"
      by (auto simp: parse_parts.simps [of frac orig d s] Let_def split: sum.splits if_splits)
    from le have "\<not> 2 ^ 63 < (d + v) mod 2 ^ 64" by simp
    then show ?thesis
      by (rule "1.IH" [OF False part refl refl _ le rec])
  qed
qed

lemma ParseDuration_in_int64: "ParseDuration frac s = Inr d \<Longrightarrow> in_int64 d"
proof -
  assume "ParseDuration frac s = Inr d"
  then show ?thesis
    by (auto simp: ParseDuration_def split: prod.splits if_splits sum.splits)
      (auto simp: in_int64_def)
qed

text \<open>
  Whole numbers of one unit never reach the floating-point step, so they parse to the exact
  product whatever \<open>frac\<close> is; these instances are the ones the configuration defaults rely on.
\<close>

lemma ParseDuration_30s: "ParseDuration frac ''30s'' = Inr (30 * Second)"
  by (simp add: ParseDuration_def strip_sign_def parse_parts.simps parse_part_def is_digit_def
      digit_val_def parse_fraction_def parse_unit_def is_unit_char_def unitMap_def Second_def
      less_eq_char_def Let_def)

section \<open>parseDuration of the audit package\<close>

text \<open>
  \<open>strconv.Atoi\<close>: an optional sign and decimal digits, the value in the \<open>int\<close> range.
\<close>

fun digits_value :: "nat \<Rightarrow> string \<Rightarrow> nat" where
  "digits_value x [] = x"
| "digits_value x (c # s) = digits_value (x * 10 + digit_val c) s"

definition Atoi :: "string \<Rightarrow> int option" where
  "Atoi s = (case strip_sign s of (neg, r) \<Rightarrow>
     if r = [] \<or> \<not> list_all is_digit r then None
     else let n = int (digits_value 0 r); v = (if neg then - n else n)
          in if in_int64 v then Some v else None)"

datatype audit_duration_error = BadDays string | BadDuration duration_error

definition parseDuration ::
  "(string \<Rightarrow> duration_error + duration) \<Rightarrow> string \<Rightarrow> audit_duration_error + duration" where
  "parseDuration ParseDur s =
     (if HasSuffix s ''d'' then
        (case Atoi (TrimSuffix s ''d'') of
           None \<Rightarrow> Inl (BadDays s)
         | Some n \<Rightarrow> Inr (int64 (int64 (n * 24) * Hour)))
      else case ParseDur s of Inl e \<Rightarrow> Inl (BadDuration e) | Inr d \<Rightarrow> Inr d)"

end
