(* ===== verification/RateLimit.thy ===== *)
theory RateLimit
  imports GoTime
begin

text \<open>
  \<open>internal/policy/ratelimit.go\<close>: the fixed-window limiter.  The limiter's \<open>sync.Map\<close> of
  buckets is a partial map from keys to buckets.  \<open>Allow\<close> is here one step; in the code it is two
  atomic actions, the \<open>LoadOrStore\<close> of the bucket and the section under the bucket's mutex, which the
  theory \<open>PolicyConc\<close> takes apart and interleaves.  The interface \<open>Limiter\<close> that the policy engine
  calls is the locale \<open>limiter\<close>.
\<close>

section \<open>The fixed-window limiter\<close>

record bucket =
  windowStart :: instant
  bucket_count :: int

type_synonym fixedWindowLimiter = "string \<rightharpoonup> bucket"

definition NewFixedWindowLimiter :: fixedWindowLimiter where
  "NewFixedWindowLimiter = Map.empty"

definition rotate_window :: "duration \<Rightarrow> instant \<Rightarrow> bucket \<Rightarrow> bucket" where
  "rotate_window window now b =
     (if Sub now (windowStart b) \<ge> window
      then b\<lparr>windowStart := now, bucket_count := 0\<rparr> else b)"

definition Allow ::
  "fixedWindowLimiter \<Rightarrow> string \<Rightarrow> int \<Rightarrow> duration \<Rightarrow> instant \<Rightarrow> bool \<times> fixedWindowLimiter" where
  "Allow l key mx window now =
     (let b0 = (case l key of
                  None \<Rightarrow> \<lparr>windowStart = now, bucket_count = 0\<rparr>
                | Some b \<Rightarrow> b);
          b = rotate_window window now b0
      in if bucket_count b \<ge> mx then (False, l(key \<mapsto> b))
         else (True, l(key \<mapsto> b\<lparr>bucket_count := bucket_count b + 1\<rparr>)))"

section \<open>The interface Limiter\<close>

text \<open>
  What a client of the limiter relies on: a call for one key reads and writes only the part of the
  limiter's state that \<open>view\<close> shows for that key.
\<close>

locale limiter =
  fixes allow :: "'s \<Rightarrow> string \<Rightarrow> int \<Rightarrow> duration \<Rightarrow> instant \<Rightarrow> bool \<times> 's"
    and view :: "'s \<Rightarrow> string \<Rightarrow> 'b option"
  assumes view_other: "k' \<noteq> k \<Longrightarrow> view (snd (allow s k mx w now)) k' = view s k'"
    and allow_view: "view s k = view s' k \<Longrightarrow>
      fst (allow s k mx w now) = fst (allow s' k mx w now) \<and>
      view (snd (allow s k mx w now)) k = view (snd (allow s' k mx w now)) k"

text \<open>
  A request is the argument tuple of one call; \<open>run_allow\<close> issues a list of them in order and
  collects the answers.
\<close>

type_synonym allow_req = "string \<times> int \<times> duration \<times> instant"

fun run_allow ::
  "('s \<Rightarrow> string \<Rightarrow> int \<Rightarrow> duration \<Rightarrow> instant \<Rightarrow> bool \<times> 's) \<Rightarrow> 's \<Rightarrow> allow_req list
   \<Rightarrow> bool list \<times> 's" where
  "run_allow allow s [] = ([], s)"
| "run_allow allow s ((k, mx, w, now) # rs) =
     (case allow s k mx w now of (ok, s1) \<Rightarrow>
        case run_allow allow s1 rs of (oks, s2) \<Rightarrow> (ok # oks, s2))"

text \<open>The answers given to one key, in order.\<close>

definition answers_for :: "string \<Rightarrow> allow_req list \<Rightarrow> bool list \<Rightarrow> bool list" where
  "answers_for k rs oks = map snd (filter (\<lambda>(r, ok). fst r = k) (zip rs oks))"

lemma run_allow_Cons:
  "fst (run_allow allow s ((k, mx, w, now) # rs)) =
     fst (allow s k mx w now) # fst (run_allow allow (snd (allow s k mx w now)) rs)"
  "snd (run_allow allow s ((k, mx, w, now) # rs)) =
     snd (run_allow allow (snd (allow s k mx w now)) rs)"
  by (simp_all split: prod.splits)

declare run_allow.simps(2) [simp del] and run_allow_Cons [simp]

lemma length_run_allow [simp]: "length (fst (run_allow allow s rs)) = length rs"
proof (induction rs arbitrary: s)
  case (Cons r rs)
  then show ?case by (cases r) simp
qed simp

lemma run_allow_append:
  "fst (run_allow allow s (rs @ qs)) =
     fst (run_allow allow s rs) @ fst (run_allow allow (snd (run_allow allow s rs)) qs)"
  "snd (run_allow allow s (rs @ qs)) = snd (run_allow allow (snd (run_allow allow s rs)) qs)"
proof -
  have "fst (run_allow allow s (rs @ qs)) =
      fst (run_allow allow s rs) @ fst (run_allow allow (snd (run_allow allow s rs)) qs) \<and>
    snd (run_allow allow s (rs @ qs)) = snd (run_allow allow (snd (run_allow allow s rs)) qs)"
  proof (induction rs arbitrary: s)
    case (Cons r rs)
    then show ?case by (cases r) simp
  qed simp
  then show "fst (run_allow allow s (rs @ qs)) =
      fst (run_allow allow s rs) @ fst (run_allow allow (snd (run_allow allow s rs)) qs)"
    and "snd (run_allow allow s (rs @ qs)) = snd (run_allow allow (snd (run_allow allow s rs)) qs)"
    by simp_all
qed

context limiter
begin

text \<open>
  Interleaving with calls for other keys changes nothing: the answers a key gets are the answers it
  would get alone.
\<close>

lemma run_isolation_gen:
  "view s k = view s' k \<Longrightarrow>
   answers_for k rs (fst (run_allow allow s rs)) =
     fst (run_allow allow s' (filter (\<lambda>r. fst r = k) rs)) \<and>
   view (snd (run_allow allow s rs)) k =
     view (snd (run_allow allow s' (filter (\<lambda>r. fst r = k) rs))) k"
proof (induction rs arbitrary: s s')
  case Nil
  then show ?case by (simp add: answers_for_def)
next
  case (Cons r rs)
  obtain k0 mx w now where r: "r = (k0, mx, w, now)" by (cases r)
  show ?case
  proof (cases "k0 = k")
    case True
    have "fst (allow s k mx w now) = fst (allow s' k mx w now)"
      and "view (snd (allow s k mx w now)) k = view (snd (allow s' k mx w now)) k"
      using allow_view [OF Cons.prems] by blast+
    with Cons.IH [of "snd (allow s k mx w now)" "snd (allow s' k mx w now)"] True r
    show ?thesis
      by (simp add: answers_for_def)
  next
    case False
    then have "view (snd (allow s k0 mx w now)) k = view s' k"
      using view_other [of k k0 s mx w now] Cons.prems by simp
    with Cons.IH [of "snd (allow s k0 mx w now)" s'] False r
    show ?thesis
      by (simp add: answers_for_def)
  qed
qed

lemma run_isolation:
  "answers_for k rs (fst (run_allow allow s rs)) =
     fst (run_allow allow s (filter (\<lambda>r. fst r = k) rs))"
  using run_isolation_gen [of s k s rs] by simp

end

lemma Allow_other: "k' \<noteq> k \<Longrightarrow> snd (Allow l k mx w now) k' = l k'"
  by (simp add: Allow_def Let_def)

lemma Allow_view:
  assumes "l k = l' k"
  shows "fst (Allow l k mx w now) = fst (Allow l' k mx w now) \<and>
     snd (Allow l k mx w now) k = snd (Allow l' k mx w now) k"
  unfolding Allow_def Let_def assms by simp

interpretation fixed_window: limiter Allow "\<lambda>l k. l k"
proof unfold_locales
  show "k' \<noteq> k \<Longrightarrow> snd (Allow l k mx w now) k' = l k'" for k' k l mx w now
    by (rule Allow_other)
  show "l k = l' k \<Longrightarrow>
     fst (Allow l k mx w now) = fst (Allow l' k mx w now) \<and>
     snd (Allow l k mx w now) k = snd (Allow l' k mx w now) k" for l k l' mx w now
    by (rule Allow_view)
qed

section \<open>How many calls a key admits\<close>

text \<open>
  A bucket exists because a call opened its window, and with a positive maximum that call was
  admitted: the counter is at least one.
\<close>

definition counts_ok :: "fixedWindowLimiter \<Rightarrow> bool" where
  "counts_ok l \<longleftrightarrow> (\<forall>k b. l k = Some b \<longrightarrow> 1 \<le> bucket_count b)"

definition positive_max :: "allow_req list \<Rightarrow> bool" where
  "positive_max rs \<longleftrightarrow> list_all (\<lambda>(k, mx, w, t). 0 < mx) rs"

lemma counts_ok_New [simp]: "counts_ok NewFixedWindowLimiter"
  by (simp add: counts_ok_def NewFixedWindowLimiter_def)

lemma counts_ok_Allow: "counts_ok l \<Longrightarrow> 0 < mx \<Longrightarrow> counts_ok (snd (Allow l k mx w now))"
  by (fastforce simp: counts_ok_def Allow_def rotate_window_def Let_def split: option.splits)

lemma counts_ok_run: "counts_ok l \<Longrightarrow> positive_max rs \<Longrightarrow> counts_ok (snd (run_allow Allow l rs))"
proof (induction rs arbitrary: l)
  case (Cons r rs)
  obtain k mx w now where r: "r = (k, mx, w, now)" by (cases r)
  with Cons.prems have "counts_ok (snd (Allow l k mx w now))" and "positive_max rs"
    by (auto simp: positive_max_def intro: counts_ok_Allow)
  with Cons.IH show ?case by (simp add: r)
qed simp

text \<open>\<open>calls k mx w ts\<close> are calls for one key at the instants \<open>ts\<close>.\<close>

abbreviation calls :: "string \<Rightarrow> int \<Rightarrow> duration \<Rightarrow> instant list \<Rightarrow> allow_req list" where
  "calls k mx w ts \<equiv> map (\<lambda>t. (k, mx, w, t)) ts"

definition admitted :: "bool list \<Rightarrow> nat" where
  "admitted oks = length (filter id oks)"

lemma admitted_simps [simp]:
  "admitted [] = 0"
  "admitted (ok # oks) = (if ok then Suc (admitted oks) else admitted oks)"
  by (simp_all add: admitted_def)

lemma admitted_le: "admitted oks \<le> length oks"
  by (simp add: admitted_def)

text \<open>
  As long as the window of the key's bucket is open, call number \<open>i\<close> is admitted exactly when the
  count has not reached the maximum.
\<close>

lemma Allow_in_window:
  assumes "l k = Some b" and "Sub t (windowStart b) < w"
  shows "Allow l k mx w t =
    (bucket_count b < mx,
     l(k \<mapsto> (if bucket_count b < mx then b\<lparr>bucket_count := bucket_count b + 1\<rparr> else b)))"
  using assms by (simp add: Allow_def rotate_window_def Let_def)

lemma Allow_new_window:
  assumes "l k = None \<or> (\<exists>b. l k = Some b \<and> w \<le> Sub t (windowStart b))"
  shows "Allow l k mx w t =
    (0 < mx, l(k \<mapsto> \<lparr>windowStart = t, bucket_count = (if 0 < mx then 1 else 0)\<rparr>))"
  using assms by (auto simp: Allow_def rotate_window_def Let_def)

lemma run_in_window:
  assumes "l k = Some b" and "\<forall>t \<in> set ts. Sub t (windowStart b) < w"
  shows "fst (run_allow Allow l (calls k mx w ts)) =
    map (\<lambda>i. bucket_count b + int i < mx) [0..<length ts]"
  using assms
proof (induction ts arbitrary: l b)
  case (Cons t ts)
  let ?b = "if bucket_count b < mx then b\<lparr>bucket_count := bucket_count b + 1\<rparr> else b"
  have step: "Allow l k mx w t = (bucket_count b < mx, l(k \<mapsto> ?b))"
    using Cons.prems by (intro Allow_in_window) auto
  have "fst (run_allow Allow (l(k \<mapsto> ?b)) (calls k mx w ts)) =
      map (\<lambda>i. bucket_count ?b + int i < mx) [0..<length ts]"
    using Cons.prems by (intro Cons.IH) auto
  also have "\<dots> = map (\<lambda>i. bucket_count b + int i < mx) [1..<Suc (length ts)]"
    by (auto simp: map_Suc_upt [symmetric] simp del: upt_Suc)
  finally show ?case
    by (simp add: step upt_conv_Cons [of 0 "Suc (length ts)"] del: upt_Suc)
qed simp

lemma admitted_threshold:
  "admitted (map (\<lambda>i. c + int i < mx) [0..<n]) \<le> nat (mx - c)"
proof (induction n)
  case (Suc n)
  show ?case
  proof (cases "c + int n < mx")
    case True
    have "admitted (map (\<lambda>i. c + int i < mx) [0..<Suc n]) \<le> Suc n"
      using admitted_le [of "map (\<lambda>i. c + int i < mx) [0..<Suc n]"] by simp
    with True show ?thesis by linarith
  next
    case False
    with Suc show ?thesis by (simp add: admitted_def)
  qed
qed (simp add: admitted_def)

text \<open>
  Calls whose instants lie in one interval of the window's length hit at most two windows of the
  bucket: what is left of the open one, and one more.
\<close>

definition remaining :: "fixedWindowLimiter \<Rightarrow> string \<Rightarrow> int \<Rightarrow> nat" where
  "remaining l k mx = (case l k of None \<Rightarrow> 0 | Some b \<Rightarrow> nat (mx - bucket_count b))"

lemma run_interval:
  assumes "sorted ts" and "\<forall>t \<in> set ts. a \<le> t \<and> t < a + w" and "in_int64 w" and "0 < w"
  shows "admitted (fst (run_allow Allow l (calls k mx w ts))) \<le> remaining l k mx + nat mx"
  using assms
proof (induction ts arbitrary: l)
  case (Cons t ts)
  show ?case
  proof (cases "l k = None \<or> (\<exists>b. l k = Some b \<and> w \<le> Sub t (windowStart b))")
    case True
    let ?b = "\<lparr>windowStart = t, bucket_count = (if 0 < mx then 1 else 0)\<rparr>"
    have "\<forall>u \<in> set ts. Sub u t < w"
      using Cons.prems by (auto simp: Sub_ge_iff linorder_not_le [symmetric])
    then have "fst (run_allow Allow (l(k \<mapsto> ?b)) (calls k mx w ts)) =
        map (\<lambda>i. bucket_count ?b + int i < mx) [0..<length ts]"
      by (intro run_in_window) auto
    then have "admitted (fst (run_allow Allow (l(k \<mapsto> ?b)) (calls k mx w ts))) \<le>
        nat (mx - bucket_count ?b)"
      by (simp only: admitted_threshold)
    moreover have "Allow l k mx w t = (0 < mx, l(k \<mapsto> ?b))"
      using True by (rule Allow_new_window)
    ultimately show ?thesis by auto
  next
    case False
    then obtain b where b: "l k = Some b" "Sub t (windowStart b) < w" by auto
    let ?b = "if bucket_count b < mx then b\<lparr>bucket_count := bucket_count b + 1\<rparr> else b"
    have "admitted (fst (run_allow Allow (l(k \<mapsto> ?b)) (calls k mx w ts))) \<le>
        remaining (l(k \<mapsto> ?b)) k mx + nat mx"
      using Cons.prems by (intro Cons.IH) auto
    moreover have "Allow l k mx w t = (bucket_count b < mx, l(k \<mapsto> ?b))"
      using b by (rule Allow_in_window)
    ultimately show ?thesis
      using b(1) by (auto simp: remaining_def split: if_splits)
  qed
qed simp

lemma remaining_le:
  assumes "counts_ok l" and "0 < mx"
  shows "remaining l k mx + nat mx \<le> 2 * nat mx - 1"
proof (cases "l k")
  case (Some b)
  then have "1 \<le> bucket_count b" using assms(1) by (simp add: counts_ok_def)
  with Some assms(2) show ?thesis by (simp add: remaining_def)
qed (use assms in \<open>simp add: remaining_def\<close>)

section \<open>Properties\<close>

text \<open>
  C29: The rate limit.  Whatever calls with positive limits the limiter has served before and whatever calls
  for other keys are interleaved, the calls for one key, at non-decreasing instants of an interval of the
  length of its window, are admitted at most \<open>2 * max - 1\<close> times, as long as calls do not overlap.
  (A fixed window can serve the end of one window and
  the start of the next within one window length; it can never serve more than that.)
\<close>

theorem rate_limit_bound:
  assumes "positive_max rs" and "0 < mx" and "0 < w" and "in_int64 w"
    and "filter (\<lambda>r. fst r = k) qs = calls k mx w ts"
    and "sorted ts" and "\<forall>t \<in> set ts. a \<le> t \<and> t < a + w"
  shows "admitted (answers_for k qs
      (fst (run_allow Allow (snd (run_allow Allow NewFixedWindowLimiter rs)) qs))) \<le> 2 * nat mx - 1"
proof -
  let ?l = "snd (run_allow Allow NewFixedWindowLimiter rs)"
  have "counts_ok ?l" using assms(1) by (simp add: counts_ok_run)
  then have "remaining ?l k mx + nat mx \<le> 2 * nat mx - 1"
    using assms(2) by (rule remaining_le)
  moreover have "admitted (fst (run_allow Allow ?l (calls k mx w ts))) \<le> remaining ?l k mx + nat mx"
    using assms(6,7,4,3) by (rule run_interval)
  ultimately show ?thesis
    by (simp add: fixed_window.run_isolation assms(5))
qed

text \<open>
  The bound is reached: the maximum is 2 and the window 10, and three of the calls at 5, 10 and 11
  are admitted.
\<close>

theorem rate_limit_bound_witness:
  "answers_for ''k'' (calls ''k'' 2 10 [5, 10, 11]) (fst (run_allow Allow
      (snd (run_allow Allow NewFixedWindowLimiter (calls ''k'' 2 10 [0])))
      (calls ''k'' 2 10 [5, 10, 11]))) = [True, True, True] \<and>
   admitted (answers_for ''k'' (calls ''k'' 2 10 [5, 10, 11]) (fst (run_allow Allow
      (snd (run_allow Allow NewFixedWindowLimiter (calls ''k'' 2 10 [0])))
      (calls ''k'' 2 10 [5, 10, 11])))) \<le> 2 * nat 2 - 1"
proof
  show "answers_for ''k'' (calls ''k'' 2 10 [5, 10, 11]) (fst (run_allow Allow
      (snd (run_allow Allow NewFixedWindowLimiter (calls ''k'' 2 10 [0])))
      (calls ''k'' 2 10 [5, 10, 11]))) = [True, True, True]"
    by (simp add: answers_for_def Allow_def rotate_window_def NewFixedWindowLimiter_def Sub_def
        max_int64_def min_int64_def)
  show "admitted (answers_for ''k'' (calls ''k'' 2 10 [5, 10, 11]) (fst (run_allow Allow
      (snd (run_allow Allow NewFixedWindowLimiter (calls ''k'' 2 10 [0])))
      (calls ''k'' 2 10 [5, 10, 11])))) \<le> 2 * nat 2 - 1"
    by (rule rate_limit_bound [where ts = "[5, 10, 11]" and a = 5 and w = 10])
      (simp_all add: positive_max_def in_int64_def)
qed

text \<open>
  On a key whose window is not open (never used, or expired), the next calls within one window
  length are answered by their position alone: the first \<open>max\<close> are admitted, every later one is
  refused.
\<close>

theorem fixed_window_answers:
  assumes "l k = None \<or> (\<exists>b. l k = Some b \<and> w \<le> Sub t (windowStart b))"
    and "\<forall>u \<in> set ts. u < t + w" and "in_int64 w" and "0 < w" and "0 < mx"
  shows "fst (run_allow Allow l (calls k mx w (t # ts))) =
    map (\<lambda>i. int i < mx) [0..<Suc (length ts)]"
proof -
  let ?b = "\<lparr>windowStart = t, bucket_count = 1\<rparr>"
  have "Allow l k mx w t = (True, l(k \<mapsto> ?b))"
    using Allow_new_window [of l k w t mx] assms(1,5) by simp
  moreover have "\<forall>u \<in> set ts. Sub u t < w"
    using assms(2-4) by (auto simp: Sub_ge_iff linorder_not_le [symmetric])
  then have "fst (run_allow Allow (l(k \<mapsto> ?b)) (calls k mx w ts)) =
      map (\<lambda>i. bucket_count ?b + int i < mx) [0..<length ts]"
    by (intro run_in_window) auto
  moreover have "\<dots> = map (\<lambda>i. int i < mx) [1..<Suc (length ts)]"
    by (auto simp: map_Suc_upt [symmetric] simp del: upt_Suc)
  ultimately show ?thesis
    using assms(5) by (simp add: upt_conv_Cons [of 0 "Suc (length ts)"] del: upt_Suc)
qed

theorem fixed_window_answers_witness:
  "fst (run_allow Allow NewFixedWindowLimiter (calls ''k'' 2 10 [0, 3, 9])) = [True, True, False]"
  using fixed_window_answers [of NewFixedWindowLimiter "''k''" 10 0 "[3, 9]" 2]
  by (simp add: NewFixedWindowLimiter_def in_int64_def)

text \<open>
  Keys are independent: in any run of calls, the answers a key receives are exactly the answers
  it would receive if the calls for all other keys had not been made.
\<close>

theorem rate_limit_isolation:
  "answers_for k rs (fst (run_allow Allow l rs)) =
     fst (run_allow Allow l (filter (\<lambda>r. fst r = k) rs))"
  by (rule fixed_window.run_isolation)

end
