(* ===== verification/PolicyLoader.thy ===== *)
theory PolicyLoader
  imports GoTime Validator
begin

text \<open>
  \<open>internal/policy/loader.go\<close>: the policy file as decoded from YAML, its compilation and the
  evaluation of a \<open>tools/call\<close> request against the compiled policy.  Reading the file and
  decoding YAML (\<open>os.ReadFile\<close>, \<open>gopkg.in/yaml.v3\<close>) are parameters of \<open>LoadFromFile\<close> and
  \<open>LoadFromBytes\<close>; so are the \<open>regexp\<close> engine and \<open>time.ParseDuration\<close>.
\<close>

section \<open>Policy files\<close>

record defaultsConfig =
  def_Action :: string

record toolsetConfig =
  ts_Tools :: "string list"

record rateLimitConfig =
  rlc_Max :: int
  rlc_Window :: string
  rlc_Per :: string

record ruleConfig =
  rc_Name :: string
  rc_Action :: string
  rc_Tools :: "string list"
  rc_Toolset :: string
  rc_Args :: "(string \<times> ArgValidator) list"
  rc_Reason :: string
  rc_RateLimit :: "rateLimitConfig option"

record policyFile =
  pf_Version :: string
  pf_Defaults :: defaultsConfig
  pf_Toolsets :: "(string \<times> toolsetConfig) list"
  pf_Rules :: "ruleConfig list"

section \<open>Compiled policies\<close>

text \<open>A Go \<open>map[string]struct{}\<close> is a set of strings.\<close>

record compiledRateLimit =
  rl_max :: int
  rl_window :: duration
  rl_per :: string

record 're compiledRule =
  rule_name :: string
  rule_tools :: "string set"
  rule_args :: "(string \<times> 're compiledArgValidator) list"
  rule_reason :: string
  rule_rateLimit :: "compiledRateLimit option"

record 're CompiledPolicy =
  allowedSurface :: "string set"
  allowRules :: "'re compiledRule list"
  denyRules :: "'re compiledRule list"

datatype policy_error =
    ReadPolicyFile string
  | DecodePolicy string
  | UnsupportedVersion string
  | RuleNameRequired nat
  | BadRuleAction string
  | NoToolsOrToolset string
  | DuplicateRuleName string
  | ToolsetNotDefined string string
  | BadArg string string validator_error
  | RateLimitOnDeny string
  | RateLimitMaxNotPositive string
  | RateLimitWindow string string duration_error
  | RateLimitWindowNotPositive string string
  | RateLimitPer string string

section \<open>compile\<close>

text \<open>The tools of one rule: its own list and those of its toolset.\<close>

definition compile_tools ::
  "(string \<rightharpoonup> string list) \<Rightarrow> ruleConfig \<Rightarrow> policy_error + string set" where
  "compile_tools toolsets r =
     (let toolSet = set (rc_Tools r)
      in if rc_Toolset r \<noteq> '''' then
           (case toolsets (rc_Toolset r) of
              None \<Rightarrow> Inl (ToolsetNotDefined (rc_Name r) (rc_Toolset r))
            | Some ts \<Rightarrow> Inr (toolSet \<union> set ts))
         else Inr toolSet)"

fun compile_args ::
  "'re regexp_pkg \<Rightarrow> string \<Rightarrow> (string \<times> ArgValidator) list
   \<Rightarrow> policy_error + (string \<times> 're compiledArgValidator) list" where
  "compile_args re rname [] = Inr []"
| "compile_args re rname ((argName, av) # args) =
     (case newCompiledArgValidator re av of
        Inl err \<Rightarrow> Inl (BadArg rname argName err)
      | Inr cv \<Rightarrow>
        (case compile_args re rname args of
           Inl e \<Rightarrow> Inl e
         | Inr cvs \<Rightarrow> Inr ((argName, cv) # cvs)))"

definition compile_rateLimit ::
  "(string \<Rightarrow> duration_error + duration) \<Rightarrow> ruleConfig
   \<Rightarrow> policy_error + compiledRateLimit option" where
  "compile_rateLimit pd r =
     (case rc_RateLimit r of
        None \<Rightarrow> Inr None
      | Some c \<Rightarrow>
        if rc_Action r \<noteq> ''allow'' then Inl (RateLimitOnDeny (rc_Name r))
        else if rlc_Max c \<le> 0 then Inl (RateLimitMaxNotPositive (rc_Name r))
        else (case pd (rlc_Window c) of
          Inl err \<Rightarrow> Inl (RateLimitWindow (rc_Name r) (rlc_Window c) err)
        | Inr dur \<Rightarrow>
          if dur \<le> 0 then Inl (RateLimitWindowNotPositive (rc_Name r) (rlc_Window c))
          else let per = (if rlc_Per c = '''' then ''global'' else rlc_Per c)
          in if per \<noteq> ''global'' \<and> per \<noteq> ''client'' then Inl (RateLimitPer (rc_Name r) per)
          else Inr (Some \<lparr>rl_max = rlc_Max c, rl_window = dur, rl_per = per\<rparr>)))"

text \<open>The checks and the compilation of the body of the loop over the rules.\<close>

definition check_rule :: "nat \<Rightarrow> string set \<Rightarrow> ruleConfig \<Rightarrow> policy_error option" where
  "check_rule i names r =
     (if rc_Name r = '''' then Some (RuleNameRequired i)
      else if rc_Action r \<noteq> ''allow'' \<and> rc_Action r \<noteq> ''deny'' then Some (BadRuleAction (rc_Name r))
      else if length (rc_Tools r) = 0 \<and> rc_Toolset r = '''' then Some (NoToolsOrToolset (rc_Name r))
      else if rc_Name r \<in> names then Some (DuplicateRuleName (rc_Name r))
      else None)"

definition compile_rule ::
  "'re regexp_pkg \<Rightarrow> (string \<Rightarrow> duration_error + duration) \<Rightarrow> (string \<rightharpoonup> string list)
   \<Rightarrow> ruleConfig \<Rightarrow> policy_error + 're compiledRule" where
  "compile_rule re pd toolsets r =
     (case compile_tools toolsets r of
        Inl e \<Rightarrow> Inl e
      | Inr toolSet \<Rightarrow>
        (case compile_args re (rc_Name r) (rc_Args r) of
           Inl e \<Rightarrow> Inl e
         | Inr compiledArgs \<Rightarrow>
           (case compile_rateLimit pd r of
              Inl e \<Rightarrow> Inl e
            | Inr crl \<Rightarrow>
              Inr \<lparr>rule_name = rc_Name r, rule_tools = toolSet, rule_args = compiledArgs,
                   rule_reason = rc_Reason r, rule_rateLimit = crl\<rparr>)))"

definition add_rule ::
  "ruleConfig \<Rightarrow> 're compiledRule \<Rightarrow> 're CompiledPolicy \<Rightarrow> 're CompiledPolicy" where
  "add_rule r cr p =
     (if rc_Action r = ''allow'' then
        p\<lparr>allowRules := allowRules p @ [cr], allowedSurface := allowedSurface p \<union> rule_tools cr\<rparr>
      else if rc_Action r = ''deny'' then p\<lparr>denyRules := denyRules p @ [cr]\<rparr>
      else p)"

fun compile_rules ::
  "'re regexp_pkg \<Rightarrow> (string \<Rightarrow> duration_error + duration) \<Rightarrow> (string \<rightharpoonup> string list)
   \<Rightarrow> nat \<Rightarrow> string set \<Rightarrow> 're CompiledPolicy \<Rightarrow> ruleConfig list
   \<Rightarrow> policy_error + 're CompiledPolicy" where
  "compile_rules re pd toolsets i names p [] = Inr p"
| "compile_rules re pd toolsets i names p (r # rs) =
     (case check_rule i names r of
        Some e \<Rightarrow> Inl e
      | None \<Rightarrow>
        (case compile_rule re pd toolsets r of
           Inl e \<Rightarrow> Inl e
         | Inr cr \<Rightarrow>
           compile_rules re pd toolsets (Suc i) (insert (rc_Name r) names) (add_rule r cr p) rs))"

definition empty_policy :: "'re CompiledPolicy" where
  "empty_policy = \<lparr>allowedSurface = {}, allowRules = [], denyRules = []\<rparr>"

definition toolset_map :: "policyFile \<Rightarrow> string \<rightharpoonup> string list" where
  "toolset_map pf = map_option ts_Tools \<circ> map_of (pf_Toolsets pf)"

definition compile ::
  "'re regexp_pkg \<Rightarrow> (string \<Rightarrow> duration_error + duration) \<Rightarrow> policyFile
   \<Rightarrow> policy_error + 're CompiledPolicy" where
  "compile re pd pf =
     (if pf_Version pf \<noteq> ''1'' then Inl (UnsupportedVersion (pf_Version pf))
      else compile_rules re pd (toolset_map pf) 0 {} empty_policy (pf_Rules pf))"

definition LoadFromBytes ::
  "(string \<Rightarrow> string + policyFile) \<Rightarrow> 're regexp_pkg \<Rightarrow> (string \<Rightarrow> duration_error + duration)
   \<Rightarrow> string \<Rightarrow> policy_error + 're CompiledPolicy" where
  "LoadFromBytes yaml re pd data =
     (case yaml data of Inl e \<Rightarrow> Inl (DecodePolicy e) | Inr pf \<Rightarrow> compile re pd pf)"

definition LoadFromFile ::
  "(string \<Rightarrow> string + string) \<Rightarrow> (string \<Rightarrow> string + policyFile) \<Rightarrow> 're regexp_pkg
   \<Rightarrow> (string \<Rightarrow> duration_error + duration) \<Rightarrow> string \<Rightarrow> policy_error + 're CompiledPolicy" where
  "LoadFromFile read_file yaml re pd path =
     (case read_file path of
        Inl e \<Rightarrow> Inl (ReadPolicyFile e)
      | Inr data \<Rightarrow> LoadFromBytes yaml re pd data)"

section \<open>evaluate\<close>

record Decision =
  dec_Action :: string
  dec_Rule :: string
  dec_Reason :: string
  dec_RateLimited :: bool
  dec_RetryAfterMs :: int

definition deny :: "string \<Rightarrow> string \<Rightarrow> Decision" where
  "deny rule reason = \<lparr>dec_Action = ''deny'', dec_Rule = rule, dec_Reason = reason,
     dec_RateLimited = False, dec_RetryAfterMs = 0\<rparr>"

definition allow :: Decision where
  "allow = \<lparr>dec_Action = ''allow'', dec_Rule = '''', dec_Reason = '''',
     dec_RateLimited = False, dec_RetryAfterMs = 0\<rparr>"

fun anyArgFails ::
  "'re regexp_pkg \<Rightarrow> (string \<times> 're compiledArgValidator) list \<Rightarrow> (string \<times> any) list \<Rightarrow> bool" where
  "anyArgFails re [] args = False"
| "anyArgFails re ((name, v) # vs) args =
     (case map_of args name of
        None \<Rightarrow> True
      | Some val \<Rightarrow> if \<not> Validate re v val then True else anyArgFails re vs args)"

fun check_denyRules ::
  "'re regexp_pkg \<Rightarrow> ToolsCallRequest \<Rightarrow> 're compiledRule list \<Rightarrow> Decision option" where
  "check_denyRules re call [] = None"
| "check_denyRules re call (rule # rs) =
     (if call_Name call \<notin> rule_tools rule then check_denyRules re call rs
      else if length (rule_args rule) = 0 \<or> anyArgFails re (rule_args rule) (call_Arguments call) then
        Some (deny (rule_name rule)
          (if rule_reason rule = '''' then ''denied by rule '' @ rule_name rule else rule_reason rule))
      else check_denyRules re call rs)"

fun check_allowRules ::
  "'re regexp_pkg \<Rightarrow> ToolsCallRequest \<Rightarrow> 're compiledRule list \<Rightarrow> Decision option" where
  "check_allowRules re call [] = None"
| "check_allowRules re call (rule # rs) =
     (if call_Name call \<notin> rule_tools rule then check_allowRules re call rs
      else if length (rule_args rule) = 0 then check_allowRules re call rs
      else if anyArgFails re (rule_args rule) (call_Arguments call) then
        Some (deny (rule_name rule) ''arg validation failed'')
      else check_allowRules re call rs)"

definition evaluate ::
  "'re regexp_pkg \<Rightarrow> 're CompiledPolicy \<Rightarrow> ToolsCallRequest \<Rightarrow> Decision" where
  "evaluate re p call =
     (if call_Name call \<notin> allowedSurface p then deny '''' ''tool not in allowed surface''
      else case check_denyRules re call (denyRules p) of
        Some d \<Rightarrow> d
      | None \<Rightarrow>
        (case check_allowRules re call (allowRules p) of
           Some d \<Rightarrow> d
         | None \<Rightarrow> allow))"

section \<open>Facts about compile\<close>

text \<open>
  \<open>accepted\<close> collects what the loop has checked of a list of rules when it returns without an
  error: every rule has a name that no earlier rule has, an action, and compiles.
\<close>

definition is_allow :: "ruleConfig \<Rightarrow> bool" where
  "is_allow r \<longleftrightarrow> rc_Action r = ''allow''"

definition is_deny :: "ruleConfig \<Rightarrow> bool" where
  "is_deny r \<longleftrightarrow> rc_Action r = ''deny''"

definition compiled ::
  "'re regexp_pkg \<Rightarrow> (string \<Rightarrow> duration_error + duration) \<Rightarrow> (string \<rightharpoonup> string list)
   \<Rightarrow> ruleConfig \<Rightarrow> 're compiledRule" where
  "compiled re pd toolsets r = projr (compile_rule re pd toolsets r)"

definition accepted ::
  "'re regexp_pkg \<Rightarrow> (string \<Rightarrow> duration_error + duration) \<Rightarrow> (string \<rightharpoonup> string list)
   \<Rightarrow> string set \<Rightarrow> ruleConfig list \<Rightarrow> bool" where
  "accepted re pd toolsets names rs \<longleftrightarrow>
     distinct (map rc_Name rs) \<and> names \<inter> set (map rc_Name rs) = {} \<and>
     list_all (\<lambda>r. rc_Name r \<noteq> '''' \<and> (is_allow r \<or> is_deny r) \<and>
       (rc_Tools r \<noteq> [] \<or> rc_Toolset r \<noteq> '''') \<and>
       compile_rule re pd toolsets r = Inr (compiled re pd toolsets r)) rs"

definition policy_of ::
  "'re regexp_pkg \<Rightarrow> (string \<Rightarrow> duration_error + duration) \<Rightarrow> (string \<rightharpoonup> string list)
   \<Rightarrow> 're CompiledPolicy \<Rightarrow> ruleConfig list \<Rightarrow> 're CompiledPolicy" where
  "policy_of re pd toolsets p rs =
     \<lparr>allowedSurface = allowedSurface p \<union>
        \<Union> (rule_tools ` compiled re pd toolsets ` set (filter is_allow rs)),
      allowRules = allowRules p @ map (compiled re pd toolsets) (filter is_allow rs),
      denyRules = denyRules p @ map (compiled re pd toolsets) (filter is_deny rs)\<rparr>"

lemma compile_rules_Inr:
  "compile_rules re pd ts i names p rs = Inr p' \<longleftrightarrow>
     accepted re pd ts names rs \<and> p' = policy_of re pd ts p rs"
proof (induction rs arbitrary: i names p)
  case Nil
  show ?case by (auto simp: accepted_def policy_of_def)
next
  case (Cons r rs)
  show ?case
  proof (cases "check_rule i names r")
    case (Some e)
    then have "\<not> accepted re pd ts names (r # rs)"
      by (auto simp: check_rule_def accepted_def is_allow_def is_deny_def split: if_splits)
    with Some show ?thesis by simp
  next
    case None
    then have ok: "rc_Name r \<noteq> ''''" "is_allow r \<or> is_deny r"
      "rc_Tools r \<noteq> [] \<or> rc_Toolset r \<noteq> ''''" "rc_Name r \<notin> names"
      by (auto simp: check_rule_def is_allow_def is_deny_def split: if_splits)
    show ?thesis
    proof (cases "compile_rule re pd ts r")
      case (Inl e)
      then show ?thesis using None by (auto simp: accepted_def)
    next
      case (Inr cr)
      then have cr: "compiled re pd ts r = cr" by (simp add: compiled_def)
      have acc: "accepted re pd ts names (r # rs) \<longleftrightarrow>
          accepted re pd ts (insert (rc_Name r) names) rs"
        using ok Inr cr by (auto simp: accepted_def)
      have "policy_of re pd ts (add_rule r cr p) rs = policy_of re pd ts p (r # rs)"
        using ok(2) cr by (auto simp: policy_of_def add_rule_def is_allow_def is_deny_def)
      with Cons.IH [of "Suc i" "insert (rc_Name r) names" "add_rule r cr p"] acc None Inr
      show ?thesis by simp
    qed
  qed
qed

lemma compile_Inr:
  "compile re pd pf = Inr p \<longleftrightarrow>
     pf_Version pf = ''1'' \<and> accepted re pd (toolset_map pf) {} (pf_Rules pf) \<and>
     p = policy_of re pd (toolset_map pf) empty_policy (pf_Rules pf)"
  by (simp add: compile_def compile_rules_Inr)

lemma accepted_rule:
  assumes "accepted re pd ts names rs" and "r \<in> set rs"
  shows "compile_rule re pd ts r = Inr (compiled re pd ts r)" and "is_allow r \<or> is_deny r"
  using assms by (auto simp: accepted_def list_all_iff)

lemma compile_args_Inr:
  "compile_args re rname args = Inr cvs \<Longrightarrow>
     list_all2 (\<lambda>(a, av) (b, cv). a = b \<and> newCompiledArgValidator re av = Inr cv) args cvs"
  by (induction args arbitrary: cvs) (auto split: sum.splits)

text \<open>What a rule that compiled keeps of its configuration.\<close>

lemma compile_rule_Inr:
  assumes "compile_rule re pd ts r = Inr cr"
  shows "rule_name cr = rc_Name r" and "rule_reason cr = rc_Reason r"
    and "compile_tools ts r = Inr (rule_tools cr)"
    and "compile_args re (rc_Name r) (rc_Args r) = Inr (rule_args cr)"
    and "compile_rateLimit pd r = Inr (rule_rateLimit cr)"
  using assms by (auto simp: compile_rule_def split: sum.splits)

definition rule_covers :: "(string \<rightharpoonup> string list) \<Rightarrow> ruleConfig \<Rightarrow> string \<Rightarrow> bool" where
  "rule_covers ts r tool \<longleftrightarrow> tool \<in> set (rc_Tools r) \<or>
     rc_Toolset r \<noteq> '''' \<and> (case ts (rc_Toolset r) of None \<Rightarrow> False | Some tools \<Rightarrow> tool \<in> set tools)"

lemma compile_tools_covers:
  "compile_tools ts r = Inr tools \<Longrightarrow> tool \<in> tools \<longleftrightarrow> rule_covers ts r tool"
  by (auto simp: compile_tools_def rule_covers_def Let_def split: if_splits option.splits)

lemma compiled_covers:
  "compile_rule re pd ts r = Inr cr \<Longrightarrow> tool \<in> rule_tools cr \<longleftrightarrow> rule_covers ts r tool"
  by (rule compile_tools_covers) (rule compile_rule_Inr)

section \<open>Facts about evaluate\<close>

definition args_pass ::
  "'re regexp_pkg \<Rightarrow> (string \<times> 're compiledArgValidator) list \<Rightarrow> (string \<times> any) list \<Rightarrow> bool" where
  "args_pass re vs args \<longleftrightarrow>
     (\<forall>(name, v) \<in> set vs. \<exists>val. map_of args name = Some val \<and> Validate re v val)"

lemma anyArgFails_iff: "anyArgFails re vs args \<longleftrightarrow> \<not> args_pass re vs args"
  by (induction vs) (auto simp: args_pass_def split: option.splits)

lemma check_denyRules_None:
  "check_denyRules re call rs = None \<longleftrightarrow>
     (\<forall>rule \<in> set rs. call_Name call \<in> rule_tools rule \<longrightarrow>
        rule_args rule \<noteq> [] \<and> args_pass re (rule_args rule) (call_Arguments call))"
  by (induction rs) (auto simp: anyArgFails_iff)

lemma check_allowRules_None:
  "check_allowRules re call rs = None \<longleftrightarrow>
     (\<forall>rule \<in> set rs. call_Name call \<in> rule_tools rule \<longrightarrow>
        args_pass re (rule_args rule) (call_Arguments call))"
  by (induction rs) (auto simp: anyArgFails_iff args_pass_def)

lemma check_denyRules_Some:
  "check_denyRules re call rs = Some d \<Longrightarrow> \<exists>rule \<in> set rs. \<exists>reason.
     d = deny (rule_name rule) reason \<and> reason \<noteq> ''''"
  by (induction rs) (auto split: if_splits)

lemma check_allowRules_Some:
  "check_allowRules re call rs = Some d \<Longrightarrow> \<exists>rule \<in> set rs.
     d = deny (rule_name rule) ''arg validation failed''"
  by (induction rs) (auto split: if_splits)

text \<open>The two shapes of a decision, and when each is given.\<close>

lemma evaluate_cases:
  "evaluate re p call = allow \<or> (\<exists>rule reason. evaluate re p call = deny rule reason \<and> reason \<noteq> '''')"
  by (auto simp: evaluate_def split: option.splits
      dest!: check_denyRules_Some check_allowRules_Some)

lemma evaluate_allow_iff:
  "dec_Action (evaluate re p call) = ''allow'' \<longleftrightarrow>
     call_Name call \<in> allowedSurface p \<and>
     check_denyRules re call (denyRules p) = None \<and> check_allowRules re call (allowRules p) = None"
  by (auto simp: evaluate_def deny_def allow_def split: option.splits
      dest!: check_denyRules_Some check_allowRules_Some)

section \<open>Properties\<close>

text \<open>The arguments of a call meet every validator of a rule, in terms of the YAML entries.\<close>

definition rule_args_ok :: "'re regexp_pkg \<Rightarrow> ruleConfig \<Rightarrow> (string \<times> any) list \<Rightarrow> bool" where
  "rule_args_ok re r args \<longleftrightarrow>
     (\<forall>(a, av) \<in> set (rc_Args r). \<exists>s. map_of args a = Some (AString s) \<and> satisfies re av s)"

lemma args_pass_compiled:
  assumes "compile_rule re pd ts r = Inr cr"
  shows "args_pass re (rule_args cr) args \<longleftrightarrow> rule_args_ok re r args"
proof -
  have "list_all2 (\<lambda>(a, av) (b, cv). a = b \<and> newCompiledArgValidator re av = Inr cv)
      (rc_Args r) (rule_args cr)"
    using compile_args_Inr compile_rule_Inr(4) [OF assms] by blast
  then have "(\<forall>x \<in> set (rule_args cr). case x of (a, cv) \<Rightarrow>
        \<exists>val. map_of args a = Some val \<and> Validate re cv val) \<longleftrightarrow>
      (\<forall>x \<in> set (rc_Args r). case x of (a, av) \<Rightarrow>
        \<exists>s. map_of args a = Some (AString s) \<and> satisfies re av s)"
  proof (induction rule: list_all2_induct)
    case (Cons x xs y ys)
    obtain a av b cv where xy: "x = (a, av)" "y = (b, cv)" by (cases x; cases y)
    with Cons.hyps(1) have "a = b" and "newCompiledArgValidator re av = Inr cv" by auto
    then have "(\<exists>val. map_of args b = Some val \<and> Validate re cv val) \<longleftrightarrow>
        (\<exists>s. map_of args a = Some (AString s) \<and> satisfies re av s)"
      using Validate_spec [of re av cv] by auto
    with Cons.IH xy show ?case by auto
  qed simp
  then show ?thesis by (simp add: args_pass_def rule_args_ok_def)
qed

lemma evaluate_rules:
  assumes "compile re pd pf = Inr p"
  shows "dec_Action (evaluate re p call) = ''allow'' \<longleftrightarrow>
    (\<exists>r \<in> set (pf_Rules pf). is_allow r \<and> rule_covers (toolset_map pf) r (call_Name call)) \<and>
    (\<forall>r \<in> set (pf_Rules pf). rule_covers (toolset_map pf) r (call_Name call) \<longrightarrow>
       (is_deny r \<longrightarrow> rc_Args r \<noteq> []) \<and> rule_args_ok re r (call_Arguments call))"
proof -
  let ?ts = "toolset_map pf" and ?c = "compiled re pd (toolset_map pf)"
  from assms have acc: "accepted re pd ?ts {} (pf_Rules pf)"
    and p: "p = policy_of re pd ?ts empty_policy (pf_Rules pf)"
    by (simp_all add: compile_Inr)
  have c: "compile_rule re pd ?ts r = Inr (?c r)" and ad: "is_allow r \<or> is_deny r"
    if "r \<in> set (pf_Rules pf)" for r
    using accepted_rule [OF acc that] by auto
  have cov: "call_Name call \<in> rule_tools (?c r) \<longleftrightarrow> rule_covers ?ts r (call_Name call)"
    and pass: "args_pass re (rule_args (?c r)) (call_Arguments call) \<longleftrightarrow>
        rule_args_ok re r (call_Arguments call)"
    and emp: "rule_args (?c r) = [] \<longleftrightarrow> rc_Args r = []"
    if "r \<in> set (pf_Rules pf)" for r
    using compiled_covers [OF c [OF that]] args_pass_compiled [OF c [OF that]]
      compile_args_Inr [OF compile_rule_Inr(4) [OF c [OF that]]]
    by (auto dest: list_all2_lengthD)
  have excl: "\<not> (is_allow r \<and> is_deny r)" for r by (simp add: is_allow_def is_deny_def)
  have "call_Name call \<in> allowedSurface p \<longleftrightarrow>
      (\<exists>r \<in> set (pf_Rules pf). is_allow r \<and> rule_covers ?ts r (call_Name call))"
    using cov by (auto simp: p policy_of_def empty_policy_def)
  moreover have "check_denyRules re call (denyRules p) = None \<longleftrightarrow>
      (\<forall>r \<in> set (pf_Rules pf). is_deny r \<longrightarrow> rule_covers ?ts r (call_Name call) \<longrightarrow>
         rc_Args r \<noteq> [] \<and> rule_args_ok re r (call_Arguments call))"
    using cov pass emp by (auto simp: check_denyRules_None p policy_of_def empty_policy_def)
  moreover have "check_allowRules re call (allowRules p) = None \<longleftrightarrow>
      (\<forall>r \<in> set (pf_Rules pf). is_allow r \<longrightarrow> rule_covers ?ts r (call_Name call) \<longrightarrow>
         rule_args_ok re r (call_Arguments call))"
    using cov pass by (auto simp: check_allowRules_None p policy_of_def empty_policy_def)
  ultimately show ?thesis
    using ad excl by (simp only: evaluate_allow_iff) blast
qed

text \<open>
  The reading that the README gives of a policy: the rules from top to bottom, the first match wins, no
  match denies.  A rule matches a call when it lists the tool and, for an allow rule, the arguments meet
  its validators, for a deny rule, it has no validators or one of them fails.
\<close>

definition rule_matches ::
  "'re regexp_pkg \<Rightarrow> (string \<rightharpoonup> string list) \<Rightarrow> ToolsCallRequest \<Rightarrow> ruleConfig \<Rightarrow> bool" where
  "rule_matches re ts call r \<longleftrightarrow> rule_covers ts r (call_Name call) \<and>
     (if is_allow r then rule_args_ok re r (call_Arguments call)
      else rc_Args r = [] \<or> \<not> rule_args_ok re r (call_Arguments call))"

fun first_match ::
  "'re regexp_pkg \<Rightarrow> (string \<rightharpoonup> string list) \<Rightarrow> ToolsCallRequest \<Rightarrow> ruleConfig list \<Rightarrow> bool" where
  "first_match re ts call [] = False"
| "first_match re ts call (r # rs) =
     (if rule_matches re ts call r then is_allow r else first_match re ts call rs)"

text \<open>What the code asks of every rule that lists the tool, wherever it stands.\<close>

definition no_guard ::
  "'re regexp_pkg \<Rightarrow> (string \<rightharpoonup> string list) \<Rightarrow> ToolsCallRequest \<Rightarrow> ruleConfig \<Rightarrow> bool" where
  "no_guard re ts call r \<longleftrightarrow> rule_covers ts r (call_Name call) \<longrightarrow> is_allow r = rule_matches re ts call r"

lemma first_match_allow:
  "first_match re ts call rs \<Longrightarrow> \<exists>r \<in> set rs. is_allow r \<and> rule_covers ts r (call_Name call)"
  by (induction rs) (auto simp: rule_matches_def split: if_splits)

lemma unguarded_match:
  "\<forall>r \<in> set rs. no_guard re ts call r \<Longrightarrow> \<exists>r \<in> set rs. is_allow r \<and> rule_covers ts r (call_Name call) \<Longrightarrow>
   first_match re ts call rs"
proof (induction rs)
  case (Cons r rs)
  then show ?case by (cases "rule_covers ts r (call_Name call)") (auto simp: no_guard_def rule_matches_def)
qed simp

text \<open>No rule that lists the tool stands after an allow rule that lists it.\<close>

definition allow_comes_last :: "(string \<rightharpoonup> string list) \<Rightarrow> string \<Rightarrow> ruleConfig list \<Rightarrow> bool" where
  "allow_comes_last ts tool = sorted_wrt (\<lambda>r r'. \<not> (is_allow r \<and> rule_covers ts r tool \<and> rule_covers ts r' tool))"

lemma last_allow_decides:
  "allow_comes_last ts (call_Name call) rs \<Longrightarrow> first_match re ts call rs \<Longrightarrow> \<forall>r \<in> set rs. no_guard re ts call r"
proof (induction rs)
  case (Cons r rs)
  show ?case
  proof (cases "rule_matches re ts call r")
    case True
    then have "is_allow r" "rule_covers ts r (call_Name call)" using Cons.prems(2) by (simp, simp add: rule_matches_def)
    then show ?thesis using Cons.prems(1) True by (auto simp: allow_comes_last_def no_guard_def)
  next
    case False
    then have m: "first_match re ts call rs" using Cons.prems(2) by simp
    have l: "allow_comes_last ts (call_Name call) rs" using Cons.prems(1) by (simp add: allow_comes_last_def)
    obtain r' where "r' \<in> set rs" "rule_covers ts r' (call_Name call)" using first_match_allow [OF m] by blast
    then have "\<not> (is_allow r \<and> rule_covers ts r (call_Name call))"
      using Cons.prems(1) by (auto simp: allow_comes_last_def)
    then show ?thesis using Cons.IH [OF l m] False by (auto simp: no_guard_def)
  qed
qed simp

text \<open>
  C15: What a policy file decides, beside what its documentation says.  For a file that compiled, a call
  is allowed exactly when the documented reading (top to bottom, first match wins, deny by default)
  allows it and besides, wherever they stand in the file, no deny rule that lists the tool fires and no
  allow rule that lists it rejects the arguments.  So the code is never more permissive than documented:
  some allow rule lists the tool and accepts the arguments.  And it decides exactly as documented when
  no rule that lists the tool stands after an allow rule that lists it.
\<close>

theorem policy_decision:
  assumes "compile re pd pf = Inr p"
  shows "(dec_Action (evaluate re p call) = ''allow'' \<longleftrightarrow>
      first_match re (toolset_map pf) call (pf_Rules pf) \<and>
      (\<forall>r \<in> set (pf_Rules pf). rule_covers (toolset_map pf) r (call_Name call) \<longrightarrow>
         (is_deny r \<longrightarrow> rc_Args r \<noteq> []) \<and> rule_args_ok re r (call_Arguments call))) \<and>
    (allow_comes_last (toolset_map pf) (call_Name call) (pf_Rules pf) \<longrightarrow>
      (dec_Action (evaluate re p call) = ''allow'' \<longleftrightarrow> first_match re (toolset_map pf) call (pf_Rules pf)))"
proof -
  let ?rs = "pf_Rules pf" and ?ts = "toolset_map pf"
  have ad: "is_deny r \<longleftrightarrow> \<not> is_allow r" if "r \<in> set ?rs" for r
    using assms accepted_rule(2) [of re pd ?ts "{}" ?rs r] that
    by (auto simp: compile_Inr is_allow_def is_deny_def)
  have g: "(\<forall>r \<in> set ?rs. rule_covers ?ts r (call_Name call) \<longrightarrow>
         (is_deny r \<longrightarrow> rc_Args r \<noteq> []) \<and> rule_args_ok re r (call_Arguments call)) \<longleftrightarrow>
      (\<forall>r \<in> set ?rs. no_guard re ?ts call r)"
    using ad by (intro ball_cong refl) (auto simp: no_guard_def rule_matches_def)
  show ?thesis
    unfolding evaluate_rules [OF assms] g
    using unguarded_match [of ?rs re ?ts call] first_match_allow [of re ?ts call ?rs]
      last_allow_decides [of ?ts call ?rs re] by blast
qed

text \<open>
  The policy file of the README's shape: one toolset, an allow rule over it and, after it, a deny
  rule that guards the path argument of one of its tools.
\<close>

definition example_rule_allow :: ruleConfig where
  "example_rule_allow = \<lparr>rc_Name = ''allow-ro'', rc_Action = ''allow'', rc_Tools = [],
     rc_Toolset = ''ro'', rc_Args = [], rc_Reason = '''', rc_RateLimit = None\<rparr>"

definition example_rule_deny :: ruleConfig where
  "example_rule_deny = \<lparr>rc_Name = ''block-etc'', rc_Action = ''deny'', rc_Tools = [''fs.read''],
     rc_Toolset = '''',
     rc_Args = [(''path'', \<lparr>av_Match = '''', av_NotMatch = ''/etc'', av_OneOf = [], av_MaxLen = 0\<rparr>)],
     rc_Reason = '''', rc_RateLimit = None\<rparr>"

definition example_file :: "ruleConfig list \<Rightarrow> policyFile" where
  "example_file rules = \<lparr>pf_Version = ''1'', pf_Defaults = \<lparr>def_Action = ''deny''\<rparr>,
     pf_Toolsets = [(''ro'', \<lparr>ts_Tools = [''fs.read'', ''gh.search'']\<rparr>)], pf_Rules = rules\<rparr>"

definition example_policy :: "string CompiledPolicy" where
  "example_policy = \<lparr>allowedSurface = {''fs.read'', ''gh.search''},
     allowRules = [\<lparr>rule_name = ''allow-ro'', rule_tools = {''fs.read'', ''gh.search''},
       rule_args = [], rule_reason = '''', rule_rateLimit = None\<rparr>],
     denyRules = [\<lparr>rule_name = ''block-etc'', rule_tools = {''fs.read''},
       rule_args = [(''path'',
         \<lparr>cav_raw = \<lparr>av_Match = '''', av_NotMatch = ''/etc'', av_OneOf = [], av_MaxLen = 0\<rparr>,
          cav_matchRE = None, cav_notMatchRE = Some ''/etc''\<rparr>)],
       rule_reason = '''', rule_rateLimit = None\<rparr>]\<rparr>"

abbreviation no_durations :: "string \<Rightarrow> duration_error + duration" where
  "no_durations s \<equiv> Inl (InvalidDuration s)"

lemmas example_policy_defs =
  example_rule_allow_def example_rule_deny_def example_file_def example_policy_def
  substring_re_def

lemma example_compiles:
  "compile substring_re no_durations (example_file [example_rule_allow, example_rule_deny]) =
     Inr example_policy"
  "compile substring_re no_durations (example_file [example_rule_deny, example_rule_allow]) =
     Inr example_policy"
  by (simp_all add: compile_def check_rule_def compile_rule_def compile_tools_def
      compile_rateLimit_def toolset_map_def add_rule_def empty_policy_def
      newCompiledArgValidator_def example_policy_defs)

abbreviation read_etc :: ToolsCallRequest where
  "read_etc \<equiv> \<lparr>call_Name = ''fs.read'', call_Arguments = [(''path'', AString ''/etc/passwd'')]\<rparr>"

lemmas example_rules = rule_matches_def rule_covers_def rule_args_ok_def satisfies_def is_allow_def is_deny_def
  toolset_map_def example_file_def example_rule_allow_def example_rule_deny_def substring_re_def

lemma etc_sublist: "sublist ''/etc'' ''/etc/passwd''" "\<not> sublist ''/etc'' ''/tmp''"
  using sublist_appendI [of "''/etc''" "[]" "''/passwd''"] by (simp_all add: sublist_code)

theorem policy_decision_witness:
  "first_match substring_re (toolset_map (example_file [example_rule_allow, example_rule_deny])) read_etc
     [example_rule_allow, example_rule_deny] \<and>
   dec_Action (evaluate substring_re example_policy read_etc) \<noteq> ''allow'' \<and>
   dec_Action (evaluate substring_re example_policy
     \<lparr>call_Name = ''fs.read'', call_Arguments = [(''path'', AString ''/tmp'')]\<rparr>) = ''allow''"
proof (intro conjI)
  show "first_match substring_re (toolset_map (example_file [example_rule_allow, example_rule_deny])) read_etc
     [example_rule_allow, example_rule_deny]"
    by (simp add: example_rules)
  show "dec_Action (evaluate substring_re example_policy read_etc) \<noteq> ''allow''"
    using policy_decision [OF example_compiles(1), of read_etc] by (simp add: example_rules etc_sublist)
  show "dec_Action (evaluate substring_re example_policy
     \<lparr>call_Name = ''fs.read'', call_Arguments = [(''path'', AString ''/tmp'')]\<rparr>) = ''allow''"
    using policy_decision [OF example_compiles(2), of "\<lparr>call_Name = ''fs.read'', call_Arguments = [(''path'', AString ''/tmp'')]\<rparr>"]
    by (simp add: example_rules etc_sublist allow_comes_last_def)
qed

text \<open>
  The position of a rule in the file does not matter beyond the order among allow rules and the
  order among deny rules, and the file's \<open>defaults\<close> are not read: two files that compile and agree
  on the toolsets, the sequence of allow rules and the sequence of deny rules compile to the same
  policy.  In particular a deny rule written after an allow rule for the same tool guards it as one
  written before it does, so the first rule that matches does not win.
\<close>

theorem rule_position_irrelevant:
  assumes "compile re pd pf = Inr p" and "compile re pd pf' = Inr p'"
    and "toolset_map pf = toolset_map pf'"
    and "filter is_allow (pf_Rules pf) = filter is_allow (pf_Rules pf')"
    and "filter is_deny (pf_Rules pf) = filter is_deny (pf_Rules pf')"
  shows "p = p'"
  using assms by (simp add: compile_Inr policy_of_def)

text \<open>
  The call of the witness is listed by the first rule, an allow rule without validators, and is
  denied by the second rule; the file with the two rules exchanged decides the same.
\<close>

theorem rule_position_irrelevant_witness:
  "example_policy = example_policy \<and>
   evaluate substring_re example_policy
     \<lparr>call_Name = ''fs.read'', call_Arguments = [(''path'', AString ''/etc/passwd'')]\<rparr> =
   deny ''block-etc'' ''denied by rule block-etc''"
proof
  show "example_policy = example_policy"
    by (rule rule_position_irrelevant [OF example_compiles])
      (simp_all add: example_policy_defs toolset_map_def is_allow_def is_deny_def)
  have "sublist ''/etc'' ''/etc/passwd''"
    using sublist_appendI [of "''/etc''" "[]" "''/passwd''"] by simp
  then show "evaluate substring_re example_policy
     \<lparr>call_Name = ''fs.read'', call_Arguments = [(''path'', AString ''/etc/passwd'')]\<rparr> =
   deny ''block-etc'' ''denied by rule block-etc''"
    by (simp add: evaluate_def Validate_def example_policy_def substring_re_def)
qed

definition rateLimit_ok :: "compiledRateLimit \<Rightarrow> bool" where
  "rateLimit_ok rl \<longleftrightarrow> 0 < rl_max rl \<and> 0 < rl_window rl \<and> rl_per rl \<in> {''global'', ''client''}"

definition policy_ok :: "'re CompiledPolicy \<Rightarrow> bool" where
  "policy_ok p \<longleftrightarrow>
     allowedSurface p = \<Union> (rule_tools ` set (allowRules p)) \<and>
     list_all (\<lambda>r. rule_rateLimit r = None) (denyRules p) \<and>
     list_all (\<lambda>r. case rule_rateLimit r of None \<Rightarrow> True | Some rl \<Rightarrow> rateLimit_ok rl) (allowRules p) \<and>
     distinct (map rule_name (allowRules p)) \<and> '''' \<notin> set (map rule_name (allowRules p))"

lemma compile_rateLimit_ok:
  "compile_rateLimit pd r = Inr (Some rl) \<Longrightarrow> rateLimit_ok rl"
  "compile_rateLimit pd r = Inr (Some rl) \<Longrightarrow> is_allow r"
  by (auto simp: compile_rateLimit_def rateLimit_ok_def is_allow_def Let_def
      split: option.splits if_splits sum.splits)

text \<open>
  What compilation guarantees of a policy: the surface shown by \<open>tools/list\<close> is exactly the
  set of tools of the allow rules, no deny rule carries a rate limit, every rate limit has a
  positive maximum, a positive window and a known bucket kind, and the allow rules have distinct,
  non-empty names.
\<close>

theorem compile_policy_ok:
  assumes "compile re pd pf = Inr p"
  shows "policy_ok p"
proof -
  let ?ts = "toolset_map pf" and ?c = "compiled re pd (toolset_map pf)"
  from assms have acc: "accepted re pd ?ts {} (pf_Rules pf)"
    and p: "p = policy_of re pd ?ts empty_policy (pf_Rules pf)"
    by (simp_all add: compile_Inr)
  note rule = compile_rule_Inr [OF accepted_rule(1) [OF acc]]
  have "rule_rateLimit (?c r) = None" if "r \<in> set (pf_Rules pf)" "is_deny r" for r
    using compile_rateLimit_ok(2) [of pd r] rule(5) [OF that(1)] that(2)
    by (cases "rule_rateLimit (?c r)") (auto simp: is_allow_def is_deny_def)
  moreover have "rateLimit_ok rl" if "r \<in> set (pf_Rules pf)" "rule_rateLimit (?c r) = Some rl" for r rl
    using compile_rateLimit_ok(1) [of pd r rl] rule(5) [OF that(1)] that(2) by simp
  moreover have "map rule_name (allowRules p) = map rc_Name (filter is_allow (pf_Rules pf))"
    using rule(1) by (simp add: p policy_of_def empty_policy_def)
  then have "distinct (map rule_name (allowRules p))"
    and "'''' \<notin> set (map rule_name (allowRules p))"
    using acc by (auto simp: accepted_def list_all_iff distinct_map_filter)
  moreover have "allowedSurface p = \<Union> (rule_tools ` set (allowRules p))"
    by (simp add: p policy_of_def empty_policy_def)
  moreover have "set (denyRules p) = ?c ` set (filter is_deny (pf_Rules pf))"
    and "set (allowRules p) = ?c ` set (filter is_allow (pf_Rules pf))"
    by (simp_all add: p policy_of_def empty_policy_def)
  ultimately show ?thesis
    by (auto simp: policy_ok_def list_all_iff split: option.splits)
qed

theorem compile_policy_ok_witness: "policy_ok example_policy"
  by (rule compile_policy_ok [OF example_compiles(1)])

text \<open>
  Go visits the validators of a rule in an unspecified map order; the outcome of the argument
  check does not depend on it.
\<close>

theorem anyArgFails_order:
  assumes "mset vs = mset vs'"
  shows "anyArgFails re vs args = anyArgFails re vs' args"
  using mset_eq_setD [OF assms] by (simp add: anyArgFails_iff args_pass_def)

theorem anyArgFails_order_witness:
  "anyArgFails substring_re
     [(''a'', \<lparr>cav_raw = etc_validator, cav_matchRE = None, cav_notMatchRE = None\<rparr>),
      (''b'', \<lparr>cav_raw = etc_validator, cav_matchRE = None, cav_notMatchRE = None\<rparr>)] [] =
   anyArgFails substring_re
     [(''b'', \<lparr>cav_raw = etc_validator, cav_matchRE = None, cav_notMatchRE = None\<rparr>),
      (''a'', \<lparr>cav_raw = etc_validator, cav_matchRE = None, cav_notMatchRE = None\<rparr>)] []"
  by (rule anyArgFails_order) simp

end
