(* ===== verification/PolicyEngine.thy ===== *)
theory PolicyEngine
  imports RateLimit PolicyLoader
begin

text \<open>
  \<open>internal/policy/engine.go\<close>: the two implementations of the interface \<open>Engine\<close>.  The YAML
  engine keeps the active policy (an \<open>atomic.Value\<close>, nil before the first \<open>Swap\<close>) and a limiter;
  the clock reading \<open>e.timeNow()\<close> and the client id stored in the context are arguments of
  \<open>Evaluate\<close>.  The interface is the locale \<open>policy_engine\<close>; the gateway and the replay command
  are its clients.
\<close>

section \<open>The interface Engine\<close>

type_synonym 'e evaluate_fn = "'e \<Rightarrow> string \<Rightarrow> instant \<Rightarrow> ToolsCallRequest \<Rightarrow> Decision \<times> 'e"

locale policy_engine =
  fixes evaluate_call :: "'e evaluate_fn"
    and is_tool_allowed :: "'e \<Rightarrow> string \<Rightarrow> bool"
  assumes action: "dec_Action (fst (evaluate_call e client now call)) \<in> {''allow'', ''deny''}"
    and allow_in_surface: "dec_Action (fst (evaluate_call e client now call)) = ''allow'' \<Longrightarrow>
      is_tool_allowed e (call_Name call)"
    and surface_stable: "is_tool_allowed (snd (evaluate_call e client now call)) = is_tool_allowed e"
    and limited_denies: "dec_RateLimited (fst (evaluate_call e client now call)) \<Longrightarrow>
      dec_Action (fst (evaluate_call e client now call)) = ''deny''"

type_synonym eval_req = "string \<times> instant \<times> ToolsCallRequest"

fun run_evaluate :: "'e evaluate_fn \<Rightarrow> 'e \<Rightarrow> eval_req list \<Rightarrow> Decision list \<times> 'e" where
  "run_evaluate ev e [] = ([], e)"
| "run_evaluate ev e ((client, now, call) # rs) =
     (let (d, e1) = ev e client now call; (ds, e2) = run_evaluate ev e1 rs in (d # ds, e2))"

lemma run_evaluate_Cons [simp]:
  "fst (run_evaluate ev e ((client, now, call) # rs)) =
     fst (ev e client now call) # fst (run_evaluate ev (snd (ev e client now call)) rs)"
  "snd (run_evaluate ev e ((client, now, call) # rs)) =
     snd (run_evaluate ev (snd (ev e client now call)) rs)"
  by (simp_all add: Let_def split: prod.splits)

declare run_evaluate.simps(2) [simp del]

lemma length_run_evaluate [simp]: "length (fst (run_evaluate ev e rs)) = length rs"
proof (induction rs arbitrary: e)
  case (Cons r rs)
  then show ?case by (cases r) simp
qed simp

context policy_engine
begin

text \<open>In any run every allowed call is for a tool of the surface the run started with.\<close>

lemma run_surface:
  "is_tool_allowed (snd (run_evaluate evaluate_call e rs)) = is_tool_allowed e"
proof (induction rs arbitrary: e)
  case (Cons r rs)
  obtain client now call where r: "r = (client, now, call)" by (cases r)
  show ?case by (simp add: r Cons.IH surface_stable)
qed simp

lemma run_allowed_in_surface:
  "(r, d) \<in> set (zip rs (fst (run_evaluate evaluate_call e rs))) \<Longrightarrow>
   dec_Action d = ''allow'' \<Longrightarrow> is_tool_allowed e (call_Name (snd (snd r)))"
proof (induction rs arbitrary: e)
  case (Cons r' rs)
  obtain client now call where r': "r' = (client, now, call)" by (cases r')
  show ?case
    using Cons.prems Cons.IH [of "snd (evaluate_call e client now call)"]
      allow_in_surface [of e client now call]
    by (auto simp: r' surface_stable)
qed simp

end

section \<open>The deny-all engine\<close>

definition denyAll_Evaluate :: "unit evaluate_fn" where
  "denyAll_Evaluate e client now call = (deny ''default'' ''deny-by-default policy'', e)"

definition denyAll_IsToolAllowed :: "unit \<Rightarrow> string \<Rightarrow> bool" where
  "denyAll_IsToolAllowed e name = False"

interpretation deny_all: policy_engine denyAll_Evaluate denyAll_IsToolAllowed
  by unfold_locales (simp_all add: denyAll_Evaluate_def denyAll_IsToolAllowed_def deny_def)

section \<open>The YAML policy engine\<close>

record ('re, 's) YAMLPolicyEngine =
  eng_policy :: "'re CompiledPolicy option"
  eng_limiter :: 's

definition NewYAMLPolicyEngineWithOptions ::
  "'re CompiledPolicy option \<Rightarrow> 's \<Rightarrow> ('re, 's) YAMLPolicyEngine" where
  "NewYAMLPolicyEngineWithOptions initial lim = \<lparr>eng_policy = initial, eng_limiter = lim\<rparr>"

definition NewYAMLPolicyEngine ::
  "'re CompiledPolicy option \<Rightarrow> ('re, fixedWindowLimiter) YAMLPolicyEngine" where
  "NewYAMLPolicyEngine initial = NewYAMLPolicyEngineWithOptions initial NewFixedWindowLimiter"

definition Swap ::
  "('re, 's) YAMLPolicyEngine \<Rightarrow> 're CompiledPolicy option \<Rightarrow> ('re, 's) YAMLPolicyEngine" where
  "Swap e p = (case p of None \<Rightarrow> e | Some q \<Rightarrow> e\<lparr>eng_policy := Some q\<rparr>)"

definition IsToolAllowed :: "('re, 's) YAMLPolicyEngine \<Rightarrow> string \<Rightarrow> bool" where
  "IsToolAllowed e name =
     (case eng_policy e of None \<Rightarrow> False | Some p \<Rightarrow> name \<in> allowedSurface p)"

text \<open>The bucket keys: \<open>fmt.Sprintf\<close> with \<open>global:%s:%s\<close> and \<open>client:%s:%s:%s\<close>.\<close>

definition rate_key :: "compiledRateLimit \<Rightarrow> string \<Rightarrow> string \<Rightarrow> string \<Rightarrow> string" where
  "rate_key rl clientID rname tool =
     (if rl_per rl = ''client'' then ''client:'' @ clientID @ '':'' @ rname @ '':'' @ tool
      else ''global:'' @ rname @ '':'' @ tool)"

text \<open>The loop over the allow rules: the first limit that refuses ends it with a denial.\<close>

fun check_limits ::
  "('s \<Rightarrow> string \<Rightarrow> int \<Rightarrow> duration \<Rightarrow> instant \<Rightarrow> bool \<times> 's) \<Rightarrow> string \<Rightarrow> instant
   \<Rightarrow> ToolsCallRequest \<Rightarrow> 're compiledRule list \<Rightarrow> 's \<Rightarrow> Decision option \<times> 's" where
  "check_limits al clientID now call [] s = (None, s)"
| "check_limits al clientID now call (rule # rs) s =
     (if call_Name call \<notin> rule_tools rule then check_limits al clientID now call rs s
      else case rule_rateLimit rule of
        None \<Rightarrow> check_limits al clientID now call rs s
      | Some rl \<Rightarrow>
        (case al s (rate_key rl clientID (rule_name rule) (call_Name call)) (rl_max rl) (rl_window rl) now of
          (ok, s1) \<Rightarrow>
          if \<not> ok then
            (Some \<lparr>dec_Action = ''deny'', dec_Rule = rule_name rule,
                   dec_Reason = ''rate limit exceeded'', dec_RateLimited = True,
                   dec_RetryAfterMs = Milliseconds (rl_window rl)\<rparr>, s1)
          else check_limits al clientID now call rs s1))"

definition Evaluate ::
  "'re regexp_pkg \<Rightarrow> ('s \<Rightarrow> string \<Rightarrow> int \<Rightarrow> duration \<Rightarrow> instant \<Rightarrow> bool \<times> 's)
   \<Rightarrow> ('re, 's) YAMLPolicyEngine evaluate_fn" where
  "Evaluate re al e clientID now call =
     (case eng_policy e of
        None \<Rightarrow> (deny '''' ''no policy loaded'', e)
      | Some p \<Rightarrow>
        (let d = evaluate re p call
         in if dec_Action d \<noteq> ''allow'' then (d, e)
            else case check_limits al clientID now call (allowRules p) (eng_limiter e) of
              (Some dd, s1) \<Rightarrow> (dd, e\<lparr>eng_limiter := s1\<rparr>)
            | (None, s1) \<Rightarrow> (d, e\<lparr>eng_limiter := s1\<rparr>)))"

section \<open>Facts about the YAML engine\<close>

lemma check_limits_Some:
  "fst (check_limits al clientID now call rs s) = Some d \<Longrightarrow>
   \<exists>rule \<in> set rs. \<exists>rl. call_Name call \<in> rule_tools rule \<and> rule_rateLimit rule = Some rl \<and>
     d = \<lparr>dec_Action = ''deny'', dec_Rule = rule_name rule, dec_Reason = ''rate limit exceeded'',
          dec_RateLimited = True, dec_RetryAfterMs = Milliseconds (rl_window rl)\<rparr>"
  by (induction rs arbitrary: s) (auto split: if_splits option.splits prod.splits)

lemma Evaluate_policy [simp]: "eng_policy (snd (Evaluate re al e c now call)) = eng_policy e"
  by (auto simp: Evaluate_def Let_def split: option.splits prod.splits)

lemma Evaluate_cases:
  assumes "eng_policy e = Some p"
  shows "dec_Action (evaluate re p call) \<noteq> ''allow'' \<Longrightarrow> Evaluate re al e c now call = (evaluate re p call, e)"
    and "dec_Action (evaluate re p call) = ''allow'' \<Longrightarrow>
      Evaluate re al e c now call =
        (let (r, s1) = check_limits al c now call (allowRules p) (eng_limiter e)
         in (case r of None \<Rightarrow> evaluate re p call | Some d \<Rightarrow> d, e\<lparr>eng_limiter := s1\<rparr>))"
  using assms by (simp_all add: Evaluate_def Let_def split: option.splits prod.splits)

lemma evaluate_action: "dec_Action (evaluate re p call) \<in> {''allow'', ''deny''}"
  using evaluate_cases [of re p call] by (auto simp: allow_def deny_def)

lemma evaluate_not_limited: "\<not> dec_RateLimited (evaluate re p call)"
  using evaluate_cases [of re p call] by (auto simp: allow_def deny_def)

lemma Evaluate_fst:
  "fst (Evaluate re al e c now call) =
     (case eng_policy e of
        None \<Rightarrow> deny '''' ''no policy loaded''
      | Some p \<Rightarrow>
        if dec_Action (evaluate re p call) = ''allow''
        then case fst (check_limits al c now call (allowRules p) (eng_limiter e)) of
               None \<Rightarrow> evaluate re p call | Some d \<Rightarrow> d
        else evaluate re p call)"
  by (simp add: Evaluate_def Let_def split: option.splits prod.splits)

definition limited_decision :: "'re compiledRule \<Rightarrow> compiledRateLimit \<Rightarrow> Decision" where
  "limited_decision rule rl =
     \<lparr>dec_Action = ''deny'', dec_Rule = rule_name rule, dec_Reason = ''rate limit exceeded'',
      dec_RateLimited = True, dec_RetryAfterMs = Milliseconds (rl_window rl)\<rparr>"

text \<open>The three sources of a decision of the engine.\<close>

lemma Evaluate_decision_cases:
  obtains (no_policy) "eng_policy e = None" "fst (Evaluate re al e c now call) = deny '''' ''no policy loaded''"
  | (policy) p where "eng_policy e = Some p" "fst (Evaluate re al e c now call) = evaluate re p call"
  | (limited) p rule rl where "eng_policy e = Some p" "dec_Action (evaluate re p call) = ''allow''"
      "rule \<in> set (allowRules p)" "call_Name call \<in> rule_tools rule" "rule_rateLimit rule = Some rl"
      "fst (Evaluate re al e c now call) = limited_decision rule rl"
proof (cases "eng_policy e")
  case None
  then show ?thesis by (intro no_policy) (simp_all add: Evaluate_fst)
next
  case (Some p)
  show ?thesis
  proof (cases "fst (check_limits al c now call (allowRules p) (eng_limiter e))")
    case None
    with Some show ?thesis by (intro policy) (simp_all add: Evaluate_fst)
  next
    case lim: (Some d)
    show ?thesis
    proof (cases "dec_Action (evaluate re p call) = ''allow''")
      case True
      from check_limits_Some [OF lim] Some lim True show ?thesis
        by (auto simp: Evaluate_fst limited_decision_def intro!: limited)
    next
      case False
      with Some show ?thesis by (intro policy) (simp_all add: Evaluate_fst)
    qed
  qed
qed

interpretation yaml_engine: policy_engine "Evaluate re al" IsToolAllowed
proof unfold_locales
  show "dec_Action (fst (Evaluate re al e client now call)) \<in> {''allow'', ''deny''}" for e client now call
    by (cases rule: Evaluate_decision_cases [of e re al client now call])
      (use evaluate_action in \<open>simp_all add: deny_def limited_decision_def\<close>)
  show "IsToolAllowed e (call_Name call)"
    if "dec_Action (fst (Evaluate re al e client now call)) = ''allow''" for e client now call
    using that
    by (cases rule: Evaluate_decision_cases [of e re al client now call])
      (simp_all add: deny_def limited_decision_def IsToolAllowed_def evaluate_allow_iff)
  show "IsToolAllowed (snd (Evaluate re al e client now call)) = IsToolAllowed e" for e client now call
    by (simp add: IsToolAllowed_def fun_eq_iff)
  show "dec_Action (fst (Evaluate re al e client now call)) = ''deny''"
    if "dec_RateLimited (fst (Evaluate re al e client now call))" for e client now call
    using that
    by (cases rule: Evaluate_decision_cases [of e re al client now call])
      (use evaluate_not_limited in \<open>auto simp: deny_def limited_decision_def\<close>)
qed

section \<open>Bucket keys\<close>

definition colon_free :: "string \<Rightarrow> bool" where
  "colon_free s \<longleftrightarrow> CHR '':'' \<notin> set s"

lemma append_sep_inject:
  "x \<notin> set xs \<Longrightarrow> x \<notin> set xs' \<Longrightarrow> xs @ x # ys = xs' @ x # ys' \<longleftrightarrow> xs = xs' \<and> ys = ys'"
proof (induction xs arbitrary: xs')
  case Nil
  then show ?case by (cases xs') auto
next
  case (Cons y xs)
  then show ?case by (cases xs') auto
qed

definition client_key :: "string \<Rightarrow> string \<Rightarrow> string \<Rightarrow> string" where
  "client_key c r t = ''client:'' @ c @ '':'' @ r @ '':'' @ t"

lemma rate_key_client: "rl_per rl = ''client'' \<Longrightarrow> rate_key rl c r t = client_key c r t"
  by (simp add: rate_key_def client_key_def)

lemma client_key_inject:
  assumes "colon_free c" "colon_free c'" "colon_free r" "colon_free r'"
  shows "client_key c r t = client_key c' r' t' \<longleftrightarrow> c = c' \<and> r = r' \<and> t = t'"
  using assms by (simp add: client_key_def colon_free_def append_sep_inject)

definition client_keys :: "string \<Rightarrow> string set" where
  "client_keys c = {client_key c r t | r t. colon_free r}"

section \<open>Isolation of clients\<close>

definition agree :: "('s \<Rightarrow> string \<Rightarrow> 'b option) \<Rightarrow> string set \<Rightarrow> 's \<Rightarrow> 's \<Rightarrow> bool" where
  "agree view K s s' \<longleftrightarrow> (\<forall>k \<in> K. view s k = view s' k)"

text \<open>Every rate limit counts per client, under a rule name without a colon.\<close>

definition per_client :: "'re compiledRule list \<Rightarrow> bool" where
  "per_client rs \<longleftrightarrow> list_all (\<lambda>r. case rule_rateLimit r of None \<Rightarrow> True
     | Some rl \<Rightarrow> rl_per rl = ''client'' \<and> colon_free (rule_name r)) rs"

definition decisions_for :: "string \<Rightarrow> eval_req list \<Rightarrow> Decision list \<Rightarrow> Decision list" where
  "decisions_for c rs ds = map snd (filter (\<lambda>(r, d). fst r = c) (zip rs ds))"

context limiter
begin

lemma agree_refl: "agree view K s s"
  by (simp add: agree_def)

lemma agree_allow_in:
  assumes "agree view K s s'" and "k \<in> K"
  shows "fst (allow s k mx w now) = fst (allow s' k mx w now)"
    and "agree view K (snd (allow s k mx w now)) (snd (allow s' k mx w now))"
proof -
  have "view s k = view s' k" using assms by (simp add: agree_def)
  note * = allow_view [OF this, of mx w now]
  show "fst (allow s k mx w now) = fst (allow s' k mx w now)" using * by simp
  show "agree view K (snd (allow s k mx w now)) (snd (allow s' k mx w now))"
    unfolding agree_def
  proof
    fix k' assume "k' \<in> K"
    then show "view (snd (allow s k mx w now)) k' = view (snd (allow s' k mx w now)) k'"
      using * assms(1) by (cases "k' = k") (simp_all add: view_other agree_def)
  qed
qed

lemma agree_allow_out:
  assumes "agree view K s s'" and "k \<notin> K"
  shows "agree view K (snd (allow s k mx w now)) s'"
  unfolding agree_def
proof
  fix k' assume "k' \<in> K"
  with assms have "k' \<noteq> k" by auto
  with \<open>k' \<in> K\<close> assms(1) show "view (snd (allow s k mx w now)) k' = view s' k'"
    by (simp add: view_other agree_def)
qed

lemma check_limits_same:
  "per_client rs \<Longrightarrow> agree view (client_keys c) s s' \<Longrightarrow>
   fst (check_limits allow c now call rs s) = fst (check_limits allow c now call rs s') \<and>
   agree view (client_keys c) (snd (check_limits allow c now call rs s))
     (snd (check_limits allow c now call rs s'))"
proof (induction rs arbitrary: s s')
  case (Cons rule rs)
  have IH: "agree view (client_keys c) t t' \<Longrightarrow>
      fst (check_limits allow c now call rs t) = fst (check_limits allow c now call rs t') \<and>
      agree view (client_keys c) (snd (check_limits allow c now call rs t))
        (snd (check_limits allow c now call rs t'))" for t t'
    using Cons.IH Cons.prems(1) by (simp add: per_client_def)
  show ?case
  proof (cases "rule_rateLimit rule")
    case (Some rl)
    with Cons.prems(1) have "rl_per rl = ''client''" "colon_free (rule_name rule)"
      by (simp_all add: per_client_def)
    then have k: "rate_key rl c (rule_name rule) (call_Name call) \<in> client_keys c"
      by (auto simp: rate_key_client client_keys_def)
    note a = agree_allow_in [OF Cons.prems(2) k, of "rl_max rl" "rl_window rl" now]
    show ?thesis
      using a(1) IH [OF a(2)] a(2) IH [OF Cons.prems(2)] Some
      by (simp add: case_prod_unfold)
  qed (use IH [OF Cons.prems(2)] in simp)
qed simp

lemma check_limits_other:
  "per_client rs \<Longrightarrow> colon_free c \<Longrightarrow> colon_free c' \<Longrightarrow> c' \<noteq> c \<Longrightarrow> agree view (client_keys c) s s' \<Longrightarrow>
   agree view (client_keys c) (snd (check_limits allow c' now call rs s)) s'"
proof (induction rs arbitrary: s)
  case (Cons rule rs)
  have IH: "agree view (client_keys c) t s' \<Longrightarrow>
      agree view (client_keys c) (snd (check_limits allow c' now call rs t)) s'" for t
    using Cons.IH Cons.prems by (simp add: per_client_def)
  show ?case
  proof (cases "rule_rateLimit rule")
    case (Some rl)
    with Cons.prems(1) have "rl_per rl = ''client''" "colon_free (rule_name rule)"
      by (simp_all add: per_client_def)
    with Cons.prems(2-4) have "rate_key rl c' (rule_name rule) (call_Name call) \<notin> client_keys c"
      by (auto simp: rate_key_client client_keys_def client_key_inject)
    note a = agree_allow_out [OF Cons.prems(5) this, of "rl_max rl" "rl_window rl" now]
    show ?thesis
      using a IH [OF a] IH [OF Cons.prems(5)] Some by (simp add: case_prod_unfold)
  qed (use IH [OF Cons.prems(5)] in simp)
qed simp

lemma Evaluate_same:
  assumes "eng_policy e = Some p" "eng_policy e' = Some p" "per_client (allowRules p)"
    and "agree view (client_keys c) (eng_limiter e) (eng_limiter e')"
  shows "fst (Evaluate re allow e c now call) = fst (Evaluate re allow e' c now call)"
    and "agree view (client_keys c) (eng_limiter (snd (Evaluate re allow e c now call)))
      (eng_limiter (snd (Evaluate re allow e' c now call)))"
  using check_limits_same [OF assms(3,4), of now call] assms
  by (auto simp: Evaluate_def Let_def split: option.splits prod.splits)

lemma Evaluate_other:
  assumes "eng_policy e = Some p" "per_client (allowRules p)"
    and "colon_free c" "colon_free c'" "c' \<noteq> c"
    and "agree view (client_keys c) (eng_limiter e) s'"
  shows "agree view (client_keys c) (eng_limiter (snd (Evaluate re allow e c' now call))) s'"
  using check_limits_other [OF assms(2-6), of now call] assms
  by (auto simp: Evaluate_def Let_def split: option.splits prod.splits)

lemma run_evaluate_isolation:
  assumes "per_client (allowRules p)" and "colon_free c"
  shows "eng_policy e = Some p \<Longrightarrow> eng_policy e' = Some p \<Longrightarrow>
    agree view (client_keys c) (eng_limiter e) (eng_limiter e') \<Longrightarrow>
    list_all (\<lambda>r. colon_free (fst r)) rs \<Longrightarrow>
    decisions_for c rs (fst (run_evaluate (Evaluate re allow) e rs)) =
      fst (run_evaluate (Evaluate re allow) e' (filter (\<lambda>r. fst r = c) rs))"
proof (induction rs arbitrary: e e')
  case (Cons r rs)
  obtain c' now call where r: "r = (c', now, call)" by (cases r)
  show ?case
  proof (cases "c' = c")
    case True
    note same = Evaluate_same [OF Cons.prems(1,2) assms(1) Cons.prems(3), of re now call]
    have "decisions_for c rs
        (fst (run_evaluate (Evaluate re allow) (snd (Evaluate re allow e c now call)) rs)) =
      fst (run_evaluate (Evaluate re allow) (snd (Evaluate re allow e' c now call))
        (filter (\<lambda>r. fst r = c) rs))"
      using Cons.prems same(2) by (intro Cons.IH) simp_all
    with True same(1) show ?thesis by (simp add: r decisions_for_def)
  next
    case False
    have "agree view (client_keys c) (eng_limiter (snd (Evaluate re allow e c' now call))) (eng_limiter e')"
      using Cons.prems False assms by (intro Evaluate_other) (simp_all add: r)
    then have "decisions_for c rs
        (fst (run_evaluate (Evaluate re allow) (snd (Evaluate re allow e c' now call)) rs)) =
      fst (run_evaluate (Evaluate re allow) e' (filter (\<lambda>r. fst r = c) rs))"
      using Cons.prems by (intro Cons.IH) simp_all
    with False show ?thesis by (simp add: r decisions_for_def)
  qed
qed (simp add: decisions_for_def)

end

section \<open>Properties\<close>

text \<open>
  What the engine decides.  It allows a call only if the loaded policy allows it (rate limiting
  can only take permission away); a denial that is marked as rate limited comes from an allow rule
  that lists the tool, after the policy itself allowed the call, and reports the whole window of
  that rule as the retry delay; a call the policy denies leaves the engine, and so every rate-limit
  bucket, unchanged.
\<close>

theorem Evaluate_spec:
  "(case eng_policy e of
      None \<Rightarrow> Evaluate re al e c now call = (deny '''' ''no policy loaded'', e)
    | Some p \<Rightarrow>
        if dec_Action (evaluate re p call) = ''deny''
        then Evaluate re al e c now call = (evaluate re p call, e)
        else evaluate re p call = allow \<and>
          (fst (Evaluate re al e c now call) = allow \<or>
           (\<exists>rule rl. rule \<in> set (allowRules p) \<and> call_Name call \<in> rule_tools rule \<and>
              rule_rateLimit rule = Some rl \<and>
              fst (Evaluate re al e c now call) = limited_decision rule rl)))"
proof (cases "eng_policy e")
  case None
  then show ?thesis by (simp add: Evaluate_def)
next
  case (Some p)
  show ?thesis
  proof (cases "dec_Action (evaluate re p call) = ''allow''")
    case True
    then have a: "evaluate re p call = allow"
      using evaluate_cases [of re p call] by (auto simp: deny_def)
    show ?thesis
      by (cases rule: Evaluate_decision_cases [of e re al c now call])
        (use Some a in \<open>auto simp: allow_def\<close>)
  next
    case False
    then show ?thesis
      using Some evaluate_action [of re p call] Evaluate_cases(1) [OF Some False] by simp
  qed
qed

text \<open>
  C26: Clients do not share rate-limit budget.  When every rate limit of the loaded policy counts per
  client and neither rule names nor client ids contain a colon, the decisions a client receives in
  any interleaving of calls of many clients are the decisions it would receive if no other client
  had called.
\<close>

theorem client_isolation:
  assumes "eng_policy e = Some p" and "per_client (allowRules p)"
    and "colon_free c" and "list_all (\<lambda>r. colon_free (fst r)) rs"
  shows "decisions_for c rs (fst (run_evaluate (Evaluate re Allow) e rs)) =
    fst (run_evaluate (Evaluate re Allow) e (filter (\<lambda>r. fst r = c) rs))"
  using assms(2,3,1,1) fixed_window.agree_refl assms(4)
  by (rule fixed_window.run_evaluate_isolation)

definition limited_rule :: "string \<Rightarrow> string compiledRule" where
  "limited_rule name = \<lparr>rule_name = name, rule_tools = {''t''}, rule_args = [], rule_reason = '''',
     rule_rateLimit = Some \<lparr>rl_max = 1, rl_window = 10, rl_per = ''client''\<rparr>\<rparr>"

definition limited_engine :: "string list \<Rightarrow> (string, fixedWindowLimiter) YAMLPolicyEngine" where
  "limited_engine names = NewYAMLPolicyEngine (Some
     \<lparr>allowedSurface = {''t''}, allowRules = map limited_rule names, denyRules = []\<rparr>)"

definition call_t :: ToolsCallRequest where
  "call_t = \<lparr>call_Name = ''t'', call_Arguments = []\<rparr>"

lemmas limited_engine_defs =
  limited_engine_def limited_rule_def call_t_def NewYAMLPolicyEngine_def
  NewYAMLPolicyEngineWithOptions_def NewFixedWindowLimiter_def

theorem client_isolation_witness:
  "decisions_for ''bob'' [(''alice'', 0, call_t), (''bob'', 1, call_t)]
     (fst (run_evaluate (Evaluate substring_re Allow) (limited_engine [''r''])
       [(''alice'', 0, call_t), (''bob'', 1, call_t)])) = [allow]"
proof -
  have "decisions_for ''bob'' [(''alice'', 0, call_t), (''bob'', 1, call_t)]
     (fst (run_evaluate (Evaluate substring_re Allow) (limited_engine [''r''])
       [(''alice'', 0, call_t), (''bob'', 1, call_t)])) =
    fst (run_evaluate (Evaluate substring_re Allow) (limited_engine [''r''])
      (filter (\<lambda>r. fst r = ''bob'') [(''alice'', 0, call_t), (''bob'', 1, call_t)]))"
    by (rule client_isolation
        [where p = "\<lparr>allowedSurface = {''t''}, allowRules = [limited_rule ''r''], denyRules = []\<rparr>"])
      (simp_all add: limited_engine_defs per_client_def colon_free_def)
  also have "\<dots> = [allow]"
    by (simp add: limited_engine_defs Evaluate_def evaluate_def allow_def rate_key_def Allow_def
        rotate_window_def Sub_def max_int64_def min_int64_def)
  finally show ?thesis .
qed

text \<open>
  The colon condition is needed.  The key of a per-client bucket joins the client id, the rule
  name and the tool with colons, so client \<open>a\<close> under rule \<open>b:r\<close> and client \<open>a:b\<close> under rule \<open>r\<close>
  share one bucket: with the two rules on one tool, one call of client \<open>a:b\<close> makes the first call of
  client \<open>a\<close> fail with a rate-limit denial, which does not happen without the other client.
\<close>

theorem client_key_collision:
  "fst (run_evaluate (Evaluate substring_re Allow) (limited_engine [''b:r'', ''r''])
      [(''a:b'', 0, call_t), (''a'', 1, call_t)]) =
    [allow, limited_decision (limited_rule ''b:r'') \<lparr>rl_max = 1, rl_window = 10, rl_per = ''client''\<rparr>] \<and>
   fst (run_evaluate (Evaluate substring_re Allow) (limited_engine [''b:r'', ''r''])
      [(''a'', 1, call_t)]) = [allow]"
  by (simp add: limited_engine_defs Evaluate_def evaluate_def allow_def rate_key_def Allow_def
      rotate_window_def Sub_def max_int64_def min_int64_def limited_decision_def Let_def)

text \<open>An engine with one allow rule that admits one call per window, for all clients together.\<close>

definition window_engine :: "duration \<Rightarrow> (string, fixedWindowLimiter) YAMLPolicyEngine" where
  "window_engine w = NewYAMLPolicyEngine (Some
     \<lparr>allowedSurface = {''t''},
      allowRules = [\<lparr>rule_name = ''r'', rule_tools = {''t''}, rule_args = [], rule_reason = '''',
         rule_rateLimit = Some \<lparr>rl_max = 1, rl_window = w, rl_per = ''global''\<rparr>\<rparr>],
      denyRules = []\<rparr>)"

definition limited_after :: "int \<Rightarrow> Decision" where
  "limited_after ms = \<lparr>dec_Action = ''deny'', dec_Rule = ''r'', dec_Reason = ''rate limit exceeded'',
     dec_RateLimited = True, dec_RetryAfterMs = ms\<rparr>"

text \<open>
  The retry delay of a rate-limited denial is the length of the rule's window, not the time left
  until the window resets: with one call per window of 10 s, the call at 9 s is told to wait
  10000 ms although a call one second later is admitted; and with a window of 500 microseconds the
  delay reported is 0.
\<close>

theorem retry_after_is_window:
  "fst (run_evaluate (Evaluate substring_re Allow) (window_engine (10 * Second))
      [(''c'', 0, call_t), (''c'', 9 * Second, call_t)]) = [allow, limited_after 10000] \<and>
   fst (run_evaluate (Evaluate substring_re Allow) (window_engine (10 * Second))
      [(''c'', 0, call_t), (''c'', 10 * Second, call_t)]) = [allow, allow] \<and>
   fst (run_evaluate (Evaluate substring_re Allow) (window_engine (500 * Microsecond))
      [(''c'', 0, call_t), (''c'', 1, call_t)]) = [allow, limited_after 0]"
  by (simp add: window_engine_def limited_engine_defs Evaluate_def evaluate_def allow_def
      rate_key_def Allow_def rotate_window_def Sub_def max_int64_def min_int64_def Let_def
      limited_after_def time_units Milliseconds_def go_div_def)

end
