(* ===== verification/PolicyConc.thy ===== *)
theory PolicyConc
  imports PolicyEngine
begin

text \<open>
  \<open>YAMLPolicyEngine.Evaluate\<close> under concurrency (\<open>internal/policy/engine.go\<close>,
  \<open>internal/policy/ratelimit.go\<close>).  The gateway evaluates calls from many goroutines while the
  signal handler swaps the policy.  An evaluation is here what its goroutine does between two atomic
  actions on shared memory: it loads the policy once, reads the clock, and then, for each allow rule
  with a limit, fetches the bucket from the \<open>sync.Map\<close> and, as a second action, runs the section
  that the bucket's mutex protects.  A run is a list of events: an evaluation begins, an evaluation
  makes its next move (with what the clock shows then), a policy is swapped in.  Nothing is assumed
  about the order in which evaluations move; in particular the instant an evaluation has read may be
  older than the window of the bucket it then reaches.
\<close>

section \<open>The two actions of Allow\<close>

definition LoadOrStore :: "fixedWindowLimiter \<Rightarrow> string \<Rightarrow> instant \<Rightarrow> fixedWindowLimiter" where
  "LoadOrStore l key now =
     (case l key of
        None \<Rightarrow> l(key \<mapsto> \<lparr>windowStart = now, bucket_count = 0\<rparr>)
      | Some b \<Rightarrow> l)"

definition take_token :: "bucket \<Rightarrow> int \<Rightarrow> duration \<Rightarrow> instant \<Rightarrow> bool \<times> bucket" where
  "take_token b mx window now =
     (let b1 = rotate_window window now b
      in if bucket_count b1 \<ge> mx then (False, b1)
         else (True, b1\<lparr>bucket_count := bucket_count b1 + 1\<rparr>))"

text \<open>
  The section between \<open>Lock\<close> and \<open>Unlock\<close>, on the bucket that \<open>LoadOrStore\<close> returned.  Buckets are
  never removed from the map, so that is the bucket the map holds; the first branch is not reachable
  (lemma \<open>waiting_has_bucket\<close>).
\<close>

definition locked_section ::
  "fixedWindowLimiter \<Rightarrow> string \<Rightarrow> int \<Rightarrow> duration \<Rightarrow> instant \<Rightarrow> bool \<times> fixedWindowLimiter" where
  "locked_section l key mx window now =
     (case l key of
        None \<Rightarrow> (False, l)
      | Some b \<Rightarrow> (case take_token b mx window now of (ok, b1) \<Rightarrow> (ok, l(key \<mapsto> b1))))"

lemma LoadOrStore_other [simp]: "k' \<noteq> k \<Longrightarrow> LoadOrStore l k now k' = l k'"
  by (simp add: LoadOrStore_def split: option.split)

lemma LoadOrStore_keeps: "l k' = Some b \<Longrightarrow> LoadOrStore l k now k' = Some b"
  by (auto simp: LoadOrStore_def split: option.split)

lemma LoadOrStore_present [simp]: "LoadOrStore l k now k \<noteq> None"
  by (simp add: LoadOrStore_def split: option.split)

lemma locked_section_other [simp]: "k' \<noteq> k \<Longrightarrow> snd (locked_section l k mx w now) k' = l k'"
  by (simp add: locked_section_def split: option.split prod.split)

lemma locked_section_keeps: "l k' \<noteq> None \<Longrightarrow> snd (locked_section l k mx w now) k' \<noteq> None"
  by (auto simp: locked_section_def split: option.split prod.split)

text \<open>Undisturbed, the two actions are one call of \<open>Allow\<close>.\<close>

lemma Allow_two_actions: "locked_section (LoadOrStore l k now) k mx w now = Allow l k mx w now"
  by (simp add: locked_section_def LoadOrStore_def take_token_def Allow_def Let_def split: option.split)

section \<open>An evaluation in progress\<close>

record 're frame =
  fr_client :: string
  fr_call :: ToolsCallRequest
  fr_policy :: "'re CompiledPolicy"
  fr_decision :: Decision

datatype 're evaluation =
    Loading string ToolsCallRequest
  | Timing "'re frame"
  | Looping "'re frame" instant "'re compiledRule list"
  | Waiting "'re frame" instant "'re compiledRule" compiledRateLimit "'re compiledRule list"
  | Returned Decision

definition frame_key :: "'re frame \<Rightarrow> 're compiledRule \<Rightarrow> compiledRateLimit \<Rightarrow> string" where
  "frame_key fr rule rl = rate_key rl (fr_client fr) (rule_name rule) (call_Name (fr_call fr))"

text \<open>
  The next move of an evaluation on the engine: what it becomes, the buckets after it, and the answer
  of the limiter when the move was a locked section.
\<close>

fun eval_move ::
  "'re regexp_pkg \<Rightarrow> instant \<Rightarrow> ('re, fixedWindowLimiter) YAMLPolicyEngine \<Rightarrow> 're evaluation
   \<Rightarrow> 're evaluation \<times> fixedWindowLimiter \<times> (allow_req \<times> bool) list" where
  "eval_move re clock e (Loading c call) =
     ((case eng_policy e of
         None \<Rightarrow> Returned (deny '''' ''no policy loaded'')
       | Some p \<Rightarrow>
         (let d = evaluate re p call
          in if dec_Action d \<noteq> ''allow'' then Returned d
             else Timing \<lparr>fr_client = c, fr_call = call, fr_policy = p, fr_decision = d\<rparr>)),
      eng_limiter e, [])"
| "eval_move re clock e (Timing fr) = (Looping fr clock (allowRules (fr_policy fr)), eng_limiter e, [])"
| "eval_move re clock e (Looping fr now []) = (Returned (fr_decision fr), eng_limiter e, [])"
| "eval_move re clock e (Looping fr now (rule # rs)) =
     (if call_Name (fr_call fr) \<notin> rule_tools rule then (Looping fr now rs, eng_limiter e, [])
      else case rule_rateLimit rule of
        None \<Rightarrow> (Looping fr now rs, eng_limiter e, [])
      | Some rl \<Rightarrow> (Waiting fr now rule rl rs, LoadOrStore (eng_limiter e) (frame_key fr rule rl) now, []))"
| "eval_move re clock e (Waiting fr now rule rl rs) =
     (case locked_section (eng_limiter e) (frame_key fr rule rl) (rl_max rl) (rl_window rl) now of
        (ok, l1) \<Rightarrow>
          (if \<not> ok then Returned (limited_decision rule rl) else Looping fr now rs, l1,
           [((frame_key fr rule rl, rl_max rl, rl_window rl, now), ok)]))"
| "eval_move re clock e (Returned d) = (Returned d, eng_limiter e, [])"

section \<open>Runs of many evaluations\<close>

text \<open>
  The answers of the limiter are recorded in the order of the locked sections, each with the
  evaluation that received it; the record is not read by the moves.
\<close>

type_synonym token = "nat \<times> allow_req \<times> bool"

record 're engine_run =
  er_engine :: "('re, fixedWindowLimiter) YAMLPolicyEngine"
  er_threads :: "nat \<rightharpoonup> 're evaluation"
  er_tokens :: "token list"

datatype 're engine_event =
    Begins nat string ToolsCallRequest
  | Moves nat instant
  | Swaps "'re CompiledPolicy option"

definition initial_run :: "('re, fixedWindowLimiter) YAMLPolicyEngine \<Rightarrow> 're engine_run" where
  "initial_run e = \<lparr>er_engine = e, er_threads = Map.empty, er_tokens = []\<rparr>"

definition move_thread :: "'re regexp_pkg \<Rightarrow> nat \<Rightarrow> instant \<Rightarrow> 're evaluation \<Rightarrow> 're engine_run \<Rightarrow> 're engine_run" where
  "move_thread re i clock ev s =
     (case eval_move re clock (er_engine s) ev of (ev1, l1, answers) \<Rightarrow>
        \<lparr>er_engine = (er_engine s)\<lparr>eng_limiter := l1\<rparr>, er_threads = (er_threads s)(i \<mapsto> ev1),
         er_tokens = er_tokens s @ map (Pair i) answers\<rparr>)"

fun event_step :: "'re regexp_pkg \<Rightarrow> 're engine_event \<Rightarrow> 're engine_run \<Rightarrow> 're engine_run" where
  "event_step re (Begins i c call) s =
     (case er_threads s i of
        None \<Rightarrow> s\<lparr>er_threads := (er_threads s)(i \<mapsto> Loading c call)\<rparr>
      | Some ev \<Rightarrow> s)"
| "event_step re (Moves i clock) s =
     (case er_threads s i of None \<Rightarrow> s | Some ev \<Rightarrow> move_thread re i clock ev s)"
| "event_step re (Swaps p) s = s\<lparr>er_engine := Swap (er_engine s) p\<rparr>"

definition run_events :: "'re regexp_pkg \<Rightarrow> 're engine_event list \<Rightarrow> 're engine_run \<Rightarrow> 're engine_run" where
  "run_events re es s = fold (event_step re) es s"

lemma run_events_simps [simp]:
  "run_events re [] s = s"
  "run_events re (x # es) s = run_events re es (event_step re x s)"
  "run_events re (es @ fs) s = run_events re fs (run_events re es s)"
  by (simp_all add: run_events_def)

section \<open>An evaluation that nobody disturbs\<close>

text \<open>Its moves, with nothing between them, are the function \<open>Evaluate\<close> on the whole engine.\<close>

fun undisturbed ::
  "'re regexp_pkg \<Rightarrow> instant \<Rightarrow> nat \<Rightarrow> ('re, fixedWindowLimiter) YAMLPolicyEngine \<Rightarrow> 're evaluation
   \<Rightarrow> 're evaluation \<times> ('re, fixedWindowLimiter) YAMLPolicyEngine" where
  "undisturbed re clock 0 e ev = (ev, e)"
| "undisturbed re clock (Suc n) e ev =
     (case eval_move re clock e ev of (ev1, l1, answers) \<Rightarrow> undisturbed re clock n (e\<lparr>eng_limiter := l1\<rparr>) ev1)"

lemma undisturbed_Returned [simp]: "undisturbed re clock n e (Returned d) = (Returned d, e)"
  by (induction n) simp_all

lemma undisturbed_loop:
  "2 * length rs < n \<Longrightarrow>
   undisturbed re clock n e (Looping fr now rs) =
     (case check_limits Allow (fr_client fr) now (fr_call fr) rs (eng_limiter e) of (r, s1) \<Rightarrow>
        (Returned (case r of None \<Rightarrow> fr_decision fr | Some d \<Rightarrow> d), e\<lparr>eng_limiter := s1\<rparr>))"
proof (induction rs arbitrary: n e)
  case Nil
  then show ?case by (cases n) simp_all
next
  case (Cons rule rs)
  define n1 where "n1 = n - 2"
  from Cons.prems have n: "n = Suc (Suc n1)" and more: "2 * length rs < n1" "2 * length rs < Suc n1"
    by (simp_all add: n1_def)
  note skip = Cons.IH [OF more(2), of e, unfolded undisturbed.simps] and go = Cons.IH [OF more(1)]
  show ?case
  proof (cases "call_Name (fr_call fr) \<in> rule_tools rule \<and> rule_rateLimit rule \<noteq> None")
    case False
    with skip show ?thesis by (auto simp: n)
  next
    case True
    then obtain rl where rl: "rule_rateLimit rule = Some rl" by blast
    let ?a = "Allow (eng_limiter e) (frame_key fr rule rl) (rl_max rl) (rl_window rl) now"
    show ?thesis
      using True rl go [of "e\<lparr>eng_limiter := snd ?a\<rparr>"]
      by (cases ?a) (simp add: n Allow_two_actions limited_decision_def flip: frame_key_def)
  qed
qed

lemma undisturbed_Evaluate:
  assumes "2 * length (case eng_policy e of None \<Rightarrow> [] | Some p \<Rightarrow> allowRules p) + 2 < n"
  shows "undisturbed re clock n e (Loading c call) =
    (Returned (fst (Evaluate re Allow e c clock call)), snd (Evaluate re Allow e c clock call))"
proof -
  from assms obtain n1 where n1: "n = Suc (Suc n1)" 
    "2 * length (case eng_policy e of None \<Rightarrow> [] | Some p \<Rightarrow> allowRules p) < n1"
    by (cases n; cases "n - 1") auto
  show ?thesis
    using n1 by (auto simp: Evaluate_def Let_def undisturbed_loop split: option.splits prod.splits)
qed

section \<open>What an evaluation has seen and consumed\<close>

text \<open>
  \<open>begun_and_loaded\<close>: the run began evaluation \<open>i\<close> with this client and call, and later, when \<open>q\<close> was
  the active policy, the evaluation made its load.
\<close>

definition begun_and_loaded ::
  "'re regexp_pkg \<Rightarrow> 're engine_run \<Rightarrow> 're engine_event list \<Rightarrow> nat \<Rightarrow> string \<Rightarrow> ToolsCallRequest
   \<Rightarrow> 're CompiledPolicy option \<Rightarrow> bool" where
  "begun_and_loaded re s0 es i c call q \<longleftrightarrow>
     (\<exists>es0 es1 t es2. es = es0 @ Begins i c call # es1 @ Moves i t # es2 \<and>
        eng_policy (er_engine (run_events re (es0 @ Begins i c call # es1) s0)) = q)"

lemma begun_and_loaded_later:
  assumes "begun_and_loaded re s0 es i c call q"
  shows "begun_and_loaded re s0 (es @ fs) i c call q"
proof -
  from assms obtain es0 es1 t es2 where "es = es0 @ Begins i c call # es1 @ Moves i t # es2"
    "eng_policy (er_engine (run_events re (es0 @ Begins i c call # es1) s0)) = q"
    by (auto simp: begun_and_loaded_def)
  then show ?thesis
    unfolding begun_and_loaded_def by (intro exI [of _ es0] exI [of _ es1] exI [of _ t] exI [of _ "es2 @ fs"]) simp
qed

lemma begun_and_loaded_now:
  assumes "Begins i c call \<in> set es" and "q = eng_policy (er_engine (run_events re es s0))"
  shows "begun_and_loaded re s0 (es @ [Moves i t]) i c call q"
proof -
  from assms(1) obtain es0 es1 where "es = es0 @ Begins i c call # es1" by (auto simp: in_set_conv_decomp)
  then show ?thesis
    unfolding begun_and_loaded_def
    by (intro exI [of _ es0] exI [of _ es1] exI [of _ t] exI [of _ "[]"]) (use assms(2) in simp)
qed

text \<open>
  \<open>limits_of\<close> is the list of limits that apply to a call, with their rules; an evaluation that was
  admitted has a token for each.
\<close>

definition limits_of :: "ToolsCallRequest \<Rightarrow> 're compiledRule list \<Rightarrow> ('re compiledRule \<times> compiledRateLimit) list" where
  "limits_of call rs = concat (map (\<lambda>rule. case rule_rateLimit rule of None \<Rightarrow> []
     | Some rl \<Rightarrow> if call_Name call \<in> rule_tools rule then [(rule, rl)] else []) rs)"

definition token_of :: "nat \<Rightarrow> string \<Rightarrow> ToolsCallRequest \<Rightarrow> instant \<Rightarrow> 're compiledRule \<times> compiledRateLimit \<Rightarrow> bool \<Rightarrow> token" where
  "token_of i c call now x ok =
     (i, (rate_key (snd x) c (rule_name (fst x)) (call_Name call), rl_max (snd x), rl_window (snd x), now), ok)"

definition has_tokens :: "token list \<Rightarrow> nat \<Rightarrow> string \<Rightarrow> ToolsCallRequest \<Rightarrow> instant \<Rightarrow> 're compiledRule list \<Rightarrow> bool" where
  "has_tokens toks i c call now rs \<longleftrightarrow>
     list_all (\<lambda>x. token_of i c call now x True \<in> set toks) (limits_of call rs)"

lemma limits_of_simps [simp]:
  "limits_of call [] = []"
  "limits_of call (rs @ qs) = limits_of call rs @ limits_of call qs"
  "limits_of call (rule # rs) = (case rule_rateLimit rule of None \<Rightarrow> []
     | Some rl \<Rightarrow> if call_Name call \<in> rule_tools rule then [(rule, rl)] else []) @ limits_of call rs"
  by (simp_all add: limits_of_def)

lemma has_tokens_more: "has_tokens toks i c call now rs \<Longrightarrow> has_tokens (toks @ toks1) i c call now rs"
  by (auto simp: has_tokens_def list_all_iff)

text \<open>
  \<open>verdict\<close>: the decision \<open>d\<close> follows from the one policy \<open>q\<close> and the answers recorded for evaluation \<open>i\<close>.
\<close>

definition verdict ::
  "'re regexp_pkg \<Rightarrow> token list \<Rightarrow> nat \<Rightarrow> string \<Rightarrow> ToolsCallRequest \<Rightarrow> 're CompiledPolicy option \<Rightarrow> Decision \<Rightarrow> bool" where
  "verdict re toks i c call q d \<longleftrightarrow>
     (case q of
        None \<Rightarrow> d = deny '''' ''no policy loaded''
      | Some p \<Rightarrow>
          if dec_Action (evaluate re p call) \<noteq> ''allow'' then d = evaluate re p call
          else (d = evaluate re p call \<and> (\<exists>now. has_tokens toks i c call now (allowRules p))) \<or>
            (\<exists>now x. x \<in> set (limits_of call (allowRules p)) \<and> token_of i c call now x False \<in> set toks \<and>
               d = limited_decision (fst x) (snd x)))"

lemma verdict_more: "verdict re toks i c call q d \<Longrightarrow> verdict re (toks @ toks1) i c call q d"
  by (auto simp: verdict_def split: option.splits if_splits intro: has_tokens_more)

definition frame_sound ::
  "'re regexp_pkg \<Rightarrow> 're engine_run \<Rightarrow> 're engine_event list \<Rightarrow> nat \<Rightarrow> 're frame \<Rightarrow> bool" where
  "frame_sound re s0 es i fr \<longleftrightarrow>
     begun_and_loaded re s0 es i (fr_client fr) (fr_call fr) (Some (fr_policy fr)) \<and>
     fr_decision fr = evaluate re (fr_policy fr) (fr_call fr) \<and> dec_Action (fr_decision fr) = ''allow''"

fun sound_at ::
  "'re regexp_pkg \<Rightarrow> 're engine_run \<Rightarrow> 're engine_event list \<Rightarrow> 're engine_run \<Rightarrow> nat \<Rightarrow> 're evaluation \<Rightarrow> bool" where
  "sound_at re s0 es s i (Loading c call) = (Begins i c call \<in> set es)"
| "sound_at re s0 es s i (Timing fr) = frame_sound re s0 es i fr"
| "sound_at re s0 es s i (Looping fr now rs) =
     (frame_sound re s0 es i fr \<and> (\<exists>qs. allowRules (fr_policy fr) = qs @ rs \<and>
        has_tokens (er_tokens s) i (fr_client fr) (fr_call fr) now qs))"
| "sound_at re s0 es s i (Waiting fr now rule rl rs) =
     (frame_sound re s0 es i fr \<and> call_Name (fr_call fr) \<in> rule_tools rule \<and> rule_rateLimit rule = Some rl \<and>
      eng_limiter (er_engine s) (frame_key fr rule rl) \<noteq> None \<and>
      (\<exists>qs. allowRules (fr_policy fr) = qs @ rule # rs \<and>
        has_tokens (er_tokens s) i (fr_client fr) (fr_call fr) now qs))"
| "sound_at re s0 es s i (Returned d) =
     (\<exists>c call q. begun_and_loaded re s0 es i c call q \<and> verdict re (er_tokens s) i c call q d)"

lemma frame_sound_later: "frame_sound re s0 es i fr \<Longrightarrow> frame_sound re s0 (es @ fs) i fr"
  by (auto simp: frame_sound_def intro: begun_and_loaded_later)

text \<open>What holds of an evaluation still holds after anything the others do.\<close>

lemma sound_at_later:
  assumes "sound_at re s0 es s i ev"
    and "er_tokens s1 = er_tokens s @ toks"
    and "\<And>k. eng_limiter (er_engine s) k \<noteq> None \<Longrightarrow> eng_limiter (er_engine s1) k \<noteq> None"
  shows "sound_at re s0 (es @ fs) s1 i ev"
proof (cases ev)
  case Returned
  with assms show ?thesis by simp (blast intro: begun_and_loaded_later verdict_more)
qed (use assms in \<open>auto intro!: frame_sound_later has_tokens_more\<close>)

lemma eval_move_keeps_buckets:
  "eval_move re clock e ev = (ev1, l1, answers) \<Longrightarrow> eng_limiter e k \<noteq> None \<Longrightarrow> l1 k \<noteq> None"
  by (induction re clock e ev rule: eval_move.induct)
    (auto simp: locked_section_def LoadOrStore_def split: if_splits option.splits prod.splits)

lemma verdict_granted:
  assumes "frame_sound re s0 es i fr"
    and "has_tokens toks i (fr_client fr) (fr_call fr) now (allowRules (fr_policy fr))"
  shows "verdict re toks i (fr_client fr) (fr_call fr) (Some (fr_policy fr)) (fr_decision fr)"
  using assms by (auto simp: frame_sound_def verdict_def)

lemma verdict_refused:
  assumes "frame_sound re s0 es i fr"
    and "x \<in> set (limits_of (fr_call fr) (allowRules (fr_policy fr)))"
    and "token_of i (fr_client fr) (fr_call fr) now x False \<in> set toks"
  shows "verdict re toks i (fr_client fr) (fr_call fr) (Some (fr_policy fr)) (limited_decision (fst x) (snd x))"
proof -
  have "dec_Action (evaluate re (fr_policy fr) (fr_call fr)) = ''allow''"
    using assms(1) by (auto simp: frame_sound_def)
  with assms(2,3) show ?thesis
    unfolding verdict_def by (simp del: split_paired_Ex) blast
qed

lemma returned_sound:
  assumes "frame_sound re s0 es i fr"
    and "verdict re (er_tokens s) i (fr_client fr) (fr_call fr) (Some (fr_policy fr)) d"
  shows "sound_at re s0 es s i (Returned d)"
  using assms unfolding frame_sound_def sound_at.simps by blast

lemma sound_at_move:
  assumes "sound_at re s0 es s i ev" and s: "s = run_events re es s0"
    and m: "eval_move re clock (er_engine s) ev = (ev1, l1, answers)"
    and s1: "er_engine s1 = (er_engine s)\<lparr>eng_limiter := l1\<rparr>" "er_tokens s1 = er_tokens s @ map (Pair i) answers"
  shows "sound_at re s0 (es @ [Moves i clock]) s1 i ev1"
proof (cases ev)
  case (Loading c call)
  with assms(1) have "begun_and_loaded re s0 (es @ [Moves i clock]) i c call (eng_policy (er_engine s))"
    by (intro begun_and_loaded_now) (simp_all add: s)
  with m Loading show ?thesis
    by (fastforce simp: Let_def frame_sound_def verdict_def split: option.splits if_splits)
next
  case (Timing fr)
  with assms(1) m show ?thesis
    by (auto simp: has_tokens_def intro: frame_sound_later)
next
  case (Looping fr now rs)
  with assms(1) obtain qs where q: "allowRules (fr_policy fr) = qs @ rs"
      "has_tokens (er_tokens s) i (fr_client fr) (fr_call fr) now qs"
    and f: "frame_sound re s0 (es @ [Moves i clock]) i fr" by (auto intro: frame_sound_later)
  show ?thesis
  proof (cases rs)
    case Nil
    have "verdict re (er_tokens s) i (fr_client fr) (fr_call fr) (Some (fr_policy fr)) (fr_decision fr)"
      using verdict_granted [OF f] q Nil by simp
    moreover have "ev1 = Returned (fr_decision fr)" "er_tokens s1 = er_tokens s"
      using m Looping Nil s1 by auto
    ultimately show ?thesis using returned_sound [OF f, of s1] by (simp del: sound_at.simps)
  next
    case (Cons rule rs1)
    show ?thesis
    proof (cases "call_Name (fr_call fr) \<in> rule_tools rule \<and> rule_rateLimit rule \<noteq> None")
      case True
      with f q m Looping Cons s1 show ?thesis by auto
    next
      case False
      then have "has_tokens (er_tokens s) i (fr_client fr) (fr_call fr) now (qs @ [rule])"
        using q by (auto simp: has_tokens_def split: option.split)
      moreover have "allowRules (fr_policy fr) = (qs @ [rule]) @ rs1" using q Cons by simp
      ultimately show ?thesis using False f m Looping Cons s1 by (auto split: if_splits)
    qed
  qed
next
  case (Waiting fr now rule rl rs)
  with assms(1) obtain qs where q: "allowRules (fr_policy fr) = qs @ rule # rs"
      "has_tokens (er_tokens s) i (fr_client fr) (fr_call fr) now qs"
    and r: "call_Name (fr_call fr) \<in> rule_tools rule" "rule_rateLimit rule = Some rl"
    and f: "frame_sound re s0 (es @ [Moves i clock]) i fr" by (auto intro: frame_sound_later)
  obtain ok where a: "answers = [((frame_key fr rule rl, rl_max rl, rl_window rl, now), ok)]"
    "ev1 = (if \<not> ok then Returned (limited_decision rule rl) else Looping fr now rs)"
    using m Waiting by (auto split: prod.splits)
  then have t: "token_of i (fr_client fr) (fr_call fr) now (rule, rl) ok \<in> set (er_tokens s1)"
    by (simp add: s1 token_of_def frame_key_def)
  show ?thesis
  proof (cases ok)
    case True
    have "has_tokens (er_tokens s1) i (fr_client fr) (fr_call fr) now (qs @ [rule])"
      using has_tokens_more [OF q(2), of "map (Pair i) answers", folded s1(2)] r t True by (simp add: has_tokens_def)
    moreover have "allowRules (fr_policy fr) = (qs @ [rule]) @ rs" using q by simp
    ultimately show ?thesis using f a True by auto
  next
    case False
    have "verdict re (er_tokens s1) i (fr_client fr) (fr_call fr) (Some (fr_policy fr)) (limited_decision rule rl)"
      using verdict_refused [OF f, of "(rule, rl)" now "er_tokens s1"] q r t False by simp
    with returned_sound [OF f] a False show ?thesis by simp
  qed
next
  case (Returned d)
  then have "ev1 = Returned d" "er_tokens s1 = er_tokens s" using m s1 by auto
  with assms(1) Returned show ?thesis
    by (simp del: split_paired_Ex) (blast intro: begun_and_loaded_later)
qed

lemma all_sound:
  "er_threads (run_events re es (initial_run e)) i = Some ev \<Longrightarrow>
   sound_at re (initial_run e) es (run_events re es (initial_run e)) i ev"
proof (induction es arbitrary: i ev rule: rev_induct)
  case Nil
  then show ?case by (simp add: initial_run_def)
next
  case (snoc x es)
  let ?s0 = "initial_run e" and ?s = "run_events re es (initial_run e)"
  show ?case
  proof (cases x)
    case (Begins j c call)
    show ?thesis
    proof (cases "er_threads ?s j")
      case None
      show ?thesis
      proof (cases "i = j")
        case True
        with snoc.prems Begins None show ?thesis by auto
      next
        case False
        with snoc.prems Begins None have "er_threads ?s i = Some ev" by simp
        from sound_at_later [OF snoc.IH [OF this]] show ?thesis using Begins None by simp
      qed
    next
      case (Some ev0)
      with snoc.prems Begins have "er_threads ?s i = Some ev" by simp
      from sound_at_later [OF snoc.IH [OF this]] show ?thesis using Begins Some by simp
    qed
  next
    case (Moves j clock)
    show ?thesis
    proof (cases "er_threads ?s j")
      case None
      with snoc.prems Moves have "er_threads ?s i = Some ev" by simp
      from sound_at_later [OF snoc.IH [OF this]] show ?thesis using Moves None by simp
    next
      case (Some ev0)
      obtain ev1 l1 answers where m: "eval_move re clock (er_engine ?s) ev0 = (ev1, l1, answers)"
        by (cases "eval_move re clock (er_engine ?s) ev0")
      show ?thesis
      proof (cases "i = j")
        case True
        with snoc.prems Moves Some m have "ev = ev1" by (simp add: move_thread_def)
        with sound_at_move [OF snoc.IH [OF Some] refl m] show ?thesis
          using True Moves Some m by (simp add: move_thread_def)
      next
        case False
        with snoc.prems Moves Some m have "er_threads ?s i = Some ev" by (simp add: move_thread_def)
        from sound_at_later [OF snoc.IH [OF this]] show ?thesis
          using Moves Some m eval_move_keeps_buckets [OF m] by (simp add: move_thread_def)
      qed
    qed
  next
    case (Swaps p)
    with snoc.prems have "er_threads ?s i = Some ev" by simp
    from sound_at_later [OF snoc.IH [OF this]] show ?thesis
      using Swaps by (simp add: Swap_def split: option.splits)
  qed
qed

lemma waiting_has_bucket:
  "er_threads (run_events re es (initial_run e)) i = Some (Waiting fr now rule rl rs) \<Longrightarrow>
   eng_limiter (er_engine (run_events re es (initial_run e))) (frame_key fr rule rl) \<noteq> None"
  using all_sound [of re es e i] by simp

section \<open>How many tokens a key hands out\<close>

text \<open>
  What the bucket of a key can still hand out to calls whose instants lie in \<open>[a, a + w)\<close>: the rest
  of its window, and one more window if its window began before \<open>a\<close>.  Whatever is interleaved, a move
  never takes more from this potential than the tokens it gets.
\<close>

definition potential :: "fixedWindowLimiter \<Rightarrow> string \<Rightarrow> int \<Rightarrow> instant \<Rightarrow> nat" where
  "potential l k mx a =
     (case l k of
        None \<Rightarrow> 2 * nat mx
      | Some b \<Rightarrow> nat (mx - bucket_count b) + (if windowStart b < a then nat mx else 0))"

definition granted :: "string \<Rightarrow> token list \<Rightarrow> nat" where
  "granted k toks = length (filter (\<lambda>(i, r, ok). fst r = k \<and> ok) toks)"

text \<open>Every answer for \<open>k\<close> is for the limit \<open>mx\<close> per \<open>w\<close> and an instant in \<open>[a, a + w)\<close>.\<close>

definition in_span :: "string \<Rightarrow> int \<Rightarrow> duration \<Rightarrow> instant \<Rightarrow> token list \<Rightarrow> bool" where
  "in_span k mx w a toks \<longleftrightarrow>
     list_all (\<lambda>(i, (k', mx', w', now), ok). k' = k \<longrightarrow> mx' = mx \<and> w' = w \<and> a \<le> now \<and> now < a + w) toks"

lemma granted_append [simp]: "granted k (xs @ ys) = granted k xs + granted k ys"
  by (simp add: granted_def)

lemma granted_Nil [simp]: "granted k [] = 0"
  by (simp add: granted_def)

lemma in_span_append [simp]: "in_span k mx w a (xs @ ys) \<longleftrightarrow> in_span k mx w a xs \<and> in_span k mx w a ys"
  by (simp add: in_span_def)

lemma potential_LoadOrStore: "potential (LoadOrStore l k' now) k mx a \<le> potential l k mx a"
  by (cases "k' = k") (auto simp: potential_def LoadOrStore_def split: option.split)

lemma potential_other: "k' \<noteq> k \<Longrightarrow> potential (snd (locked_section l k' mx' w now)) k mx a = potential l k mx a"
  by (simp add: potential_def)

lemma potential_locked:
  assumes "locked_section l k mx w now = (ok, l1)" and "a \<le> now" "now < a + w" and "0 < w" "in_int64 w"
  shows "(if ok then 1 else 0) + potential l1 k mx a \<le> potential l k mx a"
proof (cases "l k")
  case None
  with assms(1) show ?thesis by (auto simp: locked_section_def)
next
  case (Some b)
  have rot: "w \<le> Sub now (windowStart b) \<longleftrightarrow> w \<le> now - windowStart b"
    using assms(4,5) by (intro Sub_ge_iff)
  show ?thesis
  proof (cases "w \<le> now - windowStart b")
    case True
    with assms(1-3) Some rot show ?thesis
      by (auto simp: locked_section_def take_token_def rotate_window_def potential_def Let_def split: if_splits)
  next
    case False
    with assms(1) Some rot show ?thesis
      by (auto simp: locked_section_def take_token_def rotate_window_def potential_def Let_def split: if_splits)
  qed
qed

lemma eval_move_potential:
  assumes "eval_move re clock e ev = (ev1, l1, answers)"
    and "in_span k mx w a (map (Pair i) answers)" and "0 < w" "in_int64 w"
  shows "granted k (map (Pair i) answers) + potential l1 k mx a \<le> potential (eng_limiter e) k mx a"
proof (cases ev)
  case (Waiting fr now rule rl rs)
  define k' where "k' = frame_key fr rule rl"
  obtain ok where ls: "locked_section (eng_limiter e) k' (rl_max rl) (rl_window rl) now = (ok, l1)"
    and an: "answers = [((k', rl_max rl, rl_window rl, now), ok)]"
    using assms(1) Waiting by (auto simp: k'_def split: prod.splits)
  show ?thesis
  proof (cases "k' = k")
    case True
    with assms(2) an have "rl_max rl = mx" "rl_window rl = w" "a \<le> now" "now < a + w"
      by (simp_all add: in_span_def)
    with potential_locked [of "eng_limiter e" k mx w now ok l1 a] ls assms(3,4) True an show ?thesis
      by (auto simp: granted_def)
  next
    case False
    with potential_other [of k' k "eng_limiter e" "rl_max rl" "rl_window rl" now mx a] ls an show ?thesis
      by (simp add: granted_def)
  qed
next
  case (Looping fr now rs)
  with assms(1) show ?thesis
    by (cases rs) (auto simp: potential_LoadOrStore split: if_splits option.splits)
qed (use assms(1) in auto)

lemma event_step_potential:
  assumes "er_tokens (event_step re x s) = er_tokens s @ toks" and "in_span k mx w a toks"
    and "0 < w" "in_int64 w"
  shows "granted k toks + potential (eng_limiter (er_engine (event_step re x s))) k mx a \<le>
    potential (eng_limiter (er_engine s)) k mx a"
proof (cases x)
  case (Moves i clock)
  show ?thesis
  proof (cases "er_threads s i")
    case (Some ev)
    obtain ev1 l1 answers where m: "eval_move re clock (er_engine s) ev = (ev1, l1, answers)"
      by (cases "eval_move re clock (er_engine s) ev")
    with assms(1) Moves Some have "toks = map (Pair i) answers" by (simp add: move_thread_def)
    with eval_move_potential [OF m, of k mx w a i] assms(2-4) Moves Some m show ?thesis
      by (simp add: move_thread_def)
  qed (use assms(1) Moves in simp)
qed (use assms(1) in \<open>auto simp: Swap_def split: option.splits\<close>)

lemma event_step_tokens: "\<exists>toks. er_tokens (event_step re x s) = er_tokens s @ toks"
  by (cases x) (auto simp: move_thread_def split: option.split prod.split)

lemma run_tokens: "\<exists>toks. er_tokens (run_events re es s) = er_tokens s @ toks"
proof (induction es arbitrary: s)
  case (Cons x es)
  from event_step_tokens [of re x s] Cons.IH [of "event_step re x s"] show ?case by auto
qed simp

lemma run_potential:
  "er_tokens (run_events re es s) = er_tokens s @ toks \<Longrightarrow> in_span k mx w a toks \<Longrightarrow> 0 < w \<Longrightarrow> in_int64 w \<Longrightarrow>
   granted k toks + potential (eng_limiter (er_engine (run_events re es s))) k mx a \<le>
     potential (eng_limiter (er_engine s)) k mx a"
proof (induction es arbitrary: s toks)
  case (Cons x es)
  let ?s = "event_step re x s"
  from event_step_tokens [of re x s] run_tokens [of re es ?s] obtain new rest where
    t: "er_tokens ?s = er_tokens s @ new" "er_tokens (run_events re es ?s) = er_tokens ?s @ rest" by blast
  with Cons.prems(1) have "toks = new @ rest" by simp
  with event_step_potential [OF t(1), of k mx w a] Cons.IH [OF t(2)] Cons.prems(2-4) show ?case by simp
qed simp

definition counts_nonneg :: "fixedWindowLimiter \<Rightarrow> bool" where
  "counts_nonneg l \<longleftrightarrow> (\<forall>k b. l k = Some b \<longrightarrow> 0 \<le> bucket_count b)"

lemma counts_nonneg_New [simp]: "counts_nonneg NewFixedWindowLimiter"
  by (simp add: counts_nonneg_def NewFixedWindowLimiter_def)

lemma counts_nonneg_LoadOrStore: "counts_nonneg l \<Longrightarrow> counts_nonneg (LoadOrStore l k now)"
  by (simp add: counts_nonneg_def LoadOrStore_def split: option.split)

lemma counts_nonneg_locked: "counts_nonneg l \<Longrightarrow> counts_nonneg (snd (locked_section l k mx w now))"
  by (auto simp: counts_nonneg_def locked_section_def take_token_def rotate_window_def Let_def split: option.split)

lemma counts_nonneg_move:
  assumes "eval_move re clock e ev = (ev1, l1, answers)" and "counts_nonneg (eng_limiter e)"
  shows "counts_nonneg l1"
proof (cases ev)
  case (Waiting fr now rule rl rs)
  with assms counts_nonneg_locked [of "eng_limiter e" "frame_key fr rule rl" "rl_max rl" "rl_window rl" now]
  show ?thesis by (auto split: prod.splits)
next
  case (Looping fr now rs)
  with assms show ?thesis
    by (cases rs) (auto intro: counts_nonneg_LoadOrStore split: if_splits option.splits)
qed (use assms in auto)

lemma counts_nonneg_run:
  "counts_nonneg (eng_limiter (er_engine s)) \<Longrightarrow> counts_nonneg (eng_limiter (er_engine (run_events re es s)))"
proof (induction es arbitrary: s)
  case (Cons x es)
  have "counts_nonneg (eng_limiter (er_engine (event_step re x s)))"
    using Cons.prems
    by (cases x) (auto simp: move_thread_def Swap_def intro: counts_nonneg_move split: option.split prod.split)
  with Cons.IH show ?case by simp
qed simp

lemma potential_le: "counts_nonneg l \<Longrightarrow> potential l k mx a \<le> 2 * nat mx"
proof (cases "l k")
  case (Some b)
  assume "counts_nonneg l"
  with Some have "0 \<le> bucket_count b" by (simp add: counts_nonneg_def)
  then have "nat (mx - bucket_count b) \<le> nat mx" by (intro nat_mono) simp
  with Some show ?thesis by (simp add: potential_def)
qed (simp add: potential_def)

section \<open>Every evaluation returns\<close>

text \<open>How many moves an evaluation has left, when no policy has more than \<open>m\<close> allow rules.\<close>

fun moves_left :: "nat \<Rightarrow> 're evaluation \<Rightarrow> nat" where
  "moves_left m (Loading c call) = 2 * m + 3"
| "moves_left m (Timing fr) = 2 * length (allowRules (fr_policy fr)) + 2"
| "moves_left m (Looping fr now rs) = 2 * length rs + 1"
| "moves_left m (Waiting fr now rule rl rs) = 2 * length rs + 2"
| "moves_left m (Returned d) = 0"

definition policy_within :: "nat \<Rightarrow> 're CompiledPolicy option \<Rightarrow> bool" where
  "policy_within m q = (case q of None \<Rightarrow> True | Some p \<Rightarrow> length (allowRules p) \<le> m)"

fun event_within :: "nat \<Rightarrow> 're engine_event \<Rightarrow> bool" where
  "event_within m (Swaps p) = policy_within m p"
| "event_within m x = True"

fun is_move :: "nat \<Rightarrow> 're engine_event \<Rightarrow> bool" where
  "is_move i (Moves j clock) = (j = i)"
| "is_move i x = False"

lemma moves_left_0: "moves_left m ev = 0 \<Longrightarrow> \<exists>d. ev = Returned d"
  by (cases ev) simp_all

lemma eval_move_left:
  assumes "policy_within m (eng_policy e)"
  shows "moves_left m (fst (eval_move re clock e ev)) \<le> moves_left m ev - 1"
proof (cases ev)
  case (Looping fr now rs)
  then show ?thesis by (cases rs) (auto split: option.split)
qed (use assms in \<open>auto simp: policy_within_def Let_def split: option.splits prod.splits\<close>)

lemma event_step_left:
  assumes "er_threads s i = Some ev" and "policy_within m (eng_policy (er_engine s))" and "event_within m x"
  obtains ev1 where "er_threads (event_step re x s) i = Some ev1"
    and "moves_left m ev1 \<le> moves_left m ev - (if is_move i x then 1 else 0)"
    and "policy_within m (eng_policy (er_engine (event_step re x s)))"
proof (cases x)
  case (Moves j clock)
  show ?thesis
  proof (cases "j = i")
    case True
    with assms Moves eval_move_left [OF assms(2), of re clock ev] show ?thesis
      by (intro that [of "fst (eval_move re clock (er_engine s) ev)"])
        (simp_all add: move_thread_def case_prod_unfold)
  next
    case False
    with assms Moves show ?thesis
      by (intro that [of ev]) (simp_all add: move_thread_def split: option.split prod.split)
  qed
qed (use assms in \<open>auto intro!: that [of ev] simp: Swap_def policy_within_def split: option.splits\<close>)

lemma run_left:
  assumes "er_threads s i = Some ev" and "policy_within m (eng_policy (er_engine s))"
    and "list_all (event_within m) es"
  shows "\<exists>ev1. er_threads (run_events re es s) i = Some ev1 \<and>
    moves_left m ev1 \<le> moves_left m ev - length (filter (is_move i) es)"
  using assms
proof (induction es arbitrary: s ev)
  case (Cons x es)
  from Cons.prems obtain ev1 where "er_threads (event_step re x s) i = Some ev1"
    and le: "moves_left m ev1 \<le> moves_left m ev - (if is_move i x then 1 else 0)"
    and "policy_within m (eng_policy (er_engine (event_step re x s)))"
    by (auto elim: event_step_left)
  from Cons.IH [OF this(1,3)] Cons.prems(3) obtain ev2 where
    "er_threads (run_events re es (event_step re x s)) i = Some ev2"
    "moves_left m ev2 \<le> moves_left m ev1 - length (filter (is_move i) es)" by auto
  with le show ?case by (intro exI [of _ ev2]) (auto split: if_splits)
qed simp

section \<open>Properties\<close>

text \<open>
  C27: One policy per decision.  Whatever else runs beside it, other evaluations at any of their moves
  and policies swapped in at any time, a decision that an evaluation returns follows from a single
  policy: the one that was active at one moment between the evaluation's beginning and its return.  If
  that policy denies the call, that denial is the decision; if it allows it, the evaluation has been
  granted a token for every limit of that policy that applies, or it reports the limit that refused it.
\<close>

theorem concurrent_decision:
  assumes "er_threads (run_events re es (initial_run e)) i = Some (Returned d)"
  shows "\<exists>c call q. begun_and_loaded re (initial_run e) es i c call q \<and>
    verdict re (er_tokens (run_events re es (initial_run e))) i c call q d"
  using all_sound [OF assms] by simp

text \<open>
  A policy that no longer lists the tool is swapped in after the load: the evaluation still answers
  from the policy it loaded, and pays its token.
\<close>

definition overtaken :: "string engine_event list" where
  "overtaken = [Begins 1 ''c'' call_t, Moves 1 0,
     Swaps (Some \<lparr>allowedSurface = {}, allowRules = [], denyRules = []\<rparr>),
     Moves 1 0, Moves 1 0, Moves 1 0, Moves 1 0]"

lemmas policy_conc_eval =
  limited_engine_defs initial_run_def move_thread_def evaluate_def allow_def rate_key_def frame_key_def
  LoadOrStore_def locked_section_def take_token_def rotate_window_def Sub_def max_int64_def min_int64_def
  Swap_def limited_decision_def

lemma overtaken_run:
  "er_threads (run_events substring_re overtaken (initial_run (limited_engine [''r'']))) 1 = Some (Returned allow)"
  "er_tokens (run_events substring_re overtaken (initial_run (limited_engine [''r'']))) =
     [(1, (''client:c:r:t'', 1, 10, 0), True)]"
  by (simp_all add: overtaken_def policy_conc_eval)

theorem concurrent_decision_witness:
  "\<exists>c call q. begun_and_loaded substring_re (initial_run (limited_engine [''r''])) overtaken 1 c call q \<and>
    verdict substring_re [(1, (''client:c:r:t'', 1, 10, 0), True)] 1 c call q allow"
  using concurrent_decision [OF overtaken_run(1)] by (simp add: overtaken_run(2))

text \<open>
  C28: The limit under concurrency.  In any stretch of any run of concurrent evaluations, if every answer
  given for a key in it is for one limit and for an instant of an interval of the window's length, at
  most \<open>2 * max\<close> of these answers are grants.  (One more than for calls of \<open>Allow\<close> that do not overlap:
  an evaluation can create a bucket and be stopped before it takes its token.)
\<close>

theorem concurrent_rate_bound:
  assumes "eng_limiter e = NewFixedWindowLimiter" and "0 < w" and "in_int64 w"
    and "er_tokens (run_events re (es @ fs) (initial_run e)) = er_tokens (run_events re es (initial_run e)) @ toks"
    and "in_span k mx w a toks"
  shows "granted k toks \<le> 2 * nat mx"
proof -
  let ?s = "run_events re es (initial_run e)"
  have "counts_nonneg (eng_limiter (er_engine ?s))"
    using assms(1) by (intro counts_nonneg_run) (simp add: initial_run_def)
  then have "potential (eng_limiter (er_engine ?s)) k mx a \<le> 2 * nat mx" by (rule potential_le)
  with run_potential [of re fs ?s toks k mx w a] assms(2-5) show ?thesis by simp
qed

text \<open>
  The bound is reached with a limit of one call per 10 units: evaluation 1 creates the bucket at 0 and
  stalls; evaluations 2 and 3, at 9 and 10, are both admitted.
\<close>

definition stalled :: "string engine_event list" where
  "stalled = [Begins 1 ''c'' call_t, Moves 1 0, Moves 1 0, Moves 1 0]"

definition admitted_twice :: "string engine_event list" where
  "admitted_twice = [Begins 2 ''c'' call_t, Moves 2 9, Moves 2 9, Moves 2 9, Moves 2 9,
     Begins 3 ''c'' call_t, Moves 3 10, Moves 3 10, Moves 3 10, Moves 3 10]"

lemma admitted_twice_run:
  "er_tokens (run_events substring_re (stalled @ admitted_twice) (initial_run (limited_engine [''r'']))) =
     er_tokens (run_events substring_re stalled (initial_run (limited_engine [''r'']))) @
       [(2, (''client:c:r:t'', 1, 10, 9), True), (3, (''client:c:r:t'', 1, 10, 10), True)]"
  by (simp add: stalled_def admitted_twice_def policy_conc_eval)

theorem concurrent_rate_bound_witness:
  "granted ''client:c:r:t'' [(2, (''client:c:r:t'', 1, 10, 9), True), (3, (''client:c:r:t'', 1, 10, 10), True)] = 2 \<and>
   granted ''client:c:r:t'' [(2, (''client:c:r:t'', 1, 10, 9), True), (3, (''client:c:r:t'', 1, 10, 10), True)] \<le> 2 * nat 1"
  using concurrent_rate_bound [OF _ _ _ admitted_twice_run, where w = 10 and a = 9 and mx = 1 and k = "''client:c:r:t''"]
  by (simp add: limited_engine_defs in_int64_def in_span_def granted_def)

text \<open>
  C36: An evaluation is never stopped by the others.  If no policy that is ever active has more than \<open>m\<close>
  allow rules, an evaluation returns a decision within \<open>2 * m + 3\<close> moves of its own, however other
  evaluations and swaps are interleaved with them; and once it has returned, the decision stays.
\<close>

theorem evaluation_returns:
  assumes "er_threads s i = None" and "policy_within m (eng_policy (er_engine s))"
    and "list_all (event_within m) es" and "2 * m + 3 \<le> length (filter (is_move i) es)"
  shows "\<exists>d. er_threads (run_events re (Begins i c call # es) s) i = Some (Returned d) \<and>
    (\<forall>fs. er_threads (run_events re (Begins i c call # es @ fs) s) i = Some (Returned d))"
proof -
  let ?s = "event_step re (Begins i c call) s"
  have i: "er_threads ?s i = Some (Loading c call)" and p: "policy_within m (eng_policy (er_engine ?s))"
    using assms(1,2) by simp_all
  from run_left [OF i p assms(3), of re] assms(4) obtain d where
    d: "er_threads (run_events re es ?s) i = Some (Returned d)" by (auto dest: moves_left_0)
  have stays: "er_threads s1 i = Some (Returned d) \<Longrightarrow> er_threads (run_events re fs s1) i = Some (Returned d)"
    for s1 fs
  proof (induction fs arbitrary: s1)
    case (Cons x fs)
    then have "er_threads (event_step re x s1) i = Some (Returned d)"
      by (cases x) (auto simp: move_thread_def split: option.split prod.split)
    with Cons.IH show ?case by simp
  qed simp
  from d stays [OF d] show ?thesis by simp
qed

theorem evaluation_returns_witness:
  "\<exists>d. er_threads (run_events substring_re
      (Begins 1 ''c'' call_t # [Moves 1 0, Moves 1 0, Swaps None, Moves 1 0, Moves 1 0, Moves 1 0])
      (initial_run (limited_engine [''r'']))) 1 = Some (Returned d)"
proof -
  have *: "er_threads (initial_run (limited_engine [''r''])) 1 = None"
    "policy_within 1 (eng_policy (er_engine (initial_run (limited_engine [''r'']))))"
    by (simp_all add: initial_run_def limited_engine_defs policy_within_def)
  show ?thesis
    using evaluation_returns [OF *, of "[Moves 1 0, Moves 1 0, Swaps None, Moves 1 0, Moves 1 0, Moves 1 0]"
        substring_re "''c''" call_t]
    by (simp add: policy_within_def del: run_events_simps) blast
qed

end
