(* ===== verification/GoJson.thy ===== *)
theory GoJson
  imports McpTypes
begin

text \<open>
  What the program uses of \<open>encoding/json\<close>, \<open>unicode/utf8\<close> and \<open>strconv\<close> when it writes: the
  string encoder with HTML escaping (the default of \<open>json.Marshal\<close>), decimal integers, and the
  encoding of values of type \<open>any\<close> with sorted object keys.  Strings are byte sequences, as in Go;
  the encoder replaces bytes that are not valid UTF-8.
\<close>

section \<open>UTF-8\<close>

abbreviation byte :: "char \<Rightarrow> nat" where "byte c \<equiv> of_char c"

definition cont_byte :: "nat \<Rightarrow> nat \<Rightarrow> char \<Rightarrow> bool" where
  "cont_byte lo hi c \<longleftrightarrow> lo \<le> byte c \<and> byte c \<le> hi"

text \<open>
  \<open>utf8.DecodeRuneInString\<close>, as far as the encoder needs it: the number of bytes of the rune at the
  start of the string, 0 when there is none.
\<close>

definition rune_tail :: "nat \<Rightarrow> nat \<Rightarrow> nat \<Rightarrow> string \<Rightarrow> bool" where
  "rune_tail k lo hi cs \<longleftrightarrow>
     k \<le> length cs \<and> 0 < k \<and> cont_byte lo hi (hd cs) \<and> list_all (cont_byte 128 191) (take (k - 1) (tl cs))"

definition rune_shape :: "nat \<Rightarrow> (nat \<times> nat \<times> nat) option" where
  "rune_shape b =
     (if b < 194 then None
      else if b \<le> 223 then Some (1, 128, 191)
      else if b = 224 then Some (2, 160, 191)
      else if b = 237 then Some (2, 128, 159)
      else if b \<le> 239 then Some (2, 128, 191)
      else if b = 240 then Some (3, 144, 191)
      else if b \<le> 243 then Some (3, 128, 191)
      else if b = 244 then Some (3, 128, 143)
      else None)"

fun rune_size :: "string \<Rightarrow> nat" where
  "rune_size [] = 0"
| "rune_size (c # cs) =
     (if byte c < 128 then 1
      else case rune_shape (byte c) of
        None \<Rightarrow> 0
      | Some (k, lo, hi) \<Rightarrow> if rune_tail k lo hi cs then Suc k else 0)"

lemma rune_size_le: "rune_size s \<le> length s"
  by (cases s) (auto simp: rune_tail_def split: option.splits prod.splits)

lemma rune_shape_lo: "rune_shape b = Some (k, lo, hi) \<Longrightarrow> 128 \<le> lo"
  by (auto simp: rune_shape_def split: if_splits)

lemma rune_tail_high:
  "rune_tail k lo hi cs \<Longrightarrow> 128 \<le> lo \<Longrightarrow> list_all (\<lambda>d. 128 \<le> byte d) (take k cs)"
  by (cases cs; cases k) (auto simp: rune_tail_def cont_byte_def list_all_iff)

lemma rune_size_high:
  "\<not> byte c < 128 \<Longrightarrow> list_all (\<lambda>d. 128 \<le> byte d) (take (rune_size (c # cs)) (c # cs))"
  by (auto simp: rune_tail_high dest: rune_shape_lo split: option.splits prod.splits)

function valid_utf8 :: "string \<Rightarrow> bool" where
  "valid_utf8 [] = True"
| "valid_utf8 (c # cs) =
     (rune_size (c # cs) \<noteq> 0 \<and> valid_utf8 (drop (rune_size (c # cs) - 1) cs))"
  by pat_completeness auto
termination by (relation "measure length") auto

lemma valid_utf8_ascii: "list_all (\<lambda>c. byte c < 128) s \<Longrightarrow> valid_utf8 s"
  by (induction s) simp_all

section \<open>The string encoder\<close>

definition bslash :: char where "bslash = CHR 0x5C"
definition dquote :: char where "dquote = CHR 0x22"

definition hex4 :: "nat \<Rightarrow> string" where
  "hex4 n = map (\<lambda>i. ''0123456789abcdef'' ! (n div 16 ^ i mod 16)) [3, 2, 1, 0]"

definition short_escape :: "char \<Rightarrow> char option" where
  "short_escape c =
     map_of [(dquote, dquote), (bslash, bslash), (CHR 0x08, CHR ''b''), (CHR 0x0C, CHR ''f''),
       (CHR 0x0A, CHR ''n''), (CHR 0x0D, CHR ''r''), (CHR 0x09, CHR ''t'')] c"

definition escape_ascii :: "char \<Rightarrow> string" where
  "escape_ascii c =
     (case short_escape c of
        Some e \<Rightarrow> [bslash, e]
      | None \<Rightarrow>
        if byte c < 32 \<or> c \<in> {CHR ''<'', CHR ''>'', CHR ''&''} then bslash # CHR ''u'' # hex4 (byte c)
        else [c])"

definition line_separator :: string where "line_separator = [CHR 0xE2, CHR 0x80, CHR 0xA8]"
definition paragraph_separator :: string where "paragraph_separator = [CHR 0xE2, CHR 0x80, CHR 0xA9]"

text \<open>\<open>appendString\<close> without the quotes: one rune, or one invalid byte, at a time.\<close>

function escape :: "string \<Rightarrow> string" where
  "escape [] = []"
| "escape (c # cs) =
     (if byte c < 128 then escape_ascii c @ escape cs
      else if rune_size (c # cs) = 0 then bslash # CHR ''u'' # ''fffd'' @ escape cs
      else (let r = take (rune_size (c # cs)) (c # cs)
            in (if r = line_separator then bslash # CHR ''u'' # ''2028''
                else if r = paragraph_separator then bslash # CHR ''u'' # ''2029''
                else r)) @ escape (drop (rune_size (c # cs) - 1) cs))"
  by pat_completeness auto
termination by (relation "measure length") auto

definition quote :: "string \<Rightarrow> string" where
  "quote s = dquote # escape s @ [dquote]"

section \<open>Reading an encoded string back\<close>

text \<open>
  \<open>read_string\<close> reads the rest of a string literal whose opening quote has been consumed; it
  returns the string and the text after the closing quote.
\<close>

fun from_hex :: "nat \<Rightarrow> string \<Rightarrow> nat option" where
  "from_hex acc [] = Some acc"
| "from_hex acc (c # cs) =
     (if CHR ''0'' \<le> c \<and> c \<le> CHR ''9'' then from_hex (16 * acc + (byte c - 48)) cs
      else if CHR ''a'' \<le> c \<and> c \<le> CHR ''f'' then from_hex (16 * acc + (byte c - 87)) cs
      else if CHR ''A'' \<le> c \<and> c \<le> CHR ''F'' then from_hex (16 * acc + (byte c - 55)) cs
      else None)"

definition encode_rune :: "nat \<Rightarrow> string" where
  "encode_rune n =
     (if n < 128 then [char_of n]
      else if n < 2048 then [char_of (192 + n div 64), char_of (128 + n mod 64)]
      else if n < 65536 then
        [char_of (224 + n div 4096), char_of (128 + n div 64 mod 64), char_of (128 + n mod 64)]
      else [char_of (240 + n div 262144), char_of (128 + n div 4096 mod 64),
        char_of (128 + n div 64 mod 64), char_of (128 + n mod 64)])"

definition replacement_char :: string where "replacement_char = [CHR 0xEF, CHR 0xBF, CHR 0xBD]"

definition simple_escape :: "char \<Rightarrow> char option" where
  "simple_escape c =
     map_of [(dquote, dquote), (bslash, bslash), (CHR ''/'', CHR ''/''), (CHR ''b'', CHR 0x08),
       (CHR ''f'', CHR 0x0C), (CHR ''n'', CHR 0x0A), (CHR ''r'', CHR 0x0D), (CHR ''t'', CHR 0x09)] c"

text \<open>\<open>getu4\<close>: four hexadecimal digits.\<close>

definition getu4 :: "string \<Rightarrow> nat option" where
  "getu4 s = (if length s < 4 then None else from_hex 0 (take 4 s))"

definition is_surrogate :: "nat \<Rightarrow> bool" where
  "is_surrogate n \<longleftrightarrow> 55296 \<le> n \<and> n < 57344"

text \<open>
  After the escape of a surrogate: the text of a valid pair and how many bytes of the second escape
  to skip, or the replacement character.
\<close>

definition surrogate_text :: "nat \<Rightarrow> string \<Rightarrow> string \<times> nat" where
  "surrogate_text n s =
     (case (if take 2 s = [bslash, CHR ''u''] then getu4 (drop 2 s) else None) of
        None \<Rightarrow> (replacement_char, 0)
      | Some m \<Rightarrow>
        if n < 56320 \<and> 56320 \<le> m \<and> m < 57344
        then (encode_rune (65536 + (n - 55296) * 1024 + (m - 56320)), 6)
        else (replacement_char, 0))"

definition prepend :: "string \<Rightarrow> (string \<times> string) option \<Rightarrow> (string \<times> string) option" where
  "prepend p r = map_option (apfst ((@) p)) r"

text \<open>
  The scanner rejects control characters and unknown escapes; the decoder replaces invalid UTF-8
  and unpaired surrogates.
\<close>

function (sequential) read_string :: "string \<Rightarrow> (string \<times> string) option" where
  "read_string [] = None"
| "read_string (c # cs) =
     (if c = dquote then Some ([], cs)
      else if c = bslash then
        (case cs of
           [] \<Rightarrow> None
         | e # cs1 \<Rightarrow>
           if e = CHR ''u'' then
             (case getu4 cs1 of
                None \<Rightarrow> None
              | Some n \<Rightarrow>
                if is_surrogate n then
                  (let (t, k) = surrogate_text n (drop 4 cs1) in prepend t (read_string (drop (4 + k) cs1)))
                else prepend (encode_rune n) (read_string (drop 4 cs1)))
           else (case simple_escape e of
                None \<Rightarrow> None
              | Some d \<Rightarrow> prepend [d] (read_string cs1)))
      else if byte c < 32 then None
      else if byte c < 128 then prepend [c] (read_string cs)
      else (let n = rune_size (c # cs)
            in if n = 0 then prepend replacement_char (read_string cs)
               else prepend (take n (c # cs)) (read_string (drop (n - 1) cs))))"
  by pat_completeness auto
termination by (relation "measure length") auto

lemma prepend_prepend [simp]: "prepend p (prepend q r) = prepend (p @ q) r"
  by (cases r) (auto simp: prepend_def apfst_def map_prod_def split: prod.splits)

lemma prepend_Some [simp]: "prepend p (Some (s, r)) = Some (p @ s, r)"
  by (simp add: prepend_def)

lemma prepend_Nil [simp]: "prepend [] r = r"
  by (cases r) (auto simp: prepend_def apfst_def map_prod_def split: prod.splits)

lemma rune_tail_append: "k \<le> length cs \<Longrightarrow> rune_tail k lo hi (take k cs @ r) = rune_tail k lo hi cs"
proof (cases cs; cases k)
  fix d ds j
  assume "cs = d # ds" "k = Suc j" "k \<le> length cs"
  then show ?thesis by (simp add: rune_tail_def min_def)
qed (simp_all add: rune_tail_def)

lemma rune_size_append:
  assumes "rune_size (c # cs) = Suc k"
  shows "rune_size (c # take k cs @ r) = Suc k"
proof -
  have "k \<le> length cs" using rune_size_le [of "c # cs"] assms by simp
  then show ?thesis
    using assms by (auto simp: rune_tail_append split: if_splits option.splits)
qed

text \<open>A complete rune of several bytes is copied.\<close>

lemma read_string_rune:
  assumes "\<not> byte c < 128" and "rune_size (c # cs) = n" and "0 < n"
  shows "read_string (take n (c # cs) @ r) = prepend (take n (c # cs)) (read_string r)"
proof -
  obtain k where k: "n = Suc k" using assms(3) by (cases n) auto
  have "k \<le> length cs" using rune_size_le [of "c # cs"] assms(2) k by simp
  moreover have "c \<noteq> dquote" "c \<noteq> bslash" "\<not> byte c < 32"
    using assms(1) by (auto simp: dquote_def bslash_def)
  moreover have "rune_size (c # take k cs @ r) = Suc k"
    using assms(2) k by (intro rune_size_append) simp
  ultimately show ?thesis
    using assms(1) by (simp add: k Let_def del: rune_size.simps)
qed

lemma from_hex_digit:
  "n < 16 \<Longrightarrow> from_hex acc (''0123456789abcdef'' ! n # cs) = from_hex (16 * acc + n) cs"
proof -
  have "list_all (\<lambda>n. from_hex acc (''0123456789abcdef'' ! n # cs) = from_hex (16 * acc + n) cs)
      (rev [15, 14, 13, 12, 11, 10, 9, 8, 7, 6, 5, 4, 3, 2, 1, 0])"
    by (simp add: less_eq_char_def)
  moreover assume "n < 16"
  then have "n \<in> set (rev [15, 14, 13, 12, 11, 10, 9, 8, 7, 6, 5, 4, 3, 2, 1, 0 :: nat])"
    by (simp add: numeral_eq_Suc less_Suc_eq)
  ultimately show ?thesis unfolding list_all_iff by blast
qed

lemma hex_digits_value:
  assumes "n < 65536"
  shows "16 * (16 * (16 * (n div 4096 mod 16) + n div 256 mod 16) + n div 16 mod 16) + n mod 16 = (n :: nat)"
proof -
  have "n div 4096 mod 16 = n div 4096" using assms by simp
  moreover have "16 * (n div 4096) + n div 256 mod 16 = n div 256"
    using mult_div_mod_eq [of 16 "n div 256"] by (simp add: div_mult2_eq [symmetric])
  moreover have "16 * (n div 256) + n div 16 mod 16 = n div 16"
    using mult_div_mod_eq [of 16 "n div 16"] by (simp add: div_mult2_eq [symmetric])
  ultimately show ?thesis by simp
qed

lemma from_hex_hex4: "n < 65536 \<Longrightarrow> from_hex 0 (hex4 n) = Some n"
  using hex_digits_value [of n] by (simp add: hex4_def from_hex_digit del: from_hex.simps(2))

lemma length_hex4 [simp]: "length (hex4 n) = 4"
  by (simp add: hex4_def)

lemma read_string_u:
  "n < 65536 \<Longrightarrow> \<not> is_surrogate n \<Longrightarrow>
   read_string (bslash # CHR ''u'' # hex4 n @ r) = prepend (encode_rune n) (read_string r)"
  by (simp add: from_hex_hex4 getu4_def bslash_def dquote_def)

lemma read_string_simple:
  assumes "simple_escape e = Some d"
  shows "read_string (bslash # e # r) = prepend [d] (read_string r)"
proof -
  have "e \<noteq> CHR ''u''"
    using assms by (auto simp: simple_escape_def dquote_def bslash_def)
  with assms show ?thesis by (simp add: bslash_def dquote_def)
qed

lemma simple_short_escape: "short_escape c = Some e \<Longrightarrow> simple_escape e = Some c"
  by (auto simp: short_escape_def simple_escape_def dquote_def bslash_def split: if_splits)

lemma short_escape_None: "short_escape c = None \<Longrightarrow> c \<noteq> dquote \<and> c \<noteq> bslash"
  by (auto simp: short_escape_def dquote_def bslash_def)

lemma separators_differ: "(paragraph_separator = line_separator) = False"
  by (simp add: line_separator_def paragraph_separator_def)

lemma read_string_separators:
  "read_string (bslash # CHR ''u'' # ''2028'' @ r) = prepend line_separator (read_string r)"
  "read_string (bslash # CHR ''u'' # ''2029'' @ r) = prepend paragraph_separator (read_string r)"
proof -
  have "hex4 8232 = ''2028''" "hex4 8233 = ''2029''"
    by (simp_all add: hex4_def)
  moreover have "encode_rune 8232 = line_separator" "encode_rune 8233 = paragraph_separator"
    by (simp_all add: encode_rune_def line_separator_def paragraph_separator_def char_of_eq_iff)
  ultimately show
    "read_string (bslash # CHR ''u'' # ''2028'' @ r) = prepend line_separator (read_string r)"
    "read_string (bslash # CHR ''u'' # ''2029'' @ r) = prepend paragraph_separator (read_string r)"
    using read_string_u [of 8232 r] read_string_u [of 8233 r] by (simp_all add: is_surrogate_def)
qed

lemma read_string_escape_ascii:
  assumes "byte c < 128"
  shows "read_string (escape_ascii c @ r) = prepend [c] (read_string r)"
proof (cases "short_escape c")
  case (Some e)
  then show ?thesis
    by (simp only: escape_ascii_def option.case append_Cons append_Nil
        read_string_simple simple_short_escape)
next
  case None
  show ?thesis
  proof (cases "byte c < 32 \<or> c \<in> {CHR ''<'', CHR ''>'', CHR ''&''}")
    case True
    then have "escape_ascii c = bslash # CHR ''u'' # hex4 (byte c)"
      unfolding escape_ascii_def None option.case by (rule if_P)
    moreover have "encode_rune (byte c) = [c]"
      using assms by (simp add: encode_rune_def)
    moreover have "byte c < 65536" "\<not> is_surrogate (byte c)"
      using assms by (simp_all add: is_surrogate_def)
    ultimately show ?thesis
      using read_string_u [of "byte c" r] by (simp only: append_Cons not_False_eq_True)
  next
    case False
    then show ?thesis
      using None short_escape_None [OF None] assms by (simp add: escape_ascii_def)
  qed
qed

lemma take_Suc_drop:
  "0 < n \<Longrightarrow> take n (c # cs) @ drop (n - 1) cs = c # cs"
  by (cases n) simp_all

lemma read_string_escape:
  "valid_utf8 s \<Longrightarrow> read_string (escape s @ dquote # r) = Some (s, r)"
proof (induction s rule: escape.induct)
  case (2 c cs)
  define n where "n = rune_size (c # cs)"
  show ?case
  proof (cases "byte c < 128")
    case True
    then have "escape (c # cs) @ dquote # r = escape_ascii c @ (escape cs @ dquote # r)"
      by simp
    moreover have "valid_utf8 cs" using 2(4) True by simp
    ultimately show ?thesis
      using 2(1) [OF True] by (simp only: read_string_escape_ascii [OF True] prepend_Some append_Cons append_Nil)
  next
    case False
    have n: "0 < n" and v: "valid_utf8 (drop (n - 1) cs)"
      using 2(4) by (simp_all only: n_def valid_utf8.simps neq0_conv)
    let ?r = "take n (c # cs)"
    let ?esc = "if ?r = line_separator then bslash # CHR ''u'' # ''2028''
      else if ?r = paragraph_separator then bslash # CHR ''u'' # ''2029'' else ?r"
    let ?rest = "escape (drop (n - 1) cs) @ dquote # r"
    have IH: "read_string ?rest = Some (drop (n - 1) cs, r)"
      using 2(3) [OF False] n v by (simp add: n_def)
    have e: "escape (c # cs) @ dquote # r = ?esc @ ?rest"
      using False n by (simp only: escape.simps n_def if_False Let_def append_assoc) simp
    have raw: "read_string (?r @ ?rest) = prepend ?r (read_string ?rest)"
      by (rule read_string_rune [OF False n_def [symmetric] n])
    have "read_string (?esc @ ?rest) = prepend ?r (read_string ?rest)"
    proof (cases "?r = line_separator \<or> ?r = paragraph_separator")
      case True
      then show ?thesis
        by (elim disjE) (simp_all only: if_P append_Cons append_Nil separators_differ if_False if_True
            read_string_separators [unfolded append_Cons append_Nil])
    next
      case False
      then show ?thesis using raw by (simp only: de_Morgan_disj if_False)
    qed
    then show ?thesis
      unfolding e IH using take_Suc_drop [OF n, of c cs] by simp
  qed
qed (simp add: dquote_def)

lemma quote_append_cancel:
  assumes "valid_utf8 s" and "valid_utf8 t" and "quote s @ r = quote t @ u"
  shows "s = t \<and> r = u"
proof -
  have e: "escape s @ dquote # r = escape t @ dquote # u"
    using assms(3) by (simp add: quote_def)
  have "Some (s, r) = Some (t, u)"
    unfolding read_string_escape [OF assms(1), symmetric] read_string_escape [OF assms(2), symmetric] e
    by (rule refl)
  then show ?thesis by simp
qed

section \<open>Decimal integers\<close>

text \<open>\<open>strconv.AppendInt\<close> in base 10.\<close>

fun show_nat :: "nat \<Rightarrow> string" where
  "show_nat n = (if n < 10 then [char_of (48 + n)] else show_nat (n div 10) @ [char_of (48 + n mod 10)])"

declare show_nat.simps [simp del]

definition show_int :: "int \<Rightarrow> string" where
  "show_int i = (if i < 0 then CHR ''-'' # show_nat (nat (- i)) else show_nat (nat i))"

definition dec_value :: "string \<Rightarrow> nat" where
  "dec_value = foldl (\<lambda>n c. 10 * n + (byte c - 48)) 0"

lemma dec_value_show_nat [simp]: "dec_value (show_nat n) = n"
proof (induction n rule: show_nat.induct)
  case (1 n)
  then show ?case
    by (subst show_nat.simps) (simp add: dec_value_def)
qed

definition digit_char :: "char \<Rightarrow> bool" where
  "digit_char c \<longleftrightarrow> 48 \<le> byte c \<and> byte c \<le> 57"

lemma show_nat_digits: "list_all digit_char (show_nat n)"
proof (induction n rule: show_nat.induct)
  case (1 n)
  have d: "m < 10 \<Longrightarrow> digit_char (char_of (48 + m))" for m :: nat
    by (simp add: digit_char_def)
  from 1 show ?case
    by (subst show_nat.simps) (simp add: d)
qed

lemma takeWhile_stop:
  "list_all P xs \<Longrightarrow> \<not> P c \<Longrightarrow> takeWhile P (xs @ c # r) = xs \<and> dropWhile P (xs @ c # r) = c # r"
  by (induction xs) auto

lemma show_nat_append_cancel:
  assumes "show_nat m @ c # r = show_nat n @ d # u" and "\<not> digit_char c" and "\<not> digit_char d"
  shows "m = n \<and> c # r = d # u"
proof -
  have "show_nat m = show_nat n \<and> c # r = d # u"
    using takeWhile_stop [OF show_nat_digits assms(2), of m r]
      takeWhile_stop [OF show_nat_digits assms(3), of n u] unfolding assms(1) by metis
  then show ?thesis using dec_value_show_nat by metis
qed



lemma show_nat_nonempty: "show_nat n \<noteq> []"
  by (subst show_nat.simps) simp

lemma show_int_append_cancel:
  assumes "show_int i @ c # r = show_int j @ d # u" and "\<not> digit_char c" and "\<not> digit_char d"
  shows "i = j \<and> c # r = d # u"
proof -
  have nm: "show_nat n @ w \<noteq> CHR ''-'' # v" for n w v
    using show_nat_digits [of n] show_nat_nonempty [of n]
    by (cases "show_nat n") (auto simp: digit_char_def)
  have k: "show_nat m @ c # r = show_nat n @ d # u \<Longrightarrow> m = n \<and> c # r = d # u" for m n
    using assms(2,3) by (rule show_nat_append_cancel [rotated 1])
  consider "i < 0" "j < 0" | "i < 0" "\<not> j < 0" | "\<not> i < 0" "j < 0" | "\<not> i < 0" "\<not> j < 0"
    by blast
  then show ?thesis
  proof cases
    case 1
    then have "nat (- i) = nat (- j) \<and> c # r = d # u"
      using assms(1) k [of "nat (- i)" "nat (- j)"] by (simp add: show_int_def)
    then show ?thesis using 1 by linarith
  next
    case 2
    then show ?thesis using assms(1) nm [symmetric] by (simp add: show_int_def)
  next
    case 3
    then show ?thesis using assms(1) nm by (simp add: show_int_def)
  next
    case 4
    then have "nat i = nat j \<and> c # r = d # u"
      using assms(1) k [of "nat i" "nat j"] by (simp add: show_int_def)
    then show ?thesis using 4 by linarith
  qed
qed

section \<open>Encoding values\<close>

fun intercalate :: "string \<Rightarrow> string list \<Rightarrow> string" where
  "intercalate sep [] = []"
| "intercalate sep [x] = x"
| "intercalate sep (x # y # zs) = x @ sep @ intercalate sep (y # zs)"

text \<open>An object from its encoded members, in the order given.\<close>

definition json_member :: "string \<times> string \<Rightarrow> string" where
  "json_member kv = quote (fst kv) @ '':'' @ snd kv"

definition json_object :: "(string \<times> string) list \<Rightarrow> string" where
  "json_object kvs = ''{'' @ intercalate '','' (map json_member kvs) @ ''}''"

definition json_array :: "string list \<Rightarrow> string" where
  "json_array xs = ''['' @ intercalate '','' xs @ '']''"

text \<open>
  \<open>json.Marshal\<close> of a value of type \<open>any\<close> that came out of \<open>json.Unmarshal\<close>; the keys of a map
  are sorted.  Numbers are kept as their text.
\<close>

primrec marshal_any :: "any \<Rightarrow> string" and
  marshal_list :: "any list \<Rightarrow> string list" and
  marshal_pairs :: "(string \<times> any) list \<Rightarrow> (string \<times> string) list" and
  marshal_pair :: "string \<times> any \<Rightarrow> string \<times> string" where
  "marshal_any ANil = ''null''"
| "marshal_any (ABool b) = (if b then ''true'' else ''false'')"
| "marshal_any (ANumber t) = t"
| "marshal_any (AString s) = quote s"
| "marshal_any (ASlice xs) = json_array (marshal_list xs)"
| "marshal_any (AMap m) = json_object (sort_key fst (marshal_pairs m))"
| "marshal_list [] = []"
| "marshal_list (x # xs) = marshal_any x # marshal_list xs"
| "marshal_pairs [] = []"
| "marshal_pairs (p # ps) = marshal_pair p # marshal_pairs ps"
| "marshal_pair (k, v) = (k, marshal_any v)"

definition marshal_map :: "(string \<times> any) list \<Rightarrow> string" where
  "marshal_map m = marshal_any (AMap m)"

lemma marshal_pairs_map: "marshal_pairs m = map (\<lambda>kv. (fst kv, marshal_any (snd kv))) m"
  by (induction m) auto

text \<open>The text of a map does not depend on the order in which the runtime enumerates it.\<close>

lemma marshal_map_order:
  assumes "is_map m" and "mset m = mset m'"
  shows "marshal_map m = marshal_map m'"
proof -
  let ?f = "\<lambda>kv. (fst kv, marshal_any (snd kv))"
  have "mset (marshal_pairs m) = mset (marshal_pairs m')"
    using assms(2) by (simp add: marshal_pairs_map)
  moreover have "distinct (map fst (marshal_pairs m))"
    using assms(1) by (simp add: marshal_pairs_map is_map_def comp_def)
  ultimately have "sort_key fst (marshal_pairs m) = sort_key fst (marshal_pairs m')"
    by (intro sort_key_mset_cong)
  then show ?thesis by (simp add: marshal_map_def)
qed

lemma show_int_inject [simp]: "show_int i = show_int j \<longleftrightarrow> i = j"
proof
  assume "show_int i = show_int j"
  then have "show_int i @ CHR '','' # [] = show_int j @ CHR '','' # []" by simp
  then show "i = j" by (rule show_int_append_cancel [THEN conjunct1]) (simp_all add: digit_char_def)
qed simp

section \<open>Encoding the message types\<close>

text \<open>
  The members of a structure; a member marked \<open>omitempty\<close> in the source is left out when it is
  empty.  A nil slice or map is written \<open>null\<close>.
\<close>

definition omitempty :: "string \<Rightarrow> string \<Rightarrow> (string \<times> string) list" where
  "omitempty k s = (if s = '''' then [] else [(k, quote s)])"

definition marshal_option :: "('a \<Rightarrow> string) \<Rightarrow> 'a option \<Rightarrow> string" where
  "marshal_option f x = (case x of None \<Rightarrow> ''null'' | Some a \<Rightarrow> f a)"

definition marshal_content :: "Content \<Rightarrow> string" where
  "marshal_content c = json_object ((''type'', quote (content_Type c)) # omitempty ''text'' (content_Text c))"

definition marshal_tool :: "Tool \<Rightarrow> string" where
  "marshal_tool t = json_object ((''name'', quote (tool_Name t)) # omitempty ''description'' (tool_Description t) @
     [(''inputSchema'', marshal_option marshal_map (tool_InputSchema t))])"

definition marshal_payload :: "payload \<Rightarrow> string" where
  "marshal_payload p =
     (case p of
        PInitialize r \<Rightarrow> json_object
          [(''protocolVersion'', quote (ir_ProtocolVersion r)),
           (''capabilities'', json_object [(''tools'', json_object [])]),
           (''serverInfo'', json_object
             [(''name'', quote (si_Name (ir_ServerInfo r))), (''version'', quote (si_Version (ir_ServerInfo r)))])]
      | PToolsList ts \<Rightarrow> json_object [(''tools'', json_array (map marshal_tool ts))]
      | PToolsCall r \<Rightarrow> json_object
          [(''content'', marshal_option (\<lambda>cs. json_array (map marshal_content cs)) (result_Content r))])"

definition marshal_error :: "int \<Rightarrow> string \<Rightarrow> any option \<Rightarrow> string" where
  "marshal_error code msg data = json_object
     ([(''code'', show_int code), (''message'', quote msg)] @
      (case data of None \<Rightarrow> [] | Some d \<Rightarrow> [(''data'', marshal_any d)]))"

end
