(* ===== verification/Sha256.thy ===== *)
theory Sha256
  imports Prelude
begin

text \<open>
  The two packages of the standard library behind the API keys and the hash chain:
  \<open>crypto/sha256\<close> on 32-bit words, following FIPS 180-4, and \<open>encoding/hex\<close>.  A Go string or
  byte slice is a list of characters, one for each byte.
\<close>

unbundle bit_operations_syntax

section \<open>SHA-256\<close>

text \<open>
  The constants of the standard are the first 32 bits of the fractional parts of square and cube
  roots of the first primes.  \<open>int_root k n N a\<close> adds to \<open>a\<close> the bits below \<open>n\<close> of the \<open>k\<close>-th root of
  \<open>N\<close>, rounded down.
\<close>

fun int_root :: "nat \<Rightarrow> nat \<Rightarrow> int \<Rightarrow> int \<Rightarrow> int" where
  "int_root k 0 N a = a"
| "int_root k (Suc n) N a = int_root k n N (if (a + 2 ^ n) ^ k \<le> N then a + 2 ^ n else a)"

definition root_fraction :: "nat \<Rightarrow> int \<Rightarrow> 32 word" where
  "root_fraction k p = word_of_int (int_root k 40 (p * 2 ^ (32 * k)) 0)"

definition is_prime :: "int \<Rightarrow> bool" where
  "is_prime n \<longleftrightarrow> list_all (\<lambda>d. n mod d \<noteq> 0) [2..n - 1]"

definition small_primes :: "int list" where
  "small_primes = filter is_prime [2..311]"

definition K256 :: "32 word list" where
  "K256 = map (root_fraction 3) small_primes"

type_synonym sha_state =
  "32 word \<times> 32 word \<times> 32 word \<times> 32 word \<times> 32 word \<times> 32 word \<times> 32 word \<times> 32 word"

definition sha_init :: sha_state where
  "sha_init = (root_fraction 2 2, root_fraction 2 3, root_fraction 2 5, root_fraction 2 7,
     root_fraction 2 11, root_fraction 2 13, root_fraction 2 17, root_fraction 2 19)"

definition Ch :: "32 word \<Rightarrow> 32 word \<Rightarrow> 32 word \<Rightarrow> 32 word" where
  "Ch x y z = (x AND y) XOR (NOT x AND z)"

definition Maj :: "32 word \<Rightarrow> 32 word \<Rightarrow> 32 word \<Rightarrow> 32 word" where
  "Maj x y z = (x AND y) XOR (x AND z) XOR (y AND z)"

definition rotr :: "nat \<Rightarrow> 32 word \<Rightarrow> 32 word" where
  "rotr n x = drop_bit n x OR push_bit (32 - n) x"

definition bigSigma0 :: "32 word \<Rightarrow> 32 word" where
  "bigSigma0 x = rotr 2 x XOR rotr 13 x XOR rotr 22 x"

definition bigSigma1 :: "32 word \<Rightarrow> 32 word" where
  "bigSigma1 x = rotr 6 x XOR rotr 11 x XOR rotr 25 x"

definition smallSigma0 :: "32 word \<Rightarrow> 32 word" where
  "smallSigma0 x = rotr 7 x XOR rotr 18 x XOR drop_bit 3 x"

definition smallSigma1 :: "32 word \<Rightarrow> 32 word" where
  "smallSigma1 x = rotr 17 x XOR rotr 19 x XOR drop_bit 10 x"

text \<open>The message schedule, newest word first.\<close>

fun extend_schedule :: "nat \<Rightarrow> 32 word list \<Rightarrow> 32 word list" where
  "extend_schedule 0 ws = ws"
| "extend_schedule (Suc n) ws =
     extend_schedule n
       ((smallSigma1 (ws ! 1) + ws ! 6 + smallSigma0 (ws ! 14) + ws ! 15) # ws)"

definition sha_round :: "32 word \<times> 32 word \<Rightarrow> sha_state \<Rightarrow> sha_state" where
  "sha_round kw st =
     (case (kw, st) of ((k, w), (a, b, c, d, e, f, g, h)) \<Rightarrow>
        let t1 = h + bigSigma1 e + Ch e f g + k + w;
            t2 = bigSigma0 a + Maj a b c
        in (t1 + t2, a, b, c, d + t1, e, f, g))"

definition sha_add :: "sha_state \<Rightarrow> sha_state \<Rightarrow> sha_state" where
  "sha_add s t =
     (case (s, t) of ((a, b, c, d, e, f, g, h), (a', b', c', d', e', f', g', h')) \<Rightarrow>
        (a + a', b + b', c + c', d + d', e + e', f + f', g + g', h + h'))"

definition sha_block :: "32 word list \<Rightarrow> sha_state \<Rightarrow> sha_state" where
  "sha_block ws st = sha_add st (fold sha_round (zip K256 (rev (extend_schedule 48 (rev ws)))) st)"

definition be32 :: "char list \<Rightarrow> 32 word" where
  "be32 cs = fold (\<lambda>c w. 256 * w + of_char c) cs 0"

definition to_be :: "nat \<Rightarrow> int \<Rightarrow> char list" where
  "to_be n x = map (\<lambda>i. char_of (x div 256 ^ (n - Suc i))) [0..<n]"

definition sha_pad :: "string \<Rightarrow> string" where
  "sha_pad m =
     m @ char_of (128 :: nat) # replicate ((119 - length m mod 64) mod 64) (char_of (0 :: nat))
       @ to_be 8 (8 * int (length m))"

definition sha_words :: "string \<Rightarrow> 32 word list" where
  "sha_words blk = map (\<lambda>i. be32 (take 4 (drop (4 * i) blk))) [0..<16]"

definition sha_blocks :: "string \<Rightarrow> 32 word list list" where
  "sha_blocks m = map (\<lambda>i. sha_words (take 64 (drop (64 * i) m))) [0..<length m div 64]"

definition sha256_state :: "string \<Rightarrow> sha_state" where
  "sha256_state m = fold sha_block (sha_blocks (sha_pad m)) sha_init"

definition Sum256 :: "string \<Rightarrow> string" where
  "Sum256 m =
     (case sha256_state m of (a, b, c, d, e, f, g, h) \<Rightarrow>
        concat (map (\<lambda>w. to_be 4 (uint w)) [a, b, c, d, e, f, g, h]))"

lemma length_to_be [simp]: "length (to_be n x) = n"
  by (simp add: to_be_def)

lemma length_Sum256 [simp]: "length (Sum256 m) = 32"
  by (simp add: Sum256_def split: prod.splits)

text \<open>Padding fills whole blocks.\<close>

lemma sha_pad_blocks: "length (sha_pad m) mod 64 = 0"
proof -
  have "length m mod 64 < 64" by simp
  then have "(length m mod 64 + (9 + (119 - length m mod 64))) mod 64 = 0"
    by (simp add: add.commute)
  then have "(length m + (9 + (119 - length m mod 64) mod 64)) mod 64 = 0"
    by (metis mod_add_left_eq mod_add_right_eq)
  then show ?thesis by (simp add: sha_pad_def)
qed

section \<open>encoding/hex\<close>

definition hex_digits :: string where "hex_digits = ''0123456789abcdef''"

definition hex_byte :: "char \<Rightarrow> string" where
  "hex_byte c = [hex_digits ! (of_char c div 16), hex_digits ! (of_char c mod 16)]"

definition EncodeToString :: "string \<Rightarrow> string" where
  "EncodeToString s = concat (map hex_byte s)"

text \<open>Both cases of the letters are accepted.\<close>

definition fromHexChar :: "char \<Rightarrow> nat option" where
  "fromHexChar c =
     (if CHR ''0'' \<le> c \<and> c \<le> CHR ''9'' then Some (of_char c - 48)
      else if CHR ''a'' \<le> c \<and> c \<le> CHR ''f'' then Some (of_char c - 87)
      else if CHR ''A'' \<le> c \<and> c \<le> CHR ''F'' then Some (of_char c - 55)
      else None)"

fun DecodeString :: "string \<Rightarrow> string option" where
  "DecodeString [] = Some []"
| "DecodeString [c] = None"
| "DecodeString (c # d # s) =
     (case (fromHexChar c, fromHexChar d) of
        (Some a, Some b) \<Rightarrow>
          (case DecodeString s of None \<Rightarrow> None | Some r \<Rightarrow> Some (char_of (16 * a + b) # r))
      | _ \<Rightarrow> None)"

lemma fromHexChar_digits: "list_all (\<lambda>n. fromHexChar (hex_digits ! n) = Some n) [0..<16]"
  by code_simp

lemma fromHexChar_digit: "n < 16 \<Longrightarrow> fromHexChar (hex_digits ! n) = Some n"
  using fromHexChar_digits by (simp add: list_all_iff)

lemma of_char_less_256: "of_char c < (256 :: nat)"
  using mod_less_divisor [of 256 "of_char c :: nat"] by (simp only: of_char_mod_256)

lemma DecodeString_EncodeToString [simp]: "DecodeString (EncodeToString s) = Some s"
proof (induction s)
  case (Cons c s)
  have "(of_char c :: nat) div 16 < 16"
    using of_char_less_256 [of c] by (simp add: less_mult_imp_div_less)
  moreover have "16 * (of_char c div 16) + of_char c mod 16 = (of_char c :: nat)" by simp
  ultimately show ?case
    using Cons by (simp add: EncodeToString_def hex_byte_def fromHexChar_digit)
qed (simp add: EncodeToString_def)

lemma EncodeToString_inject: "EncodeToString s = EncodeToString t \<longleftrightarrow> s = t"
  by (metis DecodeString_EncodeToString option.inject)

lemma length_EncodeToString [simp]: "length (EncodeToString s) = 2 * length s"
  by (induction s) (simp_all add: EncodeToString_def hex_byte_def)

lemma set_EncodeToString: "set (EncodeToString s) \<subseteq> set hex_digits"
proof -
  have d: "n < 16 \<Longrightarrow> hex_digits ! n \<in> set hex_digits" for n
    by (rule nth_mem) (simp add: hex_digits_def)
  have b: "set (hex_byte c) \<subseteq> set hex_digits" for c
    using of_char_less_256 [of c] d [of "of_char c div 16"] d [of "of_char c mod 16"]
    by (simp add: hex_byte_def less_mult_imp_div_less)
  show ?thesis
    using b by (auto simp: EncodeToString_def)
qed

end
