(* ===== verification/HashChain.thy ===== *)
theory HashChain
  imports GoJson Sha256
begin

text \<open>
  \<open>internal/audit/hashchain.go\<close> and the event type of \<open>internal/audit/store.go\<close>: the canonical
  text of an audit event, the hash that links it to its predecessor and the check of a whole chain.
  \<open>json.Marshal\<close> cannot fail on a structure of strings and integers, so the error branches of
  \<open>canonicalizeEvent\<close> and \<open>ComputeHash\<close> are not represented.
\<close>

section \<open>Events\<close>

record StoredEvent =
  se_EventID :: string
  se_TsUnixNano :: int
  se_TraceID :: string
  se_SpanID :: string
  se_SessionID :: string
  se_RequestID :: string
  se_ClientID :: string
  se_Method :: string
  se_ToolName :: string
  se_UpstreamID :: string
  se_Decision :: string
  se_PolicyRule :: string
  se_Reason :: string
  se_ArgumentsJSON :: string
  se_ResponseJSON :: string
  se_ErrorJSON :: string
  se_DurationUs :: int
  se_PrevHash :: string
  se_EventHash :: string

definition canonicalizeEvent :: "StoredEvent \<Rightarrow> string" where
  "canonicalizeEvent e = json_object
     [(''event_id'', quote (se_EventID e)),
      (''ts_unix_nano'', show_int (se_TsUnixNano e)),
      (''trace_id'', quote (se_TraceID e)),
      (''span_id'', quote (se_SpanID e)),
      (''session_id'', quote (se_SessionID e)),
      (''request_id'', quote (se_RequestID e)),
      (''client_id'', quote (se_ClientID e)),
      (''method'', quote (se_Method e)),
      (''tool_name'', quote (se_ToolName e)),
      (''upstream_id'', quote (se_UpstreamID e)),
      (''decision'', quote (se_Decision e)),
      (''policy_rule'', quote (se_PolicyRule e)),
      (''reason'', quote (se_Reason e)),
      (''arguments_json'', quote (se_ArgumentsJSON e)),
      (''response_json'', quote (se_ResponseJSON e)),
      (''error_json'', quote (se_ErrorJSON e)),
      (''duration_us'', show_int (se_DurationUs e))]"

text \<open>The bytes that are hashed for an event: the predecessor's hash and the canonical text.\<close>

definition chain_message :: "string \<Rightarrow> StoredEvent \<Rightarrow> string" where
  "chain_message prevHash e = prevHash @ canonicalizeEvent e"

definition ComputeHash :: "string \<Rightarrow> StoredEvent \<Rightarrow> string" where
  "ComputeHash prevHash e = EncodeToString (Sum256 (chain_message prevHash e))"

section \<open>Checking a chain\<close>

text \<open>
  \<open>scanRows\<close> of the store: the callback sees the rows in order until it returns an error.  Its
  captured variables are the state \<open>st\<close>.
\<close>

fun scanRows :: "('st \<Rightarrow> 'e \<Rightarrow> 'err option \<times> 'st) \<Rightarrow> 'st \<Rightarrow> 'e list \<Rightarrow> 'err option \<times> 'st" where
  "scanRows fn st [] = (None, st)"
| "scanRows fn st (e # es) =
     (case fn st e of
        (Some err, st1) \<Rightarrow> (Some err, st1)
      | (None, st1) \<Rightarrow> scanRows fn st1 es)"

datatype chain_error =
    PrevHashMismatch string string string
  | HashMismatch string string string

definition verify_event :: "string \<Rightarrow> StoredEvent \<Rightarrow> chain_error option \<times> string" where
  "verify_event prevHash e =
     (if se_PrevHash e \<noteq> prevHash then
        (Some (PrevHashMismatch (se_EventID e) (se_PrevHash e) prevHash), prevHash)
      else let want = ComputeHash prevHash e in
        if se_EventHash e \<noteq> want then
          (Some (HashMismatch (se_EventID e) (se_EventHash e) want), prevHash)
        else (None, se_EventHash e))"

definition verify_rows :: "StoredEvent list \<Rightarrow> chain_error option" where
  "verify_rows es = fst (scanRows verify_event '''' es)"

section \<open>What a verified chain is\<close>

fun chain_ok :: "string \<Rightarrow> StoredEvent list \<Rightarrow> bool" where
  "chain_ok prev [] = True"
| "chain_ok prev (e # es) \<longleftrightarrow>
     se_PrevHash e = prev \<and> se_EventHash e = ComputeHash prev e \<and> chain_ok (se_EventHash e) es"

text \<open>The hash of the newest event, or the anchor when there is none.\<close>

definition chain_tip :: "string \<Rightarrow> StoredEvent list \<Rightarrow> string" where
  "chain_tip prev es = (if es = [] then prev else se_EventHash (last es))"

lemma chain_tip_simps [simp]:
  "chain_tip prev [] = prev"
  "chain_tip prev (es @ [e]) = se_EventHash e"
  "chain_tip prev (e # es) = chain_tip (se_EventHash e) es"
  by (simp_all add: chain_tip_def)

lemma chain_tip_append [simp]: "chain_tip prev (es @ fs) = chain_tip (chain_tip prev es) fs"
  by (simp add: chain_tip_def)

lemma scanRows_verify:
  "fst (scanRows verify_event prev es) = None \<longleftrightarrow> chain_ok prev es"
  by (induction es arbitrary: prev) (auto simp: verify_event_def Let_def)

lemma verify_rows_None [simp]: "verify_rows es = None \<longleftrightarrow> chain_ok '''' es"
  by (simp add: verify_rows_def scanRows_verify)

lemma chain_ok_append:
  "chain_ok prev (es @ fs) \<longleftrightarrow> chain_ok prev es \<and> chain_ok (chain_tip prev es) fs"
  by (induction es arbitrary: prev) auto

lemma ComputeHash_hash_fields [simp]:
  "ComputeHash prev (e\<lparr>se_PrevHash := p\<rparr>) = ComputeHash prev e"
  "ComputeHash prev (e\<lparr>se_EventHash := h\<rparr>) = ComputeHash prev e"
  by (simp_all add: ComputeHash_def chain_message_def canonicalizeEvent_def)

text \<open>\<open>link\<close> is what the writers do to one event: set the two hash fields.\<close>

definition link :: "string \<Rightarrow> StoredEvent \<Rightarrow> StoredEvent" where
  "link prev e = e\<lparr>se_PrevHash := prev, se_EventHash := ComputeHash prev e\<rparr>"

fun seal :: "string \<Rightarrow> StoredEvent list \<Rightarrow> StoredEvent list" where
  "seal prev [] = []"
| "seal prev (e # es) = link prev e # seal (ComputeHash prev e) es"

lemma link_simps [simp]:
  "se_PrevHash (link prev e) = prev" "se_EventHash (link prev e) = ComputeHash prev e"
  "se_EventID (link prev e) = se_EventID e" "se_TsUnixNano (link prev e) = se_TsUnixNano e"
  "se_SessionID (link prev e) = se_SessionID e"
  by (simp_all add: link_def)

lemma ComputeHash_link [simp]: "ComputeHash prev (link p e) = ComputeHash prev e"
  by (simp add: link_def)

lemma chain_ok_seal [simp]: "chain_ok prev (seal prev es)"
  by (induction es arbitrary: prev) simp_all

lemma length_seal [simp]: "length (seal prev es) = length es"
  by (induction es arbitrary: prev) simp_all

lemma seal_Nil_iff [simp]: "seal prev es = [] \<longleftrightarrow> es = []"
  by (cases es) simp_all

lemma map_seal:
  "(\<And>prev e. f (link prev e) = f e) \<Longrightarrow> map f (seal prev es) = map f es"
  by (induction es arbitrary: prev) simp_all

lemma seal_append: "seal prev (es @ fs) = seal prev es @ seal (chain_tip prev (seal prev es)) fs"
  by (induction es arbitrary: prev) simp_all

text \<open>Sealing leaves a chain that verifies as it is.\<close>

lemma seal_chain_ok: "chain_ok prev es \<Longrightarrow> seal prev es = es"
  by (induction es arbitrary: prev) (auto simp: link_def)

section \<open>The canonical text determines the event\<close>

definition valid_event :: "StoredEvent \<Rightarrow> bool" where
  "valid_event e \<longleftrightarrow> list_all valid_utf8
     [se_EventID e, se_TraceID e, se_SpanID e, se_SessionID e, se_RequestID e, se_ClientID e,
      se_Method e, se_ToolName e, se_UpstreamID e, se_Decision e, se_PolicyRule e, se_Reason e,
      se_ArgumentsJSON e, se_ResponseJSON e, se_ErrorJSON e]"

lemma quote_append_iff:
  "valid_utf8 s \<Longrightarrow> valid_utf8 t \<Longrightarrow> quote s @ r = quote t @ u \<longleftrightarrow> s = t \<and> r = u"
  using quote_append_cancel by blast

lemma show_int_append_iff:
  "\<not> digit_char c \<Longrightarrow> \<not> digit_char d \<Longrightarrow> show_int i @ c # r = show_int j @ d # u \<longleftrightarrow> i = j \<and> c # r = d # u"
  using show_int_append_cancel by blast

lemma canonicalizeEvent_inject:
  assumes "valid_event e" and "valid_event f"
    and "se_PrevHash e = se_PrevHash f" and "se_EventHash e = se_EventHash f"
    and "canonicalizeEvent e = canonicalizeEvent f"
  shows "e = f"
  using assms
  by (cases e; cases f)
    (simp add: canonicalizeEvent_def json_object_def json_member_def valid_event_def
      quote_append_iff show_int_append_iff digit_char_def)

lemma canonicalizeEvent_head: "\<exists>r. canonicalizeEvent e = CHR 0x7B # r"
  by (simp add: canonicalizeEvent_def json_object_def)

lemma ComputeHash_no_brace: "CHR 0x7B \<notin> set (ComputeHash prev e)"
  using set_EncodeToString [of "Sum256 (chain_message prev e)"]
  by (auto simp: ComputeHash_def hex_digits_def)

lemma length_ComputeHash [simp]: "length (ComputeHash prev e) = 64"
  by (simp add: ComputeHash_def)

lemma chain_message_inject:
  assumes "CHR 0x7B \<notin> set p" and "CHR 0x7B \<notin> set q" and "chain_message p e = chain_message q f"
  shows "p = q \<and> canonicalizeEvent e = canonicalizeEvent f"
proof -
  obtain r s where rs: "canonicalizeEvent e = CHR 0x7B # r" "canonicalizeEvent f = CHR 0x7B # s"
    using canonicalizeEvent_head by blast
  have "list_all (\<lambda>c. c \<noteq> CHR 0x7B) p" "list_all (\<lambda>c. c \<noteq> CHR 0x7B) q"
    using assms(1,2) by (auto simp: list_all_iff)
  then have "takeWhile (\<lambda>c. c \<noteq> CHR 0x7B) (p @ CHR 0x7B # r) = p"
    "takeWhile (\<lambda>c. c \<noteq> CHR 0x7B) (q @ CHR 0x7B # s) = q"
    by (simp_all add: takeWhile_stop)
  then have "p = q" using assms(3) unfolding chain_message_def rs by metis
  then show ?thesis using assms(3) by (simp add: chain_message_def)
qed

section \<open>Two chains with the same tip\<close>

text \<open>The byte strings hashed by a chain of events, oldest first.\<close>

fun chain_messages :: "string \<Rightarrow> StoredEvent list \<Rightarrow> string list" where
  "chain_messages prev [] = []"
| "chain_messages prev (e # es) = chain_message prev e # chain_messages (se_EventHash e) es"

lemma chain_messages_append [simp]:
  "chain_messages prev (es @ fs) = chain_messages prev es @ chain_messages (chain_tip prev es) fs"
  by (induction es arbitrary: prev) simp_all

definition sha_collision :: "string list \<Rightarrow> string list \<Rightarrow> bool" where
  "sha_collision ms ns \<longleftrightarrow> (\<exists>m \<in> set ms. \<exists>n \<in> set ns. m \<noteq> n \<and> Sum256 m = Sum256 n)"

lemma sha_collision_append: "sha_collision ms ns \<Longrightarrow> sha_collision (ms @ ms') (ns @ ns')"
  by (auto simp: sha_collision_def)

lemma chain_tip_no_brace: "chain_ok '''' es \<Longrightarrow> CHR 0x7B \<notin> set (chain_tip '''' es)"
  by (cases es rule: rev_cases) (simp_all add: chain_ok_append ComputeHash_no_brace)

lemma chain_tip_Nil_iff: "chain_ok '''' es \<Longrightarrow> chain_tip '''' es = '''' \<longleftrightarrow> es = []"
  by (cases es rule: rev_cases)
    (auto simp: chain_ok_append dest: arg_cong [where f = length])

lemma same_tip_same_chain:
  "chain_ok '''' xs \<Longrightarrow> chain_ok '''' ys \<Longrightarrow> list_all valid_event xs \<Longrightarrow> list_all valid_event ys \<Longrightarrow>
   chain_tip '''' xs = chain_tip '''' ys \<Longrightarrow>
   \<not> sha_collision (chain_messages '''' xs) (chain_messages '''' ys) \<Longrightarrow> xs = ys"
proof (induction xs arbitrary: ys rule: rev_induct)
  case Nil
  then show ?case using chain_tip_Nil_iff [of ys] by simp
next
  case (snoc e es)
  have "ys \<noteq> []" using snoc.prems(1,5) chain_tip_Nil_iff [of "es @ [e]"] by auto
  then obtain fs f where ys: "ys = fs @ [f]" by (cases ys rule: rev_cases) auto
  have e: "chain_ok '''' es" "se_PrevHash e = chain_tip '''' es" "se_EventHash e = ComputeHash (chain_tip '''' es) e"
    and f: "chain_ok '''' fs" "se_PrevHash f = chain_tip '''' fs" "se_EventHash f = ComputeHash (chain_tip '''' fs) f"
    using snoc.prems(1,2) by (simp_all add: ys chain_ok_append)
  have h: "se_EventHash e = se_EventHash f" using snoc.prems(5) by (simp add: ys)
  then have "Sum256 (chain_message (chain_tip '''' es) e) = Sum256 (chain_message (chain_tip '''' fs) f)"
    using e(3) f(3) by (simp add: ComputeHash_def EncodeToString_inject)
  then have "chain_message (chain_tip '''' es) e = chain_message (chain_tip '''' fs) f"
    using snoc.prems(6) by (auto simp: ys sha_collision_def)
  then have t: "chain_tip '''' es = chain_tip '''' fs" "canonicalizeEvent e = canonicalizeEvent f"
    using chain_message_inject [OF chain_tip_no_brace [OF e(1)] chain_tip_no_brace [OF f(1)]] by auto
  have "es = fs"
    using snoc.prems(3,4,6) sha_collision_append
    by (intro snoc.IH e(1) f(1) t(1)) (auto simp: ys)
  moreover have "e = f"
    using snoc.prems(3,4) e(2) f(2) t h by (intro canonicalizeEvent_inject) (simp_all add: ys)
  ultimately show ?case by (simp add: ys)
qed

section \<open>Properties\<close>

text \<open>
  C19: Tampering is visible.  All text fields being valid UTF-8: if a chain of events verifies and a
  different list of events (fewer, more, or altered ones, with hashes recomputed at will) verifies as
  well, then the two end with different hashes, or they contain two different messages with the same
  SHA-256 value.  So whoever remembers the newest hash detects every change of the history that is not
  a SHA-256 collision.
\<close>

theorem tampering_visible:
  assumes "verify_rows xs = None" and "verify_rows ys = None"
    and "list_all valid_event xs" and "list_all valid_event ys" and "xs \<noteq> ys"
  shows "chain_tip '''' xs \<noteq> chain_tip '''' ys \<or> sha_collision (chain_messages '''' xs) (chain_messages '''' ys)"
  using assms same_tip_same_chain by auto

definition sample_event :: "string \<Rightarrow> int \<Rightarrow> StoredEvent" where
  "sample_event i ts = \<lparr>se_EventID = i, se_TsUnixNano = ts, se_TraceID = '''', se_SpanID = '''',
     se_SessionID = ''s'', se_RequestID = ''1'', se_ClientID = ''c'', se_Method = ''tools/call'',
     se_ToolName = ''u__t'', se_UpstreamID = ''u'', se_Decision = ''allow'', se_PolicyRule = '''',
     se_Reason = '''', se_ArgumentsJSON = '''', se_ResponseJSON = '''', se_ErrorJSON = '''',
     se_DurationUs = 7, se_PrevHash = '''', se_EventHash = ''''\<rparr>"

lemma valid_event_link [simp]: "valid_event (link p e) = valid_event e"
  by (simp add: link_def valid_event_def)

lemma valid_event_seal [simp]: "list_all valid_event (seal p es) = list_all valid_event es"
  by (induction es arbitrary: p) simp_all

lemma sample_event_valid:
  "list_all (\<lambda>c. byte c < 128) i \<Longrightarrow> valid_event (sample_event i ts)"
  by (simp add: sample_event_def valid_event_def valid_utf8_ascii)

text \<open>
  A history of two events, and the same with the decision of the first one rewritten and both hashes
  recomputed: both verify, and the hash of the newest event tells them apart.
\<close>

theorem tampering_visible_witness:
  "let xs = seal '''' [sample_event ''a'' 1, sample_event ''b'' 2];
       ys = seal '''' [(sample_event ''a'' 1)\<lparr>se_Decision := ''deny''\<rparr>, sample_event ''b'' 2] in
   verify_rows xs = None \<and> verify_rows ys = None \<and>
   (chain_tip '''' xs \<noteq> chain_tip '''' ys \<or> sha_collision (chain_messages '''' xs) (chain_messages '''' ys))"
proof -
  let ?xs = "seal '''' [sample_event ''a'' 1, sample_event ''b'' 2]"
  let ?ys = "seal '''' [(sample_event ''a'' 1)\<lparr>se_Decision := ''deny''\<rparr>, sample_event ''b'' 2]"
  have v: "verify_rows ?xs = None" "verify_rows ?ys = None" by (simp_all del: seal.simps)
  have u: "list_all valid_event ?xs" "list_all valid_event ?ys"
    by (simp_all add: sample_event_valid del: seal.simps) (simp add: sample_event_def valid_event_def valid_utf8_ascii)
  have "se_Decision (hd ?xs) \<noteq> se_Decision (hd ?ys)" by (simp add: link_def sample_event_def)
  then have "?xs \<noteq> ?ys" by metis
  from tampering_visible [OF v u this] v show ?thesis by (simp only: Let_def)
qed

text \<open>
  The hypothesis on UTF-8 cannot be dropped: \<open>json.Marshal\<close> writes every byte that is not valid
  UTF-8 as the replacement character, so two events that differ in such a byte have the same
  canonical text and the same hash, and replacing one by the other is not detected.
\<close>

theorem invalid_utf8_undetected:
  "ComputeHash p (e\<lparr>se_Reason := [CHR 0xFE]\<rparr>) = ComputeHash p (e\<lparr>se_Reason := [CHR 0xFF]\<rparr>) \<and>
   e\<lparr>se_Reason := [CHR 0xFE]\<rparr> \<noteq> e\<lparr>se_Reason := [CHR 0xFF]\<rparr>"
proof -
  have "escape [CHR 0xFE] = escape [CHR 0xFF]"
    by (simp add: rune_shape_def)
  then have "canonicalizeEvent (e\<lparr>se_Reason := [CHR 0xFE]\<rparr>) = canonicalizeEvent (e\<lparr>se_Reason := [CHR 0xFF]\<rparr>)"
    by (simp add: canonicalizeEvent_def quote_def)
  moreover have "se_Reason (e\<lparr>se_Reason := [CHR 0xFE]\<rparr>) \<noteq> se_Reason (e\<lparr>se_Reason := [CHR 0xFF]\<rparr>)"
    by simp
  ultimately show ?thesis
    unfolding ComputeHash_def chain_message_def by metis
qed

end
