(* ===== verification/Config.thy ===== *)
theory Config
  imports GoTime
begin

text \<open>
  \<open>pkg/config/config.go\<close>: the raw configuration as the YAML decoder fills it (a missing string is
  empty, a missing pointer is \<open>None\<close>), and the validated runtime configuration built from it.
  Parameters: \<open>pd\<close> is \<open>time.ParseDuration\<close>, the YAML decoder and the file system are arguments of
  \<open>Load\<close>.
\<close>

section \<open>Raw configuration\<close>

record ServerConfig =
  sc_Listen :: string
  sc_MaxRequestBytes :: "int option"
  sc_InsecureAllowAnonymous :: bool
  sc_RequestTimeout :: string
  sc_ReadTimeout :: string
  sc_WriteTimeout :: string
  sc_IdleTimeout :: string
  sc_WarmupTimeout :: string
  sc_SessionTTL :: string
  sc_SessionMaxEntries :: "int option"
  sc_WarmupRetryInterval :: string

record AuthKeyConfig =
  ak_ID :: string
  ak_KeyHash :: string
  ak_ClientID :: string

record AuthConfig =
  ac_Type :: string
  ac_Keys :: "AuthKeyConfig list"

record UpstreamConfig =
  uc_ID :: string
  uc_Prefix :: string
  uc_URL :: string
  uc_Headers :: "(string \<times> string) list"
  uc_RequestTimeout :: string
  uc_MaxResponseBytes :: "int option"
  uc_ToolsCacheTTL :: string
  uc_RefreshTimeout :: string

record MetricsConfig =
  mc_Enabled :: bool
  mc_IncludeClientID :: bool

record AuditSQLiteConfig =
  asc_Path :: string
  asc_WAL :: bool
  asc_BusyTimeout :: string
  asc_Synchronous :: string

record AuditWriteConfig =
  awc_BatchMaxEvents :: int
  awc_BatchMaxDelay :: string
  awc_ChannelSize :: int
  awc_Mode :: string

record AuditRetentionConfig =
  arc_MaxAge :: string
  arc_MaxSize :: string
  arc_VacuumInterval :: string

record AuditIntegrityConfig =
  aic_HashChain :: bool
  aic_HashAlgorithm :: string

record AuditConfig =
  auc_Enabled :: bool
  auc_Backend :: string
  auc_SQLite :: AuditSQLiteConfig
  auc_Write :: AuditWriteConfig
  auc_Retention :: AuditRetentionConfig
  auc_Integrity :: AuditIntegrityConfig

record Config =
  cfg_Server :: ServerConfig
  cfg_Auth :: AuthConfig
  cfg_PolicyFile :: string
  cfg_Upstreams :: "UpstreamConfig list"
  cfg_Metrics :: MetricsConfig
  cfg_Audit :: AuditConfig

section \<open>Runtime configuration\<close>

record ServerRuntimeConfig =
  sr_Listen :: string
  sr_MaxRequestBytes :: int
  sr_RequestTimeout :: duration
  sr_ReadTimeout :: duration
  sr_WriteTimeout :: duration
  sr_IdleTimeout :: duration
  sr_WarmupTimeout :: duration
  sr_WarmupRetryInterval :: duration
  sr_SessionTTL :: duration
  sr_SessionMaxEntries :: int

record UpstreamRuntimeConfig =
  ur_ID :: string
  ur_Prefix :: string
  ur_URL :: string
  ur_Headers :: "(string \<times> string) list"
  ur_RequestTimeout :: duration
  ur_MaxResponseBytes :: int
  ur_ToolsCacheTTL :: duration
  ur_RefreshTimeout :: duration

record UpstreamManagerRuntimeConfig =
  um_ToolsCacheTTL :: duration
  um_RefreshTimeout :: duration

record RuntimeConfig =
  rt_Server :: ServerRuntimeConfig
  rt_Upstreams :: "UpstreamRuntimeConfig list"
  rt_UpstreamManager :: UpstreamManagerRuntimeConfig

definition defaultListen :: string where "defaultListen = '':8080''"
definition defaultServerRequestTimeout :: duration where "defaultServerRequestTimeout = 60 * Second"
definition defaultServerReadTimeout :: duration where "defaultServerReadTimeout = 30 * Second"
definition defaultServerWriteTimeout :: duration where "defaultServerWriteTimeout = 30 * Second"
definition defaultServerIdleTimeout :: duration where "defaultServerIdleTimeout = 120 * Second"
definition defaultServerWarmupTimeout :: duration where "defaultServerWarmupTimeout = 30 * Second"
definition defaultWarmupRetryInterval :: duration where "defaultWarmupRetryInterval = 5 * Second"
definition defaultServerMaxRequestBytes :: int where "defaultServerMaxRequestBytes = 2 ^ 20"
definition defaultSessionTTL :: duration where "defaultSessionTTL = 30 * Minute"
definition defaultSessionMaxEntries :: int where "defaultSessionMaxEntries = 10000"
definition defaultUpstreamRequestTimeout :: duration where "defaultUpstreamRequestTimeout = 30 * Second"
definition defaultUpstreamMaxRespBytes :: int where "defaultUpstreamMaxRespBytes = 4 * 2 ^ 20"
definition defaultUpstreamToolsCacheTTL :: duration where "defaultUpstreamToolsCacheTTL = 10 * Second"
definition defaultUpstreamRefreshTimeout :: duration where "defaultUpstreamRefreshTimeout = 30 * Second"

lemmas default_defs =
  defaultListen_def defaultServerRequestTimeout_def defaultServerReadTimeout_def
  defaultServerWriteTimeout_def defaultServerIdleTimeout_def defaultServerWarmupTimeout_def
  defaultWarmupRetryInterval_def defaultServerMaxRequestBytes_def defaultSessionTTL_def
  defaultSessionMaxEntries_def defaultUpstreamRequestTimeout_def defaultUpstreamMaxRespBytes_def
  defaultUpstreamToolsCacheTTL_def defaultUpstreamRefreshTimeout_def

section \<open>Values with defaults\<close>

datatype config_field = ServerField string | UpstreamField string string

datatype config_error =
    OpenConfig string
  | DecodeConfig string
  | FieldDuration config_field duration_error
  | FieldNotPositive config_field
  | UpstreamIDRequired nat
  | UpstreamPrefixRequired string
  | UpstreamURLRequired string
  | UpstreamIDNotUnique string
  | UpstreamPrefixNotUnique string

type_synonym pd_fn = "string \<Rightarrow> duration_error + duration"

definition parseDurationWithDefault ::
  "pd_fn \<Rightarrow> config_field \<Rightarrow> string \<Rightarrow> duration \<Rightarrow> config_error + duration" where
  "parseDurationWithDefault pd field raw dflt =
     (if raw = '''' then Inr dflt
      else case pd raw of
        Inl err \<Rightarrow> Inl (FieldDuration field err)
      | Inr d \<Rightarrow> if d \<le> 0 then Inl (FieldNotPositive field) else Inr d)"

definition parseIntWithDefault ::
  "config_field \<Rightarrow> int option \<Rightarrow> int \<Rightarrow> config_error + int" where
  "parseIntWithDefault field raw dflt =
     (case raw of
        None \<Rightarrow> Inr dflt
      | Some n \<Rightarrow> if n \<le> 0 then Inl (FieldNotPositive field) else Inr n)"

definition parseInt64WithDefault ::
  "config_field \<Rightarrow> int option \<Rightarrow> int \<Rightarrow> config_error + int" where
  "parseInt64WithDefault field raw dflt =
     (case raw of
        None \<Rightarrow> Inr dflt
      | Some n \<Rightarrow> if n \<le> 0 then Inl (FieldNotPositive field) else Inr n)"

definition minDuration :: "duration \<Rightarrow> duration \<Rightarrow> duration" where
  "minDuration a b = (if b < a then b else a)"

text \<open>The early return on an error: the rest runs only with a value.\<close>

definition and_then :: "('err + 'v) \<Rightarrow> ('v \<Rightarrow> ('err + 'w)) \<Rightarrow> 'err + 'w" where
  "and_then result rest = (case result of Inl err \<Rightarrow> Inl err | Inr v \<Rightarrow> rest v)"

lemma and_then_simps [simp]: "and_then (Inl e) f = Inl e" "and_then (Inr a) f = f a"
  by (simp_all add: and_then_def)

lemma and_then_Inr: "and_then m f = Inr b \<longleftrightarrow> (\<exists>a. m = Inr a \<and> f a = Inr b)"
  by (cases m) simp_all

section \<open>buildServerRuntime\<close>

definition buildServerRuntime :: "pd_fn \<Rightarrow> ServerConfig \<Rightarrow> config_error + ServerRuntimeConfig" where
  "buildServerRuntime pd srv =
     and_then (parseDurationWithDefault pd (ServerField ''server.request_timeout'') (sc_RequestTimeout srv) defaultServerRequestTimeout) (\<lambda>requestTimeout.
     and_then (parseDurationWithDefault pd (ServerField ''server.read_timeout'') (sc_ReadTimeout srv) defaultServerReadTimeout) (\<lambda>readTimeout.
     and_then (parseDurationWithDefault pd (ServerField ''server.write_timeout'') (sc_WriteTimeout srv) defaultServerWriteTimeout) (\<lambda>writeTimeout.
     and_then (parseDurationWithDefault pd (ServerField ''server.idle_timeout'') (sc_IdleTimeout srv) defaultServerIdleTimeout) (\<lambda>idleTimeout.
     and_then (parseDurationWithDefault pd (ServerField ''server.warmup_timeout'') (sc_WarmupTimeout srv) defaultServerWarmupTimeout) (\<lambda>warmupTimeout.
     and_then (parseDurationWithDefault pd (ServerField ''server.warmup_retry_interval'') (sc_WarmupRetryInterval srv) defaultWarmupRetryInterval) (\<lambda>warmupRetryInterval.
     and_then (parseDurationWithDefault pd (ServerField ''server.session_ttl'') (sc_SessionTTL srv) defaultSessionTTL) (\<lambda>sessionTTL.
     and_then (parseInt64WithDefault (ServerField ''server.max_request_bytes'') (sc_MaxRequestBytes srv) defaultServerMaxRequestBytes) (\<lambda>maxRequestBytes.
     and_then (parseIntWithDefault (ServerField ''server.session_max_entries'') (sc_SessionMaxEntries srv) defaultSessionMaxEntries) (\<lambda>sessionMaxEntries.
       Inr \<lparr>sr_Listen = (if sc_Listen srv = '''' then defaultListen else sc_Listen srv),
            sr_MaxRequestBytes = maxRequestBytes, sr_RequestTimeout = requestTimeout,
            sr_ReadTimeout = readTimeout, sr_WriteTimeout = writeTimeout,
            sr_IdleTimeout = idleTimeout, sr_WarmupTimeout = warmupTimeout,
            sr_WarmupRetryInterval = warmupRetryInterval, sr_SessionTTL = sessionTTL,
            sr_SessionMaxEntries = sessionMaxEntries\<rparr>)))))))))"

section \<open>buildUpstreamRuntime\<close>

text \<open>The checks at the start of the loop body; \<open>ids\<close> and \<open>pfxs\<close> are the sets seen so far.\<close>

definition check_upstream ::
  "nat \<Rightarrow> string set \<Rightarrow> string set \<Rightarrow> UpstreamConfig \<Rightarrow> config_error option" where
  "check_upstream i ids pfxs u =
     (if uc_ID u = '''' then Some (UpstreamIDRequired i)
      else if uc_Prefix u = '''' then Some (UpstreamPrefixRequired (uc_ID u))
      else if uc_URL u = '''' then Some (UpstreamURLRequired (uc_ID u))
      else if uc_ID u \<in> ids then Some (UpstreamIDNotUnique (uc_ID u))
      else if uc_Prefix u \<in> pfxs then Some (UpstreamPrefixNotUnique (uc_Prefix u))
      else None)"

definition upstream_values :: "pd_fn \<Rightarrow> UpstreamConfig \<Rightarrow> config_error + UpstreamRuntimeConfig" where
  "upstream_values pd u =
     and_then (parseDurationWithDefault pd (UpstreamField (uc_ID u) ''request_timeout'') (uc_RequestTimeout u) defaultUpstreamRequestTimeout) (\<lambda>requestTimeout.
     and_then (parseInt64WithDefault (UpstreamField (uc_ID u) ''max_response_bytes'') (uc_MaxResponseBytes u) defaultUpstreamMaxRespBytes) (\<lambda>maxResponseBytes.
     and_then (parseDurationWithDefault pd (UpstreamField (uc_ID u) ''tools_cache_ttl'') (uc_ToolsCacheTTL u) defaultUpstreamToolsCacheTTL) (\<lambda>cacheTTL.
     and_then (parseDurationWithDefault pd (UpstreamField (uc_ID u) ''refresh_timeout'') (uc_RefreshTimeout u) defaultUpstreamRefreshTimeout) (\<lambda>refreshTimeout.
       Inr \<lparr>ur_ID = uc_ID u, ur_Prefix = uc_Prefix u, ur_URL = uc_URL u, ur_Headers = uc_Headers u,
            ur_RequestTimeout = requestTimeout, ur_MaxResponseBytes = maxResponseBytes,
            ur_ToolsCacheTTL = cacheTTL, ur_RefreshTimeout = refreshTimeout\<rparr>))))"

text \<open>\<open>manager\<close> together with \<open>managerSet\<close> is an option.\<close>

definition merge_manager ::
  "UpstreamManagerRuntimeConfig option \<Rightarrow> UpstreamRuntimeConfig \<Rightarrow> UpstreamManagerRuntimeConfig" where
  "merge_manager manager r =
     (case manager of
        None \<Rightarrow> \<lparr>um_ToolsCacheTTL = ur_ToolsCacheTTL r, um_RefreshTimeout = ur_RefreshTimeout r\<rparr>
      | Some m \<Rightarrow> \<lparr>um_ToolsCacheTTL = minDuration (um_ToolsCacheTTL m) (ur_ToolsCacheTTL r),
                   um_RefreshTimeout = minDuration (um_RefreshTimeout m) (ur_RefreshTimeout r)\<rparr>)"

fun upstream_loop ::
  "pd_fn \<Rightarrow> nat \<Rightarrow> string set \<Rightarrow> string set \<Rightarrow> UpstreamManagerRuntimeConfig option \<Rightarrow> UpstreamConfig list
   \<Rightarrow> config_error + UpstreamRuntimeConfig list \<times> UpstreamManagerRuntimeConfig option" where
  "upstream_loop pd i ids pfxs manager [] = Inr ([], manager)"
| "upstream_loop pd i ids pfxs manager (u # us) =
     (case check_upstream i ids pfxs u of
        Some err \<Rightarrow> Inl err
      | None \<Rightarrow>
        and_then (upstream_values pd u) (\<lambda>r.
        and_then (upstream_loop pd (Suc i) (insert (uc_ID u) ids) (insert (uc_Prefix u) pfxs)
            (Some (merge_manager manager r)) us) (\<lambda>(rs, m). Inr (r # rs, m))))"

definition buildUpstreamRuntime ::
  "pd_fn \<Rightarrow> UpstreamConfig list \<Rightarrow> config_error + UpstreamRuntimeConfig list \<times> UpstreamManagerRuntimeConfig" where
  "buildUpstreamRuntime pd upstreams =
     and_then (upstream_loop pd 0 {} {} None upstreams) (\<lambda>(rs, manager).
       Inr (rs, case manager of
          None \<Rightarrow> \<lparr>um_ToolsCacheTTL = defaultUpstreamToolsCacheTTL, um_RefreshTimeout = defaultUpstreamRefreshTimeout\<rparr>
        | Some m \<Rightarrow> m))"

definition buildRuntime :: "pd_fn \<Rightarrow> Config \<Rightarrow> config_error + RuntimeConfig" where
  "buildRuntime pd cfg =
     and_then (buildServerRuntime pd (cfg_Server cfg)) (\<lambda>srv.
     and_then (buildUpstreamRuntime pd (cfg_Upstreams cfg)) (\<lambda>(upstreams, manager).
       Inr \<lparr>rt_Server = srv, rt_Upstreams = upstreams, rt_UpstreamManager = manager\<rparr>))"

section \<open>Load\<close>

text \<open>\<open>os.ExpandEnv\<close>: \<open>getShellName\<close> returns the variable name after a dollar sign and how many bytes to skip.\<close>

definition isShellSpecialVar :: "char \<Rightarrow> bool" where
  "isShellSpecialVar c \<longleftrightarrow> c \<in> set ''*#$@!?-'' \<or> is_digit c"

definition within :: "char \<Rightarrow> char \<Rightarrow> char \<Rightarrow> bool" where
  "within lo c hi \<longleftrightarrow> lo \<le> c \<and> c \<le> hi"

definition isAlphaNum :: "char \<Rightarrow> bool" where
  "isAlphaNum c \<longleftrightarrow> c = CHR ''_'' \<or> is_digit c \<or> within CHR ''a'' c CHR ''z'' \<or> within CHR ''A'' c CHR ''Z''"

definition getShellName :: "string \<Rightarrow> string \<times> nat" where
  "getShellName s =
     (if s \<noteq> [] \<and> hd s = CHR 0x7B then
        (if length s > 2 \<and> isShellSpecialVar (s ! 1) \<and> s ! 2 = CHR 0x7D then ([s ! 1], 3)
         else let name = takeWhile (\<lambda>c. c \<noteq> CHR 0x7D) (tl s)
           in if length name = length (tl s) then ('''', 1)
              else if name = '''' then ('''', 2)
              else (name, length name + 2))
      else if s \<noteq> [] \<and> isShellSpecialVar (hd s) then ([hd s], 1)
      else let name = takeWhile isAlphaNum s in (name, length name))"

function ExpandEnv :: "(string \<Rightarrow> string) \<Rightarrow> string \<Rightarrow> string" where
  "ExpandEnv env [] = []"
| "ExpandEnv env (c # s) =
     (if c = CHR ''$'' \<and> s \<noteq> [] then
        (let (name, w) = getShellName s
         in (if name = '''' \<and> w > 0 then '''' else if name = '''' then [c] else env name)
            @ ExpandEnv env (drop w s))
      else c # ExpandEnv env s)"
  by pat_completeness auto
termination by (relation "measure (\<lambda>(env, s). length s)") auto

definition Load ::
  "(string \<Rightarrow> string + string) \<Rightarrow> (string \<Rightarrow> string) \<Rightarrow> (string \<Rightarrow> string + Config) \<Rightarrow> string \<Rightarrow> config_error + Config" where
  "Load readFile env yaml path =
     (case readFile path of
        Inl err \<Rightarrow> Inl (OpenConfig err)
      | Inr raw \<Rightarrow>
        (case yaml (ExpandEnv env raw) of
           Inl err \<Rightarrow> Inl (DecodeConfig err)
         | Inr cfg \<Rightarrow> Inr cfg))"

lemma ExpandEnv_plain: "CHR ''$'' \<notin> set s \<Longrightarrow> ExpandEnv env s = s"
  by (induction s) auto

section \<open>What a runtime configuration satisfies\<close>

lemma default_pos:
  "0 < defaultServerRequestTimeout" "0 < defaultServerReadTimeout" "0 < defaultServerWriteTimeout"
  "0 < defaultServerIdleTimeout" "0 < defaultServerWarmupTimeout" "0 < defaultWarmupRetryInterval"
  "0 < defaultServerMaxRequestBytes" "0 < defaultSessionTTL" "0 < defaultSessionMaxEntries"
  "0 < defaultUpstreamRequestTimeout" "0 < defaultUpstreamMaxRespBytes"
  "0 < defaultUpstreamToolsCacheTTL" "0 < defaultUpstreamRefreshTimeout"
  by (simp_all add: default_defs time_units)

lemma parseDurationWithDefault_pos:
  "parseDurationWithDefault pd f raw d = Inr v \<Longrightarrow> 0 < d \<Longrightarrow> 0 < v"
  by (auto simp: parseDurationWithDefault_def split: if_splits sum.splits)

lemma parseIntWithDefault_pos: "parseIntWithDefault f raw d = Inr v \<Longrightarrow> 0 < d \<Longrightarrow> 0 < v"
  by (auto simp: parseIntWithDefault_def split: if_splits option.splits)

lemma parseInt64WithDefault_pos: "parseInt64WithDefault f raw d = Inr v \<Longrightarrow> 0 < d \<Longrightarrow> 0 < v"
  by (auto simp: parseInt64WithDefault_def split: if_splits option.splits)

lemmas with_default_pos =
  parseDurationWithDefault_pos parseIntWithDefault_pos parseInt64WithDefault_pos

definition server_ok :: "ServerRuntimeConfig \<Rightarrow> bool" where
  "server_ok r \<longleftrightarrow> sr_Listen r \<noteq> '''' \<and> 0 < sr_MaxRequestBytes r \<and> 0 < sr_RequestTimeout r \<and>
     0 < sr_ReadTimeout r \<and> 0 < sr_WriteTimeout r \<and> 0 < sr_IdleTimeout r \<and> 0 < sr_WarmupTimeout r \<and>
     0 < sr_WarmupRetryInterval r \<and> 0 < sr_SessionTTL r \<and> 0 < sr_SessionMaxEntries r"

definition upstream_ok :: "UpstreamRuntimeConfig \<Rightarrow> bool" where
  "upstream_ok r \<longleftrightarrow> ur_ID r \<noteq> '''' \<and> ur_Prefix r \<noteq> '''' \<and> ur_URL r \<noteq> '''' \<and> 0 < ur_RequestTimeout r \<and>
     0 < ur_MaxResponseBytes r \<and> 0 < ur_ToolsCacheTTL r \<and> 0 < ur_RefreshTimeout r"

lemma buildServerRuntime_ok: "buildServerRuntime pd srv = Inr r \<Longrightarrow> server_ok r"
  unfolding buildServerRuntime_def and_then_Inr server_ok_def
  by (elim exE conjE) (auto intro: with_default_pos default_pos simp: defaultListen_def split: if_splits)

definition same_upstream :: "UpstreamConfig \<Rightarrow> UpstreamRuntimeConfig \<Rightarrow> bool" where
  "same_upstream u r \<longleftrightarrow> ur_ID r = uc_ID u \<and> ur_Prefix r = uc_Prefix u \<and> ur_URL r = uc_URL u \<and>
     ur_Headers r = uc_Headers u"

lemma upstream_values_ok:
  "upstream_values pd u = Inr r \<Longrightarrow> check_upstream i ids pfxs u = None \<Longrightarrow>
   upstream_ok r \<and> same_upstream u r"
  unfolding upstream_values_def and_then_Inr upstream_ok_def check_upstream_def same_upstream_def
  by (elim exE conjE) (auto intro: with_default_pos default_pos split: if_splits)

lemma minDuration_min: "minDuration a b = min a b"
  by (simp add: minDuration_def min_def)

text \<open>The smallest value of a list, starting from an optional one.\<close>

fun min_of :: "int option \<Rightarrow> int list \<Rightarrow> int option" where
  "min_of acc [] = acc"
| "min_of acc (x # xs) = min_of (Some (case acc of None \<Rightarrow> x | Some m \<Rightarrow> min m x)) xs"

lemma min_of_Min:
  "min_of None (x # xs) = Some (Min (set (x # xs)))"
proof -
  have "min_of (Some m) ys = Some (Min (insert m (set ys)))" for m ys
    by (induction ys arbitrary: m) (simp_all add: min.commute insert_commute, metis Min_insert
        finite_insert finite_set insert_not_empty min.assoc min.commute Min_singleton)
  then show ?thesis by simp
qed

lemma upstream_loop_ok:
  "upstream_loop pd i ids pfxs manager us = Inr (rs, m) \<Longrightarrow>
   list_all upstream_ok rs \<and> list_all2 same_upstream us rs \<and>
   distinct (map ur_ID rs) \<and> set (map ur_ID rs) \<inter> ids = {} \<and>
   distinct (map ur_Prefix rs) \<and> set (map ur_Prefix rs) \<inter> pfxs = {} \<and>
   map_option um_ToolsCacheTTL m = min_of (map_option um_ToolsCacheTTL manager) (map ur_ToolsCacheTTL rs) \<and>
   map_option um_RefreshTimeout m = min_of (map_option um_RefreshTimeout manager) (map ur_RefreshTimeout rs)"
proof (induction us arbitrary: i ids pfxs manager rs)
  case (Cons u us)
  obtain r rs' where c: "check_upstream i ids pfxs u = None" and v: "upstream_values pd u = Inr r"
    and l: "upstream_loop pd (Suc i) (insert (uc_ID u) ids) (insert (uc_Prefix u) pfxs)
      (Some (merge_manager manager r)) us = Inr (rs', m)" and rs: "rs = r # rs'"
    using Cons.prems by (auto simp: and_then_Inr split: option.splits)
  have "uc_ID u \<notin> ids" "uc_Prefix u \<notin> pfxs"
    using c by (auto simp: check_upstream_def split: if_splits)
  then show ?case
    using Cons.IH [OF l] upstream_values_ok [OF v c]
    by (auto simp: rs same_upstream_def merge_manager_def minDuration_min split: option.splits)
qed simp

lemma buildUpstreamRuntime_ok:
  assumes "buildUpstreamRuntime pd us = Inr (rs, m)"
  shows "list_all upstream_ok rs \<and> list_all2 same_upstream us rs \<and>
    distinct (map ur_ID rs) \<and> distinct (map ur_Prefix rs) \<and>
    (if rs = [] then m = \<lparr>um_ToolsCacheTTL = defaultUpstreamToolsCacheTTL,
        um_RefreshTimeout = defaultUpstreamRefreshTimeout\<rparr>
     else um_ToolsCacheTTL m = Min (set (map ur_ToolsCacheTTL rs)) \<and>
       um_RefreshTimeout m = Min (set (map ur_RefreshTimeout rs)))"
proof -
  obtain mo where l: "upstream_loop pd 0 {} {} None us = Inr (rs, mo)"
    and m: "m = (case mo of None \<Rightarrow> \<lparr>um_ToolsCacheTTL = defaultUpstreamToolsCacheTTL,
        um_RefreshTimeout = defaultUpstreamRefreshTimeout\<rparr> | Some x \<Rightarrow> x)"
    using assms by (auto simp: buildUpstreamRuntime_def and_then_Inr)
  note ok = upstream_loop_ok [OF l]
  show ?thesis
  proof (cases rs)
    case Nil
    then show ?thesis using ok m by simp
  next
    case (Cons r rs')
    then have "map_option um_ToolsCacheTTL mo = Some (Min (set (map ur_ToolsCacheTTL rs)))"
      "map_option um_RefreshTimeout mo = Some (Min (set (map ur_RefreshTimeout rs)))"
      using ok by (simp_all only: list.map option.map min_of_Min)
    then show ?thesis using ok m Cons by (auto simp del: min_of.simps)
  qed
qed

section \<open>Properties\<close>

lemma buildRuntime_facts:
  assumes "buildRuntime pd cfg = Inr rt"
  shows "server_ok (rt_Server rt) \<and> list_all upstream_ok (rt_Upstreams rt) \<and>
    list_all2 same_upstream (cfg_Upstreams cfg) (rt_Upstreams rt) \<and>
    distinct (map ur_ID (rt_Upstreams rt)) \<and> distinct (map ur_Prefix (rt_Upstreams rt)) \<and>
    0 < um_ToolsCacheTTL (rt_UpstreamManager rt) \<and> 0 < um_RefreshTimeout (rt_UpstreamManager rt) \<and>
    (rt_Upstreams rt \<noteq> [] \<longrightarrow>
      um_ToolsCacheTTL (rt_UpstreamManager rt) = Min (set (map ur_ToolsCacheTTL (rt_Upstreams rt))) \<and>
      um_RefreshTimeout (rt_UpstreamManager rt) = Min (set (map ur_RefreshTimeout (rt_Upstreams rt))))"
proof -
  obtain srv us m where s: "buildServerRuntime pd (cfg_Server cfg) = Inr srv"
    and u: "buildUpstreamRuntime pd (cfg_Upstreams cfg) = Inr (us, m)"
    and rt: "rt = \<lparr>rt_Server = srv, rt_Upstreams = us, rt_UpstreamManager = m\<rparr>"
    using assms by (auto simp: buildRuntime_def and_then_Inr)
  note ok = buildUpstreamRuntime_ok [OF u]
  have "0 < um_ToolsCacheTTL m \<and> 0 < um_RefreshTimeout m"
  proof (cases "us = []")
    case False
    then have "um_ToolsCacheTTL m \<in> set (map ur_ToolsCacheTTL us)"
      "um_RefreshTimeout m \<in> set (map ur_RefreshTimeout us)"
      using ok by simp_all
    then show ?thesis using ok by (auto simp: list_all_iff upstream_ok_def)
  qed (use ok default_pos in simp)
  then show ?thesis
    using ok buildServerRuntime_ok [OF s] by (simp add: rt split: if_splits)
qed

text \<open>
  C37: What a runtime configuration guarantees to the server.  Every duration, size limit and count
  is positive, whatever the file left out; the upstreams are those of the file in their order, with
  non-empty and pairwise distinct ids and prefixes; and the shared manager works with the smallest
  cache lifetime and the smallest refresh timeout of all upstreams.
\<close>

theorem buildRuntime_ok:
  assumes "buildRuntime pd cfg = Inr rt"
  shows "server_ok (rt_Server rt) \<and> list_all upstream_ok (rt_Upstreams rt) \<and>
    list_all2 same_upstream (cfg_Upstreams cfg) (rt_Upstreams rt) \<and>
    distinct (map ur_ID (rt_Upstreams rt)) \<and> distinct (map ur_Prefix (rt_Upstreams rt)) \<and>
    0 < um_ToolsCacheTTL (rt_UpstreamManager rt) \<and> 0 < um_RefreshTimeout (rt_UpstreamManager rt) \<and>
    (rt_Upstreams rt \<noteq> [] \<longrightarrow>
      um_ToolsCacheTTL (rt_UpstreamManager rt) = Min (set (map ur_ToolsCacheTTL (rt_Upstreams rt))) \<and>
      um_RefreshTimeout (rt_UpstreamManager rt) = Min (set (map ur_RefreshTimeout (rt_Upstreams rt))))"
  using assms by (rule buildRuntime_facts)

definition sample_upstream :: "string \<Rightarrow> string \<Rightarrow> UpstreamConfig" where
  "sample_upstream i ttl = \<lparr>uc_ID = i, uc_Prefix = i, uc_URL = ''http://'' @ i, uc_Headers = [],
     uc_RequestTimeout = '''', uc_MaxResponseBytes = None, uc_ToolsCacheTTL = ttl, uc_RefreshTimeout = ''''\<rparr>"

definition sample_server :: ServerConfig where
  "sample_server = \<lparr>sc_Listen = '''', sc_MaxRequestBytes = None, sc_InsecureAllowAnonymous = False,
     sc_RequestTimeout = '''', sc_ReadTimeout = '''', sc_WriteTimeout = '''', sc_IdleTimeout = '''',
     sc_WarmupTimeout = '''', sc_SessionTTL = '''', sc_SessionMaxEntries = Some 5, sc_WarmupRetryInterval = ''''\<rparr>"

definition sample_config :: Config where
  "sample_config = \<lparr>cfg_Server = sample_server, cfg_Auth = \<lparr>ac_Type = '''', ac_Keys = []\<rparr>,
     cfg_PolicyFile = '''', cfg_Upstreams = [sample_upstream ''a'' ''30s'', sample_upstream ''b'' ''''],
     cfg_Metrics = \<lparr>mc_Enabled = False, mc_IncludeClientID = False\<rparr>,
     cfg_Audit = \<lparr>auc_Enabled = False, auc_Backend = '''',
       auc_SQLite = \<lparr>asc_Path = '''', asc_WAL = False, asc_BusyTimeout = '''', asc_Synchronous = ''''\<rparr>,
       auc_Write = \<lparr>awc_BatchMaxEvents = 0, awc_BatchMaxDelay = '''', awc_ChannelSize = 0, awc_Mode = ''''\<rparr>,
       auc_Retention = \<lparr>arc_MaxAge = '''', arc_MaxSize = '''', arc_VacuumInterval = ''''\<rparr>,
       auc_Integrity = \<lparr>aic_HashChain = False, aic_HashAlgorithm = ''''\<rparr>\<rparr>\<rparr>"

lemmas sample_config_defs = sample_config_def sample_server_def sample_upstream_def

text \<open>Two upstreams, one with a cache lifetime of 30 s and one with the default of 10 s.\<close>

theorem buildRuntime_ok_witness:
  "um_ToolsCacheTTL (rt_UpstreamManager
     (projr (buildRuntime (ParseDuration (\<lambda>_ _ _. 0)) sample_config))) = 10 * Second"
proof -
  define rt where "rt = projr (buildRuntime (ParseDuration (\<lambda>_ _ _. 0)) sample_config)"
  have b: "buildRuntime (ParseDuration (\<lambda>_ _ _. 0)) sample_config = Inr rt"
    and u: "map ur_ToolsCacheTTL (rt_Upstreams rt) = [30 * Second, 10 * Second]"
    by (simp_all add: rt_def buildRuntime_def sample_config_defs buildServerRuntime_def
        buildUpstreamRuntime_def parseDurationWithDefault_def parseInt64WithDefault_def
        parseIntWithDefault_def check_upstream_def upstream_values_def ParseDuration_30s
        default_defs time_units)
  have "rt_Upstreams rt \<noteq> []" using u by auto
  then have "um_ToolsCacheTTL (rt_UpstreamManager rt) = Min (set [30 * Second, 10 * Second])"
    using buildRuntime_ok [OF b] u by simp
  then show ?thesis by (simp add: rt_def time_units)
qed

end
