(* ===== verification/AuditStore.thy ===== *)
theory AuditStore
  imports HashChain Config
begin

text \<open>
  \<open>internal/audit/store.go\<close> and \<open>internal/audit/sqlite_store.go\<close>: the table \<open>audit_events\<close> as a
  list of rows, with one definition for each operation, following the text of its SQL statements.
  SQLite itself is not under \<open>src/\<close>: whether a statement fails is an argument of type \<open>fault\<close>
  (\<open>None\<close>: it succeeds), and the sizes of the database files are the answers of a function
  \<open>stat\<close>.  A failing transaction leaves the table as it was.
\<close>

section \<open>The order of the history\<close>

text \<open>\<open>ORDER BY ts_unix_nano, event_id\<close>; text compares byte by byte.\<close>

datatype event_key = EventKey (key_ts: int) (key_id: string)

instantiation event_key :: linorder
begin

definition less_eq_event_key :: "event_key \<Rightarrow> event_key \<Rightarrow> bool" where
  "less_eq_event_key a b \<longleftrightarrow> key_ts a < key_ts b \<or> key_ts a = key_ts b \<and> key_id a \<le> key_id b"

definition less_event_key :: "event_key \<Rightarrow> event_key \<Rightarrow> bool" where
  "less_event_key a b \<longleftrightarrow> key_ts a < key_ts b \<or> key_ts a = key_ts b \<and> key_id a < key_id b"

instance
  by intro_classes
    (auto simp: less_eq_event_key_def less_event_key_def intro: event_key.expand)

end

definition event_key :: "StoredEvent \<Rightarrow> event_key" where
  "event_key e = EventKey (se_TsUnixNano e) (se_EventID e)"

lemma event_key_link [simp]: "event_key (link p e) = event_key e"
  by (simp add: event_key_def)

section \<open>The table\<close>

type_synonym rows = "StoredEvent list"
type_synonym fault = "string option"

datatype store_error = SqlError string | UniqueViolation string | StatError string

record sqliteStore =
  ss_path :: string
  ss_rows :: rows

definition ordered :: "rows \<Rightarrow> StoredEvent list" where
  "ordered r = sort_key event_key r"

fun insert_rows :: "rows \<Rightarrow> StoredEvent list \<Rightarrow> store_error + rows" where
  "insert_rows r [] = Inr r"
| "insert_rows r (e # es) =
     (if se_EventID e \<in> set (map se_EventID r) then Inl (UniqueViolation (se_EventID e))
      else insert_rows (r @ [e]) es)"

definition InsertBatch ::
  "fault \<Rightarrow> StoredEvent list \<Rightarrow> sqliteStore \<Rightarrow> store_error option \<times> sqliteStore" where
  "InsertBatch f events s =
     (if length events = 0 then (None, s)
      else case f of
        Some msg \<Rightarrow> (Some (SqlError msg), s)
      | None \<Rightarrow>
        (case insert_rows (ss_rows s) events of
           Inl err \<Rightarrow> (Some err, s)
         | Inr r \<Rightarrow> (None, s\<lparr>ss_rows := r\<rparr>)))"

text \<open>\<open>ORDER BY ts_unix_nano DESC, event_id DESC LIMIT 1\<close>.\<close>

definition LastHash :: "fault \<Rightarrow> sqliteStore \<Rightarrow> store_error + string" where
  "LastHash f s =
     (case f of
        Some msg \<Rightarrow> Inl (SqlError msg)
      | None \<Rightarrow> (case rev (ordered (ss_rows s)) of [] \<Rightarrow> Inr '''' | e # _ \<Rightarrow> Inr (se_EventHash e)))"

text \<open>
  \<open>Scan\<close>: the zero time (\<open>None\<close>) stands for no lower bound and is sent to SQLite as 0, another time as
  its \<open>UnixNano\<close>, which wraps around beyond 64 bits.  The error of the
  callback or of the query ends it.
\<close>

definition Scan ::
  "fault \<Rightarrow> instant option \<Rightarrow> ('st \<Rightarrow> StoredEvent \<Rightarrow> 'err option \<times> 'st) \<Rightarrow> 'st \<Rightarrow> sqliteStore
   \<Rightarrow> (store_error + 'err) option \<times> 'st" where
  "Scan f since fn st s =
     (case f of
        Some msg \<Rightarrow> (Some (Inl (SqlError msg)), st)
      | None \<Rightarrow>
        (let sinceNano = (case since of None \<Rightarrow> 0 | Some t \<Rightarrow> int64 t);
             (err, st1) = scanRows fn st (filter (\<lambda>e. sinceNano \<le> se_TsUnixNano e) (ordered (ss_rows s)))
         in (map_option Inr err, st1)))"

definition ScanSession ::
  "fault \<Rightarrow> string \<Rightarrow> ('st \<Rightarrow> StoredEvent \<Rightarrow> 'err option \<times> 'st) \<Rightarrow> 'st \<Rightarrow> sqliteStore
   \<Rightarrow> (store_error + 'err) option \<times> 'st" where
  "ScanSession f sessionID fn st s =
     (case f of
        Some msg \<Rightarrow> (Some (Inl (SqlError msg)), st)
      | None \<Rightarrow>
        (let (err, st1) = scanRows fn st (filter (\<lambda>e. se_SessionID e = sessionID) (ordered (ss_rows s)))
         in (map_option Inr err, st1)))"

text \<open>\<open>VerifyChain\<close> of \<open>hashchain.go\<close>, through \<open>Scan\<close>.\<close>

definition VerifyChain :: "fault \<Rightarrow> sqliteStore \<Rightarrow> (store_error + chain_error) option" where
  "VerifyChain f s = fst (Scan f None verify_event '''' s)"

definition DeleteBefore ::
  "fault \<Rightarrow> instant \<Rightarrow> sqliteStore \<Rightarrow> (store_error + nat) \<times> sqliteStore" where
  "DeleteBefore f cutoff s =
     (case f of
        Some msg \<Rightarrow> (Inl (SqlError msg), s)
      | None \<Rightarrow>
        (let kept = filter (\<lambda>e. \<not> se_TsUnixNano e < cutoff) (ss_rows s)
         in (Inr (length (ss_rows s) - length kept), s\<lparr>ss_rows := kept\<rparr>)))"

section \<open>Size\<close>

datatype stat_result = FileSize int | NotExist | StatFailed string

fun sum_sizes :: "(string \<Rightarrow> stat_result) \<Rightarrow> string \<Rightarrow> int \<Rightarrow> string list \<Rightarrow> store_error + int" where
  "sum_sizes stat path tot [] = Inr tot"
| "sum_sizes stat path tot (sfx # sfxs) =
     (case stat (path @ sfx) of
        FileSize n \<Rightarrow> sum_sizes stat path (int64 (tot + n)) sfxs
      | NotExist \<Rightarrow> sum_sizes stat path tot sfxs
      | StatFailed msg \<Rightarrow> Inl (StatError msg))"

definition DBSize :: "(string \<Rightarrow> stat_result) \<Rightarrow> sqliteStore \<Rightarrow> store_error + int" where
  "DBSize stat s = sum_sizes stat (ss_path s) 0 ['''', ''-wal'', ''-shm'']"

text \<open>The 100 oldest rows are deleted by their ids.\<close>

definition delete_oldest :: "rows \<Rightarrow> rows" where
  "delete_oldest r =
     (let ids = map se_EventID (take 100 (ordered r)) in filter (\<lambda>e. se_EventID e \<notin> set ids) r)"

text \<open>
  The loop of \<open>TrimToSize\<close>; \<open>k\<close> counts its iterations, \<open>stat k\<close> is what the file system answers in
  the \<open>k\<close>-th one and \<open>exec k\<close> whether its deletion fails.  The loop ends because an iteration that
  deletes no row returns.
\<close>

lemma delete_oldest_less: "length (delete_oldest r) \<noteq> length r \<Longrightarrow> length (delete_oldest r) < length r"
  unfolding delete_oldest_def Let_def using length_filter_le [of _ r] by (metis le_neq_implies_less)

function trim_loop ::
  "(nat \<Rightarrow> string \<Rightarrow> stat_result) \<Rightarrow> (nat \<Rightarrow> fault) \<Rightarrow> int \<Rightarrow> nat \<Rightarrow> sqliteStore
   \<Rightarrow> store_error option \<times> sqliteStore" where
  "trim_loop stat exec maxBytes k s =
     (case DBSize (stat k) s of
        Inl err \<Rightarrow> (Some err, s)
      | Inr sz \<Rightarrow>
        if sz \<le> maxBytes then (None, s)
        else (case exec k of
            Some msg \<Rightarrow> (Some (SqlError msg), s)
          | None \<Rightarrow>
            if length (delete_oldest (ss_rows s)) = length (ss_rows s) then (None, s)
            else trim_loop stat exec maxBytes (Suc k) (s\<lparr>ss_rows := delete_oldest (ss_rows s)\<rparr>)))"
  by pat_completeness auto
termination
  by (relation "measure (\<lambda>(stat, exec, m, k, s). length (ss_rows s))") (auto simp: delete_oldest_less)

declare trim_loop.simps [simp del]

definition TrimToSize ::
  "(nat \<Rightarrow> string \<Rightarrow> stat_result) \<Rightarrow> (nat \<Rightarrow> fault) \<Rightarrow> int \<Rightarrow> sqliteStore
   \<Rightarrow> store_error option \<times> sqliteStore" where
  "TrimToSize stat exec maxBytes s = trim_loop stat exec maxBytes 0 s"

section \<open>Resealing\<close>

text \<open>\<open>UPDATE audit_events SET prev_hash = ?, event_hash = ? WHERE event_id = ?\<close>.\<close>

definition update_hashes :: "string \<Rightarrow> string \<Rightarrow> string \<Rightarrow> StoredEvent \<Rightarrow> StoredEvent" where
  "update_hashes prevHash h i e =
     (if se_EventID e = i then e\<lparr>se_PrevHash := prevHash, se_EventHash := h\<rparr> else e)"

fun reseal_loop :: "string \<Rightarrow> StoredEvent list \<Rightarrow> rows \<Rightarrow> rows" where
  "reseal_loop prevHash [] r = r"
| "reseal_loop prevHash (e # es) r =
     (let h = ComputeHash prevHash e
      in reseal_loop h es (map (update_hashes prevHash h (se_EventID e)) r))"

definition ResealChain :: "fault \<Rightarrow> sqliteStore \<Rightarrow> store_error option \<times> sqliteStore" where
  "ResealChain f s =
     (case f of
        Some msg \<Rightarrow> (Some (SqlError msg), s)
      | None \<Rightarrow> (None, s\<lparr>ss_rows := reseal_loop '''' (ordered (ss_rows s)) (ss_rows s)\<rparr>))"

section \<open>Facts about the operations\<close>

text \<open>Rows have distinct ids (the primary key) and were stamped after 1970.\<close>

definition table_ok :: "rows \<Rightarrow> bool" where
  "table_ok r \<longleftrightarrow> distinct (map se_EventID r)"

definition stamped :: "rows \<Rightarrow> bool" where
  "stamped r \<longleftrightarrow> list_all (\<lambda>e. 0 \<le> se_TsUnixNano e) r"

definition history :: "sqliteStore \<Rightarrow> StoredEvent list" where
  "history s = ordered (ss_rows s)"

lemma mset_ordered [simp]: "mset (ordered r) = mset r"
  by (simp add: ordered_def)

lemma set_ordered [simp]: "set (ordered r) = set r"
  by (simp add: ordered_def)

lemma length_ordered [simp]: "length (ordered r) = length r"
  by (simp add: ordered_def)

lemma sorted_ordered [simp]: "sorted (map event_key (ordered r))"
  by (simp add: ordered_def)

lemma ordered_id: "sorted (map event_key r) \<Longrightarrow> ordered r = r"
  unfolding ordered_def by (rule sort_key_id)

lemma ordered_ordered [simp]: "ordered (ordered r) = ordered r"
  by (rule ordered_id) simp

lemma distinct_ids_ordered [simp]:
  "distinct (map se_EventID (ordered r)) = distinct (map se_EventID r)"
  by (rule mset_eq_imp_distinct_iff) simp

lemma table_ok_keys: "table_ok r \<Longrightarrow> distinct (map event_key r)"
  unfolding table_ok_def by (induction r) (auto simp: event_key_def)

text \<open>Two tables with the same rows have the same history.\<close>

lemma ordered_cong: "table_ok r \<Longrightarrow> mset r = mset r' \<Longrightarrow> ordered r = ordered r'"
  unfolding ordered_def by (intro sort_key_mset_cong table_ok_keys)

lemma ordered_filter: "ordered (filter P r) = filter P (ordered r)"
  unfolding ordered_def by (rule filter_sort [symmetric])

lemma insort_key_map: "(\<And>x. f (g x) = f x) \<Longrightarrow> insort_key f (g x) (map g xs) = map g (insort_key f x xs)"
  by (induction xs) simp_all

lemma ordered_map: "(\<And>e. event_key (g e) = event_key e) \<Longrightarrow> ordered (map g r) = map g (ordered r)"
  unfolding ordered_def sort_key_def by (induction r) (simp_all add: insort_key_map)

lemma insert_rows_Inr:
  "insert_rows r es = Inr r' \<longleftrightarrow>
     r' = r @ es \<and> distinct (map se_EventID es) \<and> set (map se_EventID es) \<inter> set (map se_EventID r) = {}"
  by (induction es arbitrary: r) auto

lemma InsertBatch_cases:
  obtains (fail) err where "InsertBatch f es s = (Some err, s)"
  | (ok) "InsertBatch f es s = (None, s\<lparr>ss_rows := ss_rows s @ es\<rparr>)"
      "table_ok (ss_rows s) \<longrightarrow> table_ok (ss_rows s @ es)"
proof (cases "length es = 0")
  case True
  then show thesis using ok by (simp add: InsertBatch_def)
next
  case len: False
  show thesis
  proof (cases f)
    case None
    show thesis
    proof (cases "insert_rows (ss_rows s) es")
      case (Inl err)
      then show thesis using fail None len by (simp add: InsertBatch_def)
    next
      case (Inr r)
      then have "r = ss_rows s @ es" "distinct (map se_EventID es)"
        "set (map se_EventID es) \<inter> set (map se_EventID (ss_rows s)) = {}"
        by (simp_all add: insert_rows_Inr)
      moreover have "InsertBatch f es s = (None, s\<lparr>ss_rows := r\<rparr>)"
        using None len Inr by (simp add: InsertBatch_def)
      ultimately show thesis
        using ok by (simp add: table_ok_def Int_commute)
    qed
  next
    case (Some msg)
    then show thesis using fail len by (simp add: InsertBatch_def)
  qed
qed

lemma LastHash_tip: "LastHash None s = Inr (chain_tip '''' (history s))"
  by (cases "history s" rule: rev_cases) (simp_all add: LastHash_def history_def)

lemma filter_stamped: "stamped r \<Longrightarrow> filter (\<lambda>e. 0 \<le> se_TsUnixNano e) (ordered r) = ordered r"
  by (simp add: stamped_def list_all_iff)

lemma VerifyChain_None:
  "stamped (ss_rows s) \<Longrightarrow> VerifyChain None s = None \<longleftrightarrow> chain_ok '''' (history s)"
  by (simp add: VerifyChain_def Scan_def filter_stamped history_def case_prod_unfold Let_def scanRows_verify)

lemma DeleteBefore_ok:
  "DeleteBefore None cutoff s =
    (Inr (length (filter (\<lambda>e. se_TsUnixNano e < cutoff) (ss_rows s))),
     s\<lparr>ss_rows := filter (\<lambda>e. \<not> se_TsUnixNano e < cutoff) (ss_rows s)\<rparr>)"
  using sum_length_filter_compl [of "\<lambda>e. se_TsUnixNano e < cutoff" "ss_rows s"]
  by (simp add: DeleteBefore_def Let_def)

subsection \<open>Deleting the oldest rows\<close>

lemma filter_take_ids:
  "distinct (map se_EventID es) \<Longrightarrow>
   filter (\<lambda>e. se_EventID e \<notin> set (map se_EventID (take n es))) es = drop n es"
proof (induction n arbitrary: es)
  case (Suc n)
  show ?case
  proof (cases es)
    case (Cons e es')
    have ne: "\<forall>x \<in> set es'. se_EventID x \<noteq> se_EventID e"
      using Suc.prems unfolding Cons by (metis distinct.simps(2) image_eqI list.simps(9) list.set_map)
    have "se_EventID e \<in> set (map se_EventID (take (Suc n) es))"
      by (simp add: Cons)
    with ne have "filter (\<lambda>x. se_EventID x \<notin> set (map se_EventID (take (Suc n) es))) es =
      filter (\<lambda>x. se_EventID x \<notin> set (map se_EventID (take n es'))) es'"
      unfolding Cons by (auto intro!: filter_cong)
    then show ?thesis using Suc.IH [of es'] Suc.prems Cons by simp
  qed simp
qed simp

lemma ordered_delete_oldest: "table_ok r \<Longrightarrow> ordered (delete_oldest r) = drop 100 (ordered r)"
  using filter_take_ids [of "ordered r" 100]
  by (simp add: delete_oldest_def Let_def ordered_filter table_ok_def)

lemma table_ok_filter [simp]: "table_ok r \<Longrightarrow> table_ok (filter P r)"
  unfolding table_ok_def by (rule distinct_map_filter)

lemma table_ok_delete_oldest: "table_ok r \<Longrightarrow> table_ok (delete_oldest r)"
  by (simp add: delete_oldest_def Let_def)

text \<open>What \<open>TrimToSize\<close> leaves is the newest part of the history.\<close>

lemma trim_loop_history:
  "table_ok (ss_rows s) \<Longrightarrow> trim_loop stat exec m k s = (err, s') \<Longrightarrow>
   table_ok (ss_rows s') \<and> ss_path s' = ss_path s \<and>
   (\<exists>j. history s' = drop (100 * j) (history s) \<and>
      (\<forall>i < j. \<exists>sz. DBSize (stat (k + i)) s = Inr sz \<and> m < sz) \<and>
      (err = None \<longrightarrow> history s' = [] \<or> (\<exists>sz. DBSize (stat (k + j)) s = Inr sz \<and> sz \<le> m)))"
proof (induction stat exec m k s rule: trim_loop.induct)
  case (1 stat exec m k s)
  let ?s1 = "s\<lparr>ss_rows := delete_oldest (ss_rows s)\<rparr>"
  have D: "DBSize st ?s1 = DBSize st s" for st
    by (simp add: DBSize_def)
  consider (stat) e where "DBSize (stat k) s = Inl e"
    | (small) sz where "DBSize (stat k) s = Inr sz" "sz \<le> m"
    | (exec) sz msg where "DBSize (stat k) s = Inr sz" "\<not> sz \<le> m" "exec k = Some msg"
    | (none) sz where "DBSize (stat k) s = Inr sz" "\<not> sz \<le> m" "exec k = None"
        "length (delete_oldest (ss_rows s)) = length (ss_rows s)"
    | (more) sz where "DBSize (stat k) s = Inr sz" "\<not> sz \<le> m" "exec k = None"
        "length (delete_oldest (ss_rows s)) \<noteq> length (ss_rows s)"
    by (cases "DBSize (stat k) s"; cases "exec k"; force)
  then show ?case
  proof cases
    case stat
    with 1(3) have "s' = s" "err \<noteq> None" by (auto simp: trim_loop.simps [of stat])
    with 1(2) show ?thesis by (intro conjI exI [of _ 0]) auto
  next
    case small
    with 1(3) have "s' = s" by (auto simp: trim_loop.simps [of stat])
    with 1(2) small show ?thesis by (intro conjI exI [of _ 0]) simp_all
  next
    case exec
    with 1(3) have "s' = s" "err \<noteq> None" by (auto simp: trim_loop.simps [of stat])
    with 1(2) show ?thesis by (intro conjI exI [of _ 0]) auto
  next
    case none
    have "length (drop 100 (ordered (ss_rows s))) = length (ordered (ss_rows s))"
      using none(4) ordered_delete_oldest [OF 1(2)] length_ordered by metis
    then have "length (history s) = 0" unfolding history_def length_drop by linarith
    then have "history s = []" by simp
    moreover have "s' = s" using 1(3) none by (auto simp: trim_loop.simps [of stat])
    ultimately show ?thesis using 1(2) by (intro conjI exI [of _ 0]) simp_all
  next
    case more
    have step: "trim_loop stat exec m (Suc k) ?s1 = (err, s')"
      using 1(3) more by (simp add: trim_loop.simps [of stat _ _ k])
    have h1: "history ?s1 = drop 100 (history s)"
      using ordered_delete_oldest [OF 1(2)] by (simp add: history_def)
    obtain j where j: "history s' = drop (100 * j) (history ?s1)"
      "\<forall>i < j. \<exists>sz. DBSize (stat (Suc k + i)) s = Inr sz \<and> m < sz"
      "err = None \<longrightarrow> history s' = [] \<or> (\<exists>sz. DBSize (stat (Suc k + j)) s = Inr sz \<and> sz \<le> m)"
      and ok: "table_ok (ss_rows s')" "ss_path s' = ss_path s"
      using 1(1) [OF more(1,2,3,4) _ step] table_ok_delete_oldest [OF 1(2)] unfolding D by auto
    have "history s' = drop (100 * Suc j) (history s)"
      using j(1) by (simp add: h1 add.commute)
    moreover have "\<exists>sz. DBSize (stat (k + i)) s = Inr sz \<and> m < sz" if "i < Suc j" for i
      using that j(2) more(1,2) by (cases i) auto
    ultimately show ?thesis
      using ok j(3) by (intro conjI exI [of _ "Suc j"]) simp_all
  qed
qed

subsection \<open>Resealing\<close>

lemma event_key_update [simp]: "event_key (update_hashes p h i e) = event_key e"
  by (simp add: update_hashes_def event_key_def)

lemma se_EventID_update [simp]: "se_EventID (update_hashes p h i e) = se_EventID e"
  by (simp add: update_hashes_def)

lemma ordered_reseal: "ordered (reseal_loop p es r) = reseal_loop p es (ordered r)"
  by (induction es arbitrary: p r) (simp_all add: Let_def ordered_map)

lemma ids_reseal [simp]: "map se_EventID (reseal_loop p es r) = map se_EventID r"
  by (induction es arbitrary: p r) (simp_all add: Let_def comp_def)

lemma map_update_other:
  "i \<notin> set (map se_EventID es) \<Longrightarrow> map (update_hashes p h i) es = es"
  by (rule map_idI) (auto simp: update_hashes_def)

lemma reseal_loop_seal:
  "distinct (map se_EventID (ds @ es)) \<Longrightarrow> reseal_loop p es (ds @ es) = ds @ seal p es"
proof (induction es arbitrary: ds p)
  case (Cons e es)
  have "map (update_hashes p (ComputeHash p e) (se_EventID e)) (ds @ e # es) = (ds @ [link p e]) @ es"
    using Cons.prems by (simp add: map_update_other) (simp add: update_hashes_def link_def)
  moreover have "distinct (map se_EventID ((ds @ [link p e]) @ es))"
    using Cons.prems by simp
  ultimately show ?case
    using Cons.IH [of "ds @ [link p e]" "ComputeHash p e"] by (simp add: Let_def)
qed simp

lemma history_reseal:
  "table_ok r \<Longrightarrow> ordered (reseal_loop '''' (ordered r) r) = seal '''' (ordered r)"
  using reseal_loop_seal [of "[]" "ordered r" "''''"] by (simp add: ordered_reseal table_ok_def)

section \<open>The interface Store\<close>

text \<open>
  The operations the logger calls, with the environment each of them depends on, and the laws the
  logger relies on.  \<open>hist\<close> is the history in scan order and \<open>ok\<close> an invariant.
\<close>

type_synonym trim_env = "(nat \<Rightarrow> string \<Rightarrow> stat_result) \<times> (nat \<Rightarrow> fault)"

record 's store_ops =
  op_InsertBatch :: "fault \<Rightarrow> StoredEvent list \<Rightarrow> 's \<Rightarrow> store_error option \<times> 's"
  op_LastHash :: "fault \<Rightarrow> 's \<Rightarrow> store_error + string"
  op_DeleteBefore :: "fault \<Rightarrow> instant \<Rightarrow> 's \<Rightarrow> (store_error + nat) \<times> 's"
  op_DBSize :: "(string \<Rightarrow> stat_result) \<Rightarrow> 's \<Rightarrow> store_error + int"
  op_TrimToSize :: "trim_env \<Rightarrow> int \<Rightarrow> 's \<Rightarrow> store_error option \<times> 's"
  op_ResealChain :: "fault \<Rightarrow> 's \<Rightarrow> store_error option \<times> 's"

locale audit_store =
  fixes ops :: "'s store_ops" and hist :: "'s \<Rightarrow> StoredEvent list" and ok :: "'s \<Rightarrow> bool"
  assumes hist_sorted: "ok s \<Longrightarrow> sorted (map event_key (hist s))"
    and insert_fail: "op_InsertBatch ops f es s = (Some err, s') \<Longrightarrow> s' = s"
    and insert_ok: "ok s \<Longrightarrow> op_InsertBatch ops f es s = (None, s') \<Longrightarrow>
      ok s' \<and> hist s' = sort_key event_key (hist s @ es)"
    and insert_nil: "op_InsertBatch ops f [] s = (None, s)"
    and last_hash: "ok s \<Longrightarrow> op_LastHash ops f s = Inr h \<Longrightarrow> h = chain_tip '''' (hist s)"
    and delete_fail: "op_DeleteBefore ops f c s = (Inl err, s') \<Longrightarrow> s' = s"
    and delete_ok: "ok s \<Longrightarrow> op_DeleteBefore ops f c s = (Inr n, s') \<Longrightarrow>
      ok s' \<and> hist s' = filter (\<lambda>e. c \<le> se_TsUnixNano e) (hist s) \<and> length (hist s) = length (hist s') + n"
    and trim: "ok s \<Longrightarrow> op_TrimToSize ops env m s = (res, s') \<Longrightarrow>
      ok s' \<and> (\<exists>j. hist s' = drop j (hist s))"
    and reseal_fail: "op_ResealChain ops f s = (Some err, s') \<Longrightarrow> s' = s"
    and reseal_ok: "ok s \<Longrightarrow> op_ResealChain ops f s = (None, s') \<Longrightarrow>
      ok s' \<and> hist s' = seal '''' (hist s)"
begin

text \<open>A batch that is not older than the history is appended to it.\<close>

lemma insert_in_order:
  assumes "ok s" and "op_InsertBatch ops f es s = (None, s')"
    and "sorted (map event_key (hist s @ es))"
  shows "hist s' = hist s @ es"
  using insert_ok [OF assms(1,2)] assms(3) by (simp add: sort_key_id)

lemma reseal_verifies:
  "ok s \<Longrightarrow> op_ResealChain ops f s = (None, s') \<Longrightarrow> chain_ok '''' (hist s')"
  using reseal_ok [of s f s'] by simp

lemma reseal_tip:
  assumes "ok s" and "op_ResealChain ops f s = (None, s')" and "op_LastHash ops g s' = Inr h"
  shows "chain_ok '''' (hist s') \<and> h = chain_tip '''' (hist s')"
  using assms reseal_verifies reseal_ok last_hash by blast

end

definition sqlite_ops :: "sqliteStore store_ops" where
  "sqlite_ops = \<lparr>op_InsertBatch = InsertBatch, op_LastHash = LastHash, op_DeleteBefore = DeleteBefore,
     op_DBSize = DBSize, op_TrimToSize = (\<lambda>(stat, exec). TrimToSize stat exec),
     op_ResealChain = ResealChain\<rparr>"

definition store_ok :: "sqliteStore \<Rightarrow> bool" where
  "store_ok s \<longleftrightarrow> table_ok (ss_rows s)"

lemma ResealChain_ok:
  "table_ok (ss_rows s) \<Longrightarrow> ResealChain None s = (None, s') \<Longrightarrow>
   table_ok (ss_rows s') \<and> history s' = seal '''' (history s)"
  by (auto simp: ResealChain_def history_def history_reseal table_ok_def)

interpretation sqlite: audit_store sqlite_ops history store_ok
proof unfold_locales
  fix s s' :: sqliteStore and f es err
  show "store_ok s \<Longrightarrow> sorted (map event_key (history s))"
    by (simp add: history_def)
  show "op_InsertBatch sqlite_ops f es s = (Some err, s') \<Longrightarrow> s' = s"
    by (cases rule: InsertBatch_cases [of f es s]) (simp_all add: sqlite_ops_def)
  show "store_ok s' \<and> history s' = sort_key event_key (history s @ es)"
    if "store_ok s" "op_InsertBatch sqlite_ops f es s = (None, s')"
  proof (cases rule: InsertBatch_cases [of f es s])
    case ok
    then have s': "s' = s\<lparr>ss_rows := ss_rows s @ es\<rparr>" "table_ok (ss_rows s @ es)"
      using that by (auto simp: sqlite_ops_def store_ok_def)
    have "ordered (ss_rows s @ es) = ordered (ordered (ss_rows s) @ es)"
      using s'(2) by (intro ordered_cong) simp_all
    then show ?thesis using s' by (simp add: store_ok_def history_def ordered_def)
  qed (use that in \<open>simp add: sqlite_ops_def\<close>)
  show "op_InsertBatch sqlite_ops f [] s = (None, s)"
    by (simp add: sqlite_ops_def InsertBatch_def)
next
  fix s s' :: sqliteStore and f h c err n
  show "op_LastHash sqlite_ops f s = Inr h \<Longrightarrow> h = chain_tip '''' (history s)"
    using LastHash_tip [of s] by (cases f) (simp_all add: sqlite_ops_def, simp add: LastHash_def)
  show "op_DeleteBefore sqlite_ops f c s = (Inl err, s') \<Longrightarrow> s' = s"
    by (cases f) (auto simp: sqlite_ops_def DeleteBefore_def Let_def)
  show "store_ok s' \<and> history s' = filter (\<lambda>e. c \<le> se_TsUnixNano e) (history s) \<and>
      length (history s) = length (history s') + n"
    if "store_ok s" "op_DeleteBefore sqlite_ops f c s = (Inr n, s')"
  proof (cases f)
    case None
    then show ?thesis
      using that sum_length_filter_compl [of "\<lambda>e. se_TsUnixNano e < c" "ss_rows s"]
      by (auto simp: sqlite_ops_def DeleteBefore_ok store_ok_def history_def ordered_filter not_less)
  qed (use that in \<open>simp add: sqlite_ops_def DeleteBefore_def\<close>)
next
  fix s s' :: sqliteStore and env m res f err
  show "store_ok s' \<and> (\<exists>j. history s' = drop j (history s))"
    if "store_ok s" "op_TrimToSize sqlite_ops env m s = (res, s')"
    using that trim_loop_history [of s "fst env" "snd env" m 0 res s']
    by (auto simp: sqlite_ops_def store_ok_def TrimToSize_def case_prod_unfold)
  show "op_ResealChain sqlite_ops f s = (Some err, s') \<Longrightarrow> s' = s"
    by (cases f) (simp_all add: sqlite_ops_def ResealChain_def)
  show "store_ok s' \<and> history s' = seal '''' (history s)"
    if "store_ok s" "op_ResealChain sqlite_ops f s = (None, s')"
    using that ResealChain_ok [of s s']
    by (cases f) (simp_all add: sqlite_ops_def store_ok_def, simp add: ResealChain_def)
qed

section \<open>Opening the database\<close>

definition ToUpper :: "string \<Rightarrow> string" where
  "ToUpper s = map (\<lambda>c. if CHR ''a'' \<le> c \<and> c \<le> CHR ''z'' then char_of (byte c - 32) else c) s"

datatype open_error =
    PathRequired
  | OpenFailed string
  | PragmaFailed string string
  | InvalidSynchronous string
  | InvalidBusyTimeout string duration_error
  | MigrateFailed string

text \<open>The value of \<open>PRAGMA synchronous\<close> in WAL mode.\<close>

definition sync_mode :: "string \<Rightarrow> string option" where
  "sync_mode synchronous =
     (if synchronous = '''' then Some ''FULL''
      else let sync = ToUpper synchronous
        in if sync \<in> {''FULL'', ''NORMAL'', ''EXTRA''} then Some sync else None)"

text \<open>The text of the schema; two single quotes are the empty string of SQL.\<close>

definition default_empty :: string where
  "default_empty = ''TEXT    NOT NULL DEFAULT '' @ replicate 2 (CHR 0x27) @ '',''"

definition schema :: string where
  "schema = concat (map (\<lambda>line. line @ ''\<newline>'')
     ['''',
      ''CREATE TABLE IF NOT EXISTS audit_events ('',
      ''    event_id       TEXT    PRIMARY KEY,'',
      ''    ts_unix_nano   INTEGER NOT NULL,'',
      ''    trace_id       '' @ default_empty,
      ''    span_id        '' @ default_empty,
      ''    session_id     '' @ default_empty,
      ''    request_id     '' @ default_empty,
      ''    client_id      '' @ default_empty,
      ''    method         TEXT    NOT NULL,'',
      ''    tool_name      '' @ default_empty,
      ''    upstream_id    '' @ default_empty,
      ''    decision       TEXT    NOT NULL,'',
      ''    policy_rule    '' @ default_empty,
      ''    reason         '' @ default_empty,
      ''    arguments_json '' @ default_empty,
      ''    response_json  '' @ default_empty,
      ''    error_json     '' @ default_empty,
      ''    duration_us    INTEGER NOT NULL DEFAULT 0,'',
      ''    prev_hash      '' @ default_empty,
      ''    event_hash     TEXT    NOT NULL'',
      '');'',
      ''CREATE INDEX IF NOT EXISTS idx_audit_ts          ON audit_events(ts_unix_nano);'',
      ''CREATE INDEX IF NOT EXISTS idx_audit_tool_ts     ON audit_events(tool_name, ts_unix_nano);'',
      ''CREATE INDEX IF NOT EXISTS idx_audit_session_ts  ON audit_events(session_id, ts_unix_nano);'',
      ''CREATE INDEX IF NOT EXISTS idx_audit_decision_ts ON audit_events(decision, ts_unix_nano);'',
      ''CREATE INDEX IF NOT EXISTS idx_audit_client_ts   ON audit_events(client_id, ts_unix_nano);''])"

text \<open>
  \<open>NewSQLiteStore\<close> returns the statements it has executed.  \<open>sqlopen\<close> and \<open>exec\<close> stand for the
  database driver: \<open>exec stmt\<close> is the error of a statement.
\<close>

definition exec_all :: "(string \<Rightarrow> fault) \<Rightarrow> (string \<times> (string \<Rightarrow> open_error)) list \<Rightarrow> open_error + string list" where
  "exec_all exec stmts =
     foldr (\<lambda>(stmt, mkerr) rest. case exec stmt of
         Some msg \<Rightarrow> Inl (mkerr msg)
       | None \<Rightarrow> (case rest of Inl e \<Rightarrow> Inl e | Inr ss \<Rightarrow> Inr (stmt # ss))) stmts (Inr [])"

definition busy_statement :: "pd_fn \<Rightarrow> string \<Rightarrow> open_error + string list" where
  "busy_statement pd busyTimeout =
     (if busyTimeout = '''' then Inr []
      else case pd busyTimeout of
        Inl err \<Rightarrow> Inl (InvalidBusyTimeout busyTimeout err)
      | Inr d \<Rightarrow> Inr [''PRAGMA busy_timeout='' @ show_int (Milliseconds d) @ '';''])"

definition NewSQLiteStore ::
  "(string \<Rightarrow> fault) \<Rightarrow> (string \<Rightarrow> fault) \<Rightarrow> pd_fn \<Rightarrow> rows \<Rightarrow> AuditSQLiteConfig
   \<Rightarrow> open_error + sqliteStore \<times> string list" where
  "NewSQLiteStore sqlopen exec pd disk cfg =
     (if asc_Path cfg = '''' then Inl PathRequired
      else case sqlopen (asc_Path cfg) of
        Some msg \<Rightarrow> Inl (OpenFailed msg)
      | None \<Rightarrow>
        and_then
          (if asc_WAL cfg then
             and_then (exec_all exec [(''PRAGMA journal_mode=WAL;'', PragmaFailed ''WAL'')]) (\<lambda>p1.
               case sync_mode (asc_Synchronous cfg) of
                 None \<Rightarrow> Inl (InvalidSynchronous (asc_Synchronous cfg))
               | Some sync \<Rightarrow>
                 and_then (exec_all exec [(''PRAGMA synchronous='' @ sync @ '';'', PragmaFailed sync)])
                   (\<lambda>p2. Inr (p1 @ p2)))
           else Inr []) (\<lambda>pragmas.
        and_then (busy_statement pd (asc_BusyTimeout cfg)) (\<lambda>busy.
        and_then (exec_all exec (map (\<lambda>b. (b, PragmaFailed ''busy_timeout'')) busy @ [(schema, MigrateFailed)]))
          (\<lambda>rest. Inr (\<lparr>ss_path = asc_Path cfg, ss_rows = disk\<rparr>, pragmas @ rest)))))"

section \<open>Retention settings\<close>

record retentionCfg =
  rc_maxAge :: duration
  rc_maxSizeBytes :: int
  rc_vacuumInterval :: duration

datatype retention_error =
    InvalidMaxAge audit_duration_error
  | InvalidMaxSize string
  | InvalidVacuumInterval duration_error

text \<open>
  \<open>parseBytes\<close>.  \<open>scaled digits mul\<close> stands for \<open>int64(n * float64(mul))\<close> with \<open>n\<close> the result of
  \<open>strconv.ParseFloat digits\<close>, \<open>None\<close> when it fails: floating-point numbers are not modelled.
  \<open>strconv.ParseInt\<close> in base 10 accepts what \<open>Atoi\<close> accepts on a 64-bit machine.
\<close>

fun parse_unit_bytes :: "(string \<Rightarrow> int \<Rightarrow> int option) \<Rightarrow> string \<Rightarrow> string \<Rightarrow> (string \<times> int) list \<Rightarrow> int option" where
  "parse_unit_bytes scaled s upper [] = Atoi (TrimSpace s)"
| "parse_unit_bytes scaled s upper ((sfx, mul) # units) =
     (if HasSuffix upper sfx then scaled (TrimSuffix upper sfx) mul
      else parse_unit_bytes scaled s upper units)"

definition parseBytes :: "(string \<Rightarrow> int \<Rightarrow> int option) \<Rightarrow> string \<Rightarrow> int option" where
  "parseBytes scaled s =
     parse_unit_bytes scaled s (ToUpper (TrimSpace s))
       [(''TB'', 2 ^ 40), (''GB'', 2 ^ 30), (''MB'', 2 ^ 20), (''KB'', 2 ^ 10)]"

definition parseRetentionConfig ::
  "pd_fn \<Rightarrow> (string \<Rightarrow> int \<Rightarrow> int option) \<Rightarrow> AuditRetentionConfig \<Rightarrow> retention_error + retentionCfg" where
  "parseRetentionConfig pd scaled cfg =
     and_then (if arc_MaxAge cfg = '''' then Inr 0
               else case parseDuration pd (arc_MaxAge cfg) of
                 Inl err \<Rightarrow> Inl (InvalidMaxAge err) | Inr d \<Rightarrow> Inr d) (\<lambda>maxAge.
     and_then (if arc_MaxSize cfg = '''' then Inr 0
               else case parseBytes scaled (arc_MaxSize cfg) of
                 None \<Rightarrow> Inl (InvalidMaxSize (arc_MaxSize cfg)) | Some b \<Rightarrow> Inr b) (\<lambda>maxSize.
     and_then (if arc_VacuumInterval cfg \<noteq> '''' then
                 (case pd (arc_VacuumInterval cfg) of
                    Inl err \<Rightarrow> Inl (InvalidVacuumInterval err) | Inr d \<Rightarrow> Inr d)
               else if maxAge > 0 \<or> maxSize > 0 then Inr (24 * Hour)
               else Inr 0) (\<lambda>vacuum.
       Inr \<lparr>rc_maxAge = maxAge, rc_maxSizeBytes = maxSize, rc_vacuumInterval = vacuum\<rparr>)))"

section \<open>Properties\<close>

text \<open>Everything of an event but its place in the chain.\<close>

definition payload_of :: "StoredEvent \<Rightarrow> StoredEvent" where
  "payload_of e = e\<lparr>se_PrevHash := '''', se_EventHash := ''''\<rparr>"

lemma payload_of_link [simp]: "payload_of (link p e) = payload_of e"
  by (simp add: payload_of_def link_def)

text \<open>
  C30: Resealing after a deletion.  Whatever state the hashes of the table are in (for instance after
  the oldest rows were deleted), \<open>ResealChain\<close> leaves a table that \<open>VerifyChain\<close> accepts, in which
  every event is unchanged but for its two hash fields, and whose last hash is the one \<open>LastHash\<close>
  returns.
\<close>

theorem reseal_restores:
  assumes "table_ok (ss_rows s)" and "stamped (ss_rows s)"
    and "ResealChain None s = (None, s')"
  shows "VerifyChain None s' = None \<and>
    map payload_of (history s') = map payload_of (history s) \<and>
    LastHash None s' = Inr (chain_tip '''' (seal '''' (history s)))"
proof -
  have h: "history s' = seal '''' (history s)"
    using ResealChain_ok [OF assms(1,3)] by simp
  have "map se_TsUnixNano (history s') = map se_TsUnixNano (history s)"
    unfolding h by (rule map_seal) simp
  then have "stamped (history s') = stamped (history s)"
    unfolding stamped_def by (metis (mono_tags, lifting) list.pred_map comp_def list.pred_cong)
  then have "stamped (ss_rows s')"
    using assms(2) by (simp add: stamped_def history_def list_all_iff)
  then show ?thesis
    using h by (simp add: VerifyChain_None LastHash_tip map_seal)
qed

definition sample_store :: sqliteStore where
  "sample_store = \<lparr>ss_path = ''audit.db'', ss_rows = [sample_event ''b'' 2, sample_event ''a'' 1]\<rparr>"

theorem reseal_restores_witness:
  "VerifyChain None (snd (ResealChain None sample_store)) = None"
proof -
  have "ResealChain None sample_store = (None, snd (ResealChain None sample_store))"
    by (simp add: ResealChain_def)
  from reseal_restores [OF _ _ this] show ?thesis
    by (simp add: sample_store_def table_ok_def stamped_def sample_event_def)
qed

text \<open>
  Size retention.  \<open>TrimToSize\<close> always returns; what it leaves is a suffix of the history, that
  is, it only ever deletes the oldest events, in chunks of 100; every chunk is deleted at a moment
  when the measured size exceeds the limit; and without an error the table is empty or the last
  measured size is within the limit.
\<close>

theorem trim_keeps_newest:
  assumes "table_ok (ss_rows s)" and "TrimToSize stat exec m s = (err, s')"
  shows "\<exists>j. history s' = drop (100 * j) (history s) \<and>
    (\<forall>i < j. \<exists>sz. DBSize (stat i) s = Inr sz \<and> m < sz) \<and>
    (err = None \<longrightarrow> history s' = [] \<or> (\<exists>sz. DBSize (stat j) s = Inr sz \<and> sz \<le> m))"
  using trim_loop_history [OF assms(1), of stat exec m 0 err s'] assms(2)
  by (simp add: TrimToSize_def)

theorem trim_keeps_newest_witness:
  "\<exists>j. history (snd (TrimToSize (\<lambda>k p. if p = ''audit.db'' then FileSize 5 else NotExist) (\<lambda>k. None) 10 sample_store)) =
    drop (100 * j) (history sample_store)"
  using trim_keeps_newest [of sample_store "\<lambda>k p. if p = ''audit.db'' then FileSize 5 else NotExist" "\<lambda>k. None" 10
      "fst (TrimToSize (\<lambda>k p. if p = ''audit.db'' then FileSize 5 else NotExist) (\<lambda>k. None) 10 sample_store)"
      "snd (TrimToSize (\<lambda>k p. if p = ''audit.db'' then FileSize 5 else NotExist) (\<lambda>k. None) 10 sample_store)"]
  by (auto simp: sample_store_def table_ok_def sample_event_def)

text \<open>
  A retention age in days is multiplied without an overflow check: 200000 days (about 548
  years) become a negative duration, which the configuration parser accepts; with no other setting
  the vacuum interval stays 0 and retention is off.
\<close>

theorem retention_days_overflow:
  "\<exists>rc. parseRetentionConfig pd scaled
      \<lparr>arc_MaxAge = ''200000d'', arc_MaxSize = '''', arc_VacuumInterval = ''''\<rparr> = Inr rc \<and>
    rc_maxAge rc < 0 \<and> rc_vacuumInterval rc = 0"
proof -
  have "Atoi ''200000'' = Some 200000"
    by (simp add: Atoi_def strip_sign_def is_digit_def digit_val_def less_eq_char_def in_int64_def)
  moreover have "int64 (int64 (200000 * 24) * Hour) = - 1166744073709551616"
    by code_simp
  moreover have "HasSuffix ''200000d'' ''d''" "TrimSuffix ''200000d'' ''d'' = ''200000''"
    by (simp_all add: HasSuffix_def TrimSuffix_def)
  ultimately have "parseDuration pd ''200000d'' = Inr (- 1166744073709551616)"
    by (simp add: parseDuration_def)
  then show ?thesis
    by (simp add: parseRetentionConfig_def)
qed

end
