(* ===== verification/AuditLogger.thy ===== *)
theory AuditLogger
  imports AuditStore
begin

text \<open>
  \<open>internal/audit/logger.go\<close>: the asynchronous audit logger.  Its state is shared by the callers of
  \<open>Log\<close> and the one writer goroutine \<open>run\<close>; they communicate through the buffered channel.  Each
  definition is what one goroutine does between two points where the other can interfere, and the
  step relation \<open>logger_step\<close> interleaves them.  The outcome of a \<open>select\<close>, the errors of the store
  and the readings of the clock are arguments.
\<close>

section \<open>Events\<close>

text \<open>
  \<open>ev_EventID\<close> is the textual form of the UUID, \<open>None\<close> for \<open>uuid.Nil\<close>; \<open>ev_Timestamp\<close> is \<open>None\<close> for
  the zero time.
\<close>

record AuditError =
  ae_Code :: int
  ae_Message :: string
  ae_Data :: "any option"

record Event =
  ev_Timestamp :: "instant option"
  ev_Action :: string
  ev_Tool :: string
  ev_Decision :: string
  ev_Reason :: string
  ev_PolicyRule :: string
  ev_ClientID :: string
  ev_RequestID :: string
  ev_Duration :: duration
  ev_Error :: "AuditError option"
  ev_EventID :: "string option"
  ev_TraceID :: string
  ev_SpanID :: string
  ev_SessionID :: string
  ev_UpstreamID :: string
  ev_Arguments :: "(string \<times> any) list"
  ev_Response :: "payload option"

definition nil_uuid :: string where "nil_uuid = ''00000000-0000-0000-0000-000000000000''"

text \<open>\<open>UnixNano\<close> of the zero time, \<open>-62135596800\<close> seconds, wraps around.\<close>

definition UnixNano :: "instant option \<Rightarrow> int" where
  "UnixNano t = (case t of None \<Rightarrow> int64 (-62135596800 * 1000000000) | Some n \<Rightarrow> int64 n)"

text \<open>
  \<open>eventToStored\<close>.  The values marshalled here come from JSON or are structures of strings and
  numbers, so \<open>json.Marshal\<close> does not fail on them.
\<close>

definition eventToStored :: "Event \<Rightarrow> StoredEvent" where
  "eventToStored e = \<lparr>
     se_EventID = (case ev_EventID e of None \<Rightarrow> nil_uuid | Some u \<Rightarrow> u),
     se_TsUnixNano = UnixNano (ev_Timestamp e),
     se_TraceID = ev_TraceID e, se_SpanID = ev_SpanID e, se_SessionID = ev_SessionID e,
     se_RequestID = ev_RequestID e, se_ClientID = ev_ClientID e, se_Method = ev_Action e,
     se_ToolName = ev_Tool e, se_UpstreamID = ev_UpstreamID e, se_Decision = ev_Decision e,
     se_PolicyRule = ev_PolicyRule e, se_Reason = ev_Reason e,
     se_ArgumentsJSON = (if length (ev_Arguments e) > 0 then marshal_map (ev_Arguments e) else ''''),
     se_ResponseJSON = (case ev_Response e of None \<Rightarrow> '''' | Some r \<Rightarrow> marshal_payload r),
     se_ErrorJSON = (case ev_Error e of None \<Rightarrow> ''''
       | Some x \<Rightarrow> marshal_error (ae_Code x) (ae_Message x) (ae_Data x)),
     se_DurationUs = Microseconds (ev_Duration e),
     se_PrevHash = '''', se_EventHash = ''''\<rparr>"

section \<open>Modes\<close>

datatype sqliteWriteMode = ModeUnknown | ModeBlock | ModeFailClosed | ModeBestEffort | ModeDrop

definition parseSqliteWriteMode :: "string \<Rightarrow> sqliteWriteMode option" where
  "parseSqliteWriteMode val =
     (if val = ''block'' then Some ModeBlock
      else if val = ''fail_closed'' then Some ModeFailClosed
      else if val = ''best_effort'' then Some ModeBestEffort
      else if val = ''drop'' then Some ModeDrop
      else None)"

fun mode_String :: "sqliteWriteMode \<Rightarrow> string" where
  "mode_String ModeBlock = ''block''"
| "mode_String ModeBestEffort = ''best_effort''"
| "mode_String ModeFailClosed = ''fail_closed''"
| "mode_String ModeDrop = ''drop''"
| "mode_String ModeUnknown = ''unknown''"

section \<open>The logger\<close>

record sqliteLoggerCfg =
  lc_batchMaxEvents :: int
  lc_batchMaxDelay :: duration
  lc_mode :: sqliteWriteMode
  lc_hashChain :: bool

text \<open>
  \<open>lg_batch\<close> is the local variable \<open>batch\<close> of \<open>run\<close>.  The two counters \<open>lg_metricDropped\<close> and
  \<open>lg_metricFails\<close> are the calls on the metrics interface; they are counted whether or not metrics
  are wired, which is what the registry would hold.
\<close>

record 's SQLiteAuditLogger =
  lg_store :: 's
  lg_cfg :: sqliteLoggerCfg
  lg_ch :: "Event list"
  lg_chanSize :: nat
  lg_closed :: bool
  lg_done :: bool
  lg_dropped :: int
  lg_writes :: int
  lg_failures :: int
  lg_lastHash :: string
  lg_dbFailed :: bool
  lg_retention :: "retentionCfg option"
  lg_batch :: "Event list"
  lg_metricDropped :: nat
  lg_metricFails :: nat

definition reportDrop :: "nat \<Rightarrow> 's SQLiteAuditLogger \<Rightarrow> 's SQLiteAuditLogger" where
  "reportDrop n l = l\<lparr>lg_dropped := lg_dropped l + int n, lg_metricDropped := lg_metricDropped l + n\<rparr>"

definition reportWriteFail :: "nat \<Rightarrow> 's SQLiteAuditLogger \<Rightarrow> 's SQLiteAuditLogger" where
  "reportWriteFail n l = l\<lparr>lg_dropped := lg_dropped l + int n, lg_failures := lg_failures l + 1,
     lg_dbFailed := True, lg_metricFails := lg_metricFails l + 1,
     lg_metricDropped := lg_metricDropped l + n\<rparr>"

subsection \<open>Log\<close>

datatype audit_error = ErrAuditFull | UUIDFailed

text \<open>
  How the \<open>select\<close> of one call of \<open>Log\<close> ends: the event goes into the channel, the context of the
  request is done, the timer of 100 ms fires, or the channel is full in a non-blocking send.
\<close>

datatype select_outcome = Sent | CtxDone | TimerFired | ChannelFull

text \<open>Which outcomes are possible.  A send on a closed channel panics and is not one of them.\<close>

fun log_enabled :: "'s SQLiteAuditLogger \<Rightarrow> select_outcome \<Rightarrow> bool" where
  "log_enabled l Sent = (\<not> lg_closed l \<and> length (lg_ch l) < lg_chanSize l)"
| "log_enabled l CtxDone = (lc_mode (lg_cfg l) \<in> {ModeBestEffort, ModeFailClosed, ModeUnknown})"
| "log_enabled l TimerFired = (lc_mode (lg_cfg l) \<in> {ModeFailClosed, ModeUnknown})"
| "log_enabled l ChannelFull =
     (lc_mode (lg_cfg l) = ModeDrop \<and> \<not> lg_closed l \<and> \<not> length (lg_ch l) < lg_chanSize l)"

definition send :: "Event \<Rightarrow> 's SQLiteAuditLogger \<Rightarrow> 's SQLiteAuditLogger" where
  "send e l = l\<lparr>lg_ch := lg_ch l @ [e]\<rparr>"

text \<open>The clock and the UUID generator fill a missing timestamp and a missing id.\<close>

definition stamp :: "instant \<Rightarrow> string \<Rightarrow> Event \<Rightarrow> Event" where
  "stamp now uuid e =
     (let e1 = (case ev_Timestamp e of None \<Rightarrow> e\<lparr>ev_Timestamp := Some now\<rparr> | Some t \<Rightarrow> e)
      in case ev_EventID e1 of None \<Rightarrow> e1\<lparr>ev_EventID := Some uuid\<rparr> | Some u \<Rightarrow> e1)"

definition Log ::
  "select_outcome \<Rightarrow> instant \<Rightarrow> string option \<Rightarrow> Event \<Rightarrow> 's SQLiteAuditLogger
   \<Rightarrow> audit_error option \<times> 's SQLiteAuditLogger" where
  "Log sel now uuid event l =
     (if ev_EventID event = None \<and> uuid = None then (Some UUIDFailed, l)
      else let e = stamp now (the uuid) event in
        case lc_mode (lg_cfg l) of
          ModeBlock \<Rightarrow> (None, send e l)
        | ModeBestEffort \<Rightarrow> (case sel of Sent \<Rightarrow> (None, send e l) | _ \<Rightarrow> (None, reportDrop 1 l))
        | ModeDrop \<Rightarrow> (case sel of Sent \<Rightarrow> (None, send e l) | _ \<Rightarrow> (None, reportDrop 1 l))
        | _ \<Rightarrow>
          if lg_dbFailed l then (Some ErrAuditFull, l)
          else (case sel of Sent \<Rightarrow> (None, send e l) | _ \<Rightarrow> (Some ErrAuditFull, reportDrop 1 l)))"

subsection \<open>The writer\<close>

text \<open>The loop of \<open>flushBatch\<close> over the batch: it returns the rows and the new tip.\<close>

fun hash_batch :: "bool \<Rightarrow> string \<Rightarrow> Event list \<Rightarrow> StoredEvent list \<times> string" where
  "hash_batch chain tip [] = ([], tip)"
| "hash_batch chain tip (e # es) =
     (let se = eventToStored e in
      if chain then
        (let h = ComputeHash tip se; (ss, tip') = hash_batch chain h es
         in (se\<lparr>se_PrevHash := tip, se_EventHash := h\<rparr> # ss, tip'))
      else
        (let (ss, tip') = hash_batch chain tip es
         in (se\<lparr>se_EventHash := ComputeHash '''' se\<rparr> # ss, tip')))"

definition flushBatch ::
  "'s store_ops \<Rightarrow> fault \<Rightarrow> Event list \<Rightarrow> 's SQLiteAuditLogger \<Rightarrow> 's SQLiteAuditLogger" where
  "flushBatch ops f batch l =
     (case hash_batch (lc_hashChain (lg_cfg l)) (lg_lastHash l) batch of (stored, tip) \<Rightarrow>
        (case op_InsertBatch ops f stored (lg_store l) of
           (Some err, s) \<Rightarrow> reportWriteFail (length batch) (l\<lparr>lg_store := s\<rparr>)
         | (None, s) \<Rightarrow> l\<lparr>lg_store := s, lg_dbFailed := False, lg_writes := lg_writes l + 1,
              lg_lastHash := tip\<rparr>))"

definition flush :: "'s store_ops \<Rightarrow> fault \<Rightarrow> 's SQLiteAuditLogger \<Rightarrow> 's SQLiteAuditLogger" where
  "flush ops f l =
     (if length (lg_batch l) = 0 then l
      else (flushBatch ops f (lg_batch l) l)\<lparr>lg_batch := []\<rparr>)"

text \<open>What the environment answers during one run of the retention.\<close>

record retention_env =
  re_now :: instant
  re_delete :: fault
  re_stat :: "string \<Rightarrow> stat_result"
  re_trim :: trim_env
  re_reseal :: fault
  re_lastHash :: fault

definition retention_age ::
  "'s store_ops \<Rightarrow> retention_env \<Rightarrow> retentionCfg \<Rightarrow> 's \<Rightarrow> bool \<times> 's" where
  "retention_age ops env rc s =
     (if rc_maxAge rc > 0 then
        (case op_DeleteBefore ops (re_delete env) (Add (re_now env) (- rc_maxAge rc)) s of
           (Inl err, s1) \<Rightarrow> (False, s1)
         | (Inr n, s1) \<Rightarrow> (n > 0, s1))
      else (False, s))"

text \<open>The error of \<open>DBSize\<close> is ignored and the size is 0 then.\<close>

definition retention_size ::
  "'s store_ops \<Rightarrow> retention_env \<Rightarrow> retentionCfg \<Rightarrow> bool \<Rightarrow> 's \<Rightarrow> bool \<times> 's" where
  "retention_size ops env rc deleted s =
     (if rc_maxSizeBytes rc > 0 then
        (let sz = (case op_DBSize ops (re_stat env) s of Inl err \<Rightarrow> 0 | Inr n \<Rightarrow> n)
         in if sz > rc_maxSizeBytes rc then
              (case op_TrimToSize ops (re_trim env) (rc_maxSizeBytes rc) s of
                 (Some err, s1) \<Rightarrow> (deleted, s1)
               | (None, s1) \<Rightarrow> (True, s1))
            else (deleted, s))
      else (deleted, s))"

definition runRetention ::
  "'s store_ops \<Rightarrow> retention_env \<Rightarrow> retentionCfg \<Rightarrow> 's SQLiteAuditLogger \<Rightarrow> 's SQLiteAuditLogger" where
  "runRetention ops env rc l =
     (case retention_age ops env rc (lg_store l) of (d1, s1) \<Rightarrow>
      case retention_size ops env rc d1 s1 of (deleted, s2) \<Rightarrow>
        if deleted \<and> lc_hashChain (lg_cfg l) then
          (case op_ResealChain ops (re_reseal env) s2 of
             (Some err, s3) \<Rightarrow> l\<lparr>lg_store := s3\<rparr>
           | (None, s3) \<Rightarrow>
             (case op_LastHash ops (re_lastHash env) s3 of
                Inr h \<Rightarrow> l\<lparr>lg_store := s3, lg_lastHash := h\<rparr>
              | Inl err \<Rightarrow> l\<lparr>lg_store := s3\<rparr>))
        else l\<lparr>lg_store := s2\<rparr>)"

text \<open>The three cases of the \<open>select\<close> in \<open>run\<close>.\<close>

definition receive :: "'s store_ops \<Rightarrow> fault \<Rightarrow> 's SQLiteAuditLogger \<Rightarrow> 's SQLiteAuditLogger" where
  "receive ops f l =
     (case lg_ch l of
        e # rest \<Rightarrow>
          (let l1 = l\<lparr>lg_ch := rest, lg_batch := lg_batch l @ [e]\<rparr>
           in if int (length (lg_batch l1)) \<ge> lc_batchMaxEvents (lg_cfg l) then flush ops f l1 else l1)
      | [] \<Rightarrow> (flush ops f l)\<lparr>lg_done := True\<rparr>)"

definition retention_tick ::
  "'s store_ops \<Rightarrow> fault \<Rightarrow> retention_env \<Rightarrow> retentionCfg \<Rightarrow> 's SQLiteAuditLogger \<Rightarrow> 's SQLiteAuditLogger" where
  "retention_tick ops f env rc l = runRetention ops env rc (flush ops f l)"

section \<open>Interleaving\<close>

text \<open>
  One step of the system: a caller's \<open>Log\<close>, the closing of the channel, or one iteration of the
  writer.  On a closed channel a receive succeeds until the channel is empty; the receive after that
  ends the writer.
\<close>

datatype logger_action =
    DoLog select_outcome instant "string option" Event
  | DoClose
  | DoReceive fault
  | DoTick fault
  | DoRetention fault retention_env

inductive logger_step ::
  "'s store_ops \<Rightarrow> 's SQLiteAuditLogger \<Rightarrow> logger_action \<Rightarrow> 's SQLiteAuditLogger \<Rightarrow> bool"
  for ops where
  step_log: "log_enabled l sel \<Longrightarrow> snd (Log sel now uuid e l) = l' \<Longrightarrow>
    logger_step ops l (DoLog sel now uuid e) l'"
| step_close: "\<not> lg_closed l \<Longrightarrow> logger_step ops l DoClose (l\<lparr>lg_closed := True\<rparr>)"
| step_receive: "\<not> lg_done l \<Longrightarrow> lg_ch l \<noteq> [] \<or> lg_closed l \<Longrightarrow> receive ops f l = l' \<Longrightarrow>
    logger_step ops l (DoReceive f) l'"
| step_tick: "\<not> lg_done l \<Longrightarrow> flush ops f l = l' \<Longrightarrow> logger_step ops l (DoTick f) l'"
| step_retention: "\<not> lg_done l \<Longrightarrow> lg_retention l = Some rc \<Longrightarrow> retention_tick ops f env rc l = l' \<Longrightarrow>
    logger_step ops l (DoRetention f env) l'"

inductive logger_run ::
  "'s store_ops \<Rightarrow> 's SQLiteAuditLogger \<Rightarrow> logger_action list \<Rightarrow> 's SQLiteAuditLogger \<Rightarrow> bool"
  for ops where
  run_nil: "logger_run ops l [] l"
| run_cons: "logger_step ops l a l1 \<Longrightarrow> logger_run ops l1 as l2 \<Longrightarrow> logger_run ops l (a # as) l2"

inductive_cases step_logE: "logger_step ops l (DoLog sel now uuid e) l'"
inductive_cases step_closeE: "logger_step ops l DoClose l'"
inductive_cases step_receiveE: "logger_step ops l (DoReceive f) l'"
inductive_cases step_tickE: "logger_step ops l (DoTick f) l'"
inductive_cases step_retentionE: "logger_step ops l (DoRetention f env) l'"

inductive_simps logger_run_nil [simp]: "logger_run ops l [] l'"
inductive_simps logger_run_cons [simp]: "logger_run ops l (a # as) l'"

section \<open>Construction\<close>

datatype logger_error =
    StoreError open_error
  | UnknownSqliteWriteMode string
  | RetentionError retention_error
  | PathRequiredForSqlite
  | UnknownBackend string

text \<open>
  \<open>NewSQLiteAuditLogger\<close> up to the start of the goroutine; \<open>newStore\<close> is \<open>NewSQLiteStore\<close> on the
  configuration's path with the driver's answers.  The error of \<open>LastHash\<close> is ignored.
\<close>

definition or_default :: "int \<Rightarrow> int \<Rightarrow> int" where
  "or_default v dflt = (if v \<le> 0 then dflt else v)"

definition batch_delay :: "pd_fn \<Rightarrow> string \<Rightarrow> duration" where
  "batch_delay pd raw =
     (if raw = '''' then 100 * Millisecond
      else case pd raw of Inl err \<Rightarrow> 100 * Millisecond | Inr d \<Rightarrow> d)"

definition NewSQLiteAuditLogger ::
  "'s store_ops \<Rightarrow> (AuditSQLiteConfig \<Rightarrow> open_error + 's) \<Rightarrow> pd_fn \<Rightarrow> (string \<Rightarrow> int \<Rightarrow> int option) \<Rightarrow> fault
   \<Rightarrow> AuditConfig \<Rightarrow> logger_error + 's SQLiteAuditLogger" where
  "NewSQLiteAuditLogger ops newStore pd scaled f cfg =
     (case newStore (auc_SQLite cfg) of
        Inl err \<Rightarrow> Inl (StoreError err)
      | Inr st \<Rightarrow>
        (case parseSqliteWriteMode (awc_Mode (auc_Write cfg)) of
           None \<Rightarrow> Inl (UnknownSqliteWriteMode (awc_Mode (auc_Write cfg)))
         | Some mode \<Rightarrow>
           (case parseRetentionConfig pd scaled (auc_Retention cfg) of
              Inl err \<Rightarrow> Inl (RetentionError err)
            | Inr rc \<Rightarrow>
              Inr \<lparr>lg_store = st,
                lg_cfg = \<lparr>lc_batchMaxEvents = or_default (awc_BatchMaxEvents (auc_Write cfg)) 256,
                  lc_batchMaxDelay = batch_delay pd (awc_BatchMaxDelay (auc_Write cfg)),
                  lc_mode = mode, lc_hashChain = aic_HashChain (auc_Integrity cfg)\<rparr>,
                lg_ch = [], lg_chanSize = nat (or_default (awc_ChannelSize (auc_Write cfg)) 4096),
                lg_closed = False, lg_done = False, lg_dropped = 0, lg_writes = 0, lg_failures = 0,
                lg_lastHash = (case op_LastHash ops f st of Inl err \<Rightarrow> '''' | Inr h \<Rightarrow> h),
                lg_dbFailed = False,
                lg_retention = (if rc_vacuumInterval rc > 0 then Some rc else None),
                lg_batch = [], lg_metricDropped = 0, lg_metricFails = 0\<rparr>)))"

datatype 's any_logger = NoopLogger | StdoutLogger | SQLiteLogger "'s SQLiteAuditLogger"

definition NewLogger ::
  "'s store_ops \<Rightarrow> (AuditSQLiteConfig \<Rightarrow> open_error + 's) \<Rightarrow> pd_fn \<Rightarrow> (string \<Rightarrow> int \<Rightarrow> int option) \<Rightarrow> fault
   \<Rightarrow> AuditConfig \<Rightarrow> logger_error + 's any_logger" where
  "NewLogger ops newStore pd scaled f cfg =
     (if \<not> auc_Enabled cfg then Inr NoopLogger
      else if auc_Backend cfg = ''stdout'' then Inr StdoutLogger
      else if auc_Backend cfg = ''sqlite'' \<or> auc_Backend cfg = '''' then
        (if asc_Path (auc_SQLite cfg) = '''' then Inl PathRequiredForSqlite
         else case NewSQLiteAuditLogger ops newStore pd scaled f cfg of
           Inl err \<Rightarrow> Inl err | Inr l \<Rightarrow> Inr (SQLiteLogger l))
      else Inl (UnknownBackend (auc_Backend cfg)))"

text \<open>\<open>Close\<close> on the caller's side; the caller then waits for the writer and closes the store.\<close>

definition Close :: "'s SQLiteAuditLogger \<Rightarrow> 's SQLiteAuditLogger" where
  "Close l = l\<lparr>lg_closed := True\<rparr>"

section \<open>Facts about the writer\<close>

lemma hash_batch_chain:
  "hash_batch True tip es =
    (seal tip (map eventToStored es), chain_tip tip (seal tip (map eventToStored es)))"
  by (induction es arbitrary: tip) (simp_all add: Let_def link_def)

lemma payload_hash_batch:
  "map payload_of (fst (hash_batch chain tip es)) = map (payload_of \<circ> eventToStored) es"
proof (induction es arbitrary: tip)
  case (Cons e es)
  then show ?case by (cases chain) (simp_all add: Let_def payload_of_def case_prod_unfold)
qed simp

lemma length_hash_batch [simp]: "length (fst (hash_batch chain tip es)) = length es"
  using arg_cong [OF payload_hash_batch, of length chain tip es] by simp

text \<open>What the writer's operations leave alone.\<close>

lemma flush_simps [simp]:
  "lg_ch (flush ops f l) = lg_ch l" "lg_batch (flush ops f l) = []" "lg_cfg (flush ops f l) = lg_cfg l"
  "lg_closed (flush ops f l) = lg_closed l" "lg_done (flush ops f l) = lg_done l"
  "lg_chanSize (flush ops f l) = lg_chanSize l" "lg_retention (flush ops f l) = lg_retention l"
  by (auto simp: flush_def flushBatch_def reportWriteFail_def split: prod.splits option.splits)

lemma runRetention_eq:
  "\<exists>s h. runRetention ops env rc l = l\<lparr>lg_store := s, lg_lastHash := h\<rparr>"
proof -
  have a: "\<exists>s h. l\<lparr>lg_store := x\<rparr> = l\<lparr>lg_store := s, lg_lastHash := h\<rparr>" for x
    by (intro exI [of _ x] exI [of _ "lg_lastHash l"]) simp
  have b: "\<exists>s h. l\<lparr>lg_store := x, lg_lastHash := y\<rparr> = l\<lparr>lg_store := s, lg_lastHash := h\<rparr>" for x y
    by (intro exI [of _ x] exI [of _ y] refl)
  obtain d1 s1 d2 s2 where d: "retention_age ops env rc (lg_store l) = (d1, s1)"
    "retention_size ops env rc d1 s1 = (d2, s2)" by (metis surj_pair)
  obtain e s3 where s3: "op_ResealChain ops (re_reseal env) s2 = (e, s3)" by fastforce
  show ?thesis
    by (cases "d2 \<and> lc_hashChain (lg_cfg l)"; cases e; cases "op_LastHash ops (re_lastHash env) s3")
      (simp_all add: runRetention_def d s3 a b)
qed

lemma runRetention_simps [simp]:
  "lg_ch (runRetention ops env rc l) = lg_ch l" "lg_batch (runRetention ops env rc l) = lg_batch l"
  "lg_cfg (runRetention ops env rc l) = lg_cfg l" "lg_dbFailed (runRetention ops env rc l) = lg_dbFailed l"
  "lg_closed (runRetention ops env rc l) = lg_closed l" "lg_done (runRetention ops env rc l) = lg_done l"
  "lg_dropped (runRetention ops env rc l) = lg_dropped l" "lg_writes (runRetention ops env rc l) = lg_writes l"
  "lg_failures (runRetention ops env rc l) = lg_failures l"
  using runRetention_eq [of ops env rc l] by auto

lemma Log_disj:
  "(\<exists>err. Log sel now uuid e l = (Some err, l)) \<or> (\<exists>err. Log sel now uuid e l = (err, reportDrop 1 l)) \<or>
   Log sel now uuid e l = (None, send (stamp now (the uuid) e) l)"
  by (simp add: Log_def Let_def split: sqliteWriteMode.split select_outcome.split)

lemma Log_cases:
  obtains (rejected) err where "Log sel now uuid e l = (Some err, l)"
  | (dropped) err where "Log sel now uuid e l = (err, reportDrop 1 l)"
  | (sent) e' where "Log sel now uuid e l = (None, send e' l)" "e' = stamp now (the uuid) e"
  using Log_disj [of sel now uuid e l] by blast

lemma send_simps [simp]:
  "lg_ch (send e l) = lg_ch l @ [e]" "lg_batch (send e l) = lg_batch l" "lg_store (send e l) = lg_store l"
  "lg_cfg (send e l) = lg_cfg l" "lg_dbFailed (send e l) = lg_dbFailed l" "lg_lastHash (send e l) = lg_lastHash l"
  "lg_writes (send e l) = lg_writes l" "lg_failures (send e l) = lg_failures l" "lg_dropped (send e l) = lg_dropped l"
  by (simp_all add: send_def)

lemma reportDrop_simps [simp]:
  "lg_ch (reportDrop n l) = lg_ch l" "lg_batch (reportDrop n l) = lg_batch l" "lg_store (reportDrop n l) = lg_store l"
  "lg_cfg (reportDrop n l) = lg_cfg l" "lg_dbFailed (reportDrop n l) = lg_dbFailed l"
  "lg_lastHash (reportDrop n l) = lg_lastHash l" "lg_writes (reportDrop n l) = lg_writes l"
  "lg_failures (reportDrop n l) = lg_failures l" "lg_dropped (reportDrop n l) = lg_dropped l + int n"
  by (simp_all add: reportDrop_def)

section \<open>Runs with their history\<close>

text \<open>
  \<open>step_sends\<close> are the events a step puts into the channel; \<open>step_flushes\<close> the batches it hands to
  the store, each with the answer of the store.
\<close>

definition step_sends :: "'s SQLiteAuditLogger \<Rightarrow> logger_action \<Rightarrow> 's SQLiteAuditLogger \<Rightarrow> Event list" where
  "step_sends l a l' = (case a of DoLog sel now uuid e \<Rightarrow> drop (length (lg_ch l)) (lg_ch l') | _ \<Rightarrow> [])"

definition insert_answer :: "'s store_ops \<Rightarrow> fault \<Rightarrow> 's SQLiteAuditLogger \<Rightarrow> store_error option" where
  "insert_answer ops f l =
     fst (op_InsertBatch ops f (fst (hash_batch (lc_hashChain (lg_cfg l)) (lg_lastHash l) (lg_batch l))) (lg_store l))"

definition flush_record :: "'s store_ops \<Rightarrow> fault \<Rightarrow> 's SQLiteAuditLogger \<Rightarrow> (Event list \<times> bool) list" where
  "flush_record ops f l =
     (if lg_batch l = [] then [] else [(lg_batch l, insert_answer ops f l = None)])"

definition step_flushes :: "'s store_ops \<Rightarrow> 's SQLiteAuditLogger \<Rightarrow> logger_action \<Rightarrow> (Event list \<times> bool) list" where
  "step_flushes ops l a =
     (case a of
        DoTick f \<Rightarrow> flush_record ops f l
      | DoRetention f env \<Rightarrow> flush_record ops f l
      | DoReceive f \<Rightarrow>
        (case lg_ch l of
           [] \<Rightarrow> flush_record ops f l
         | e # rest \<Rightarrow>
           if int (length (lg_batch l @ [e])) \<ge> lc_batchMaxEvents (lg_cfg l)
           then flush_record ops f (l\<lparr>lg_ch := rest, lg_batch := lg_batch l @ [e]\<rparr>) else [])
      | _ \<Rightarrow> [])"

inductive logger_hist ::
  "'s store_ops \<Rightarrow> 's SQLiteAuditLogger \<Rightarrow> logger_action list \<Rightarrow> Event list \<Rightarrow> (Event list \<times> bool) list
   \<Rightarrow> 's SQLiteAuditLogger \<Rightarrow> bool" for ops l0 where
  hist_init: "logger_hist ops l0 [] [] [] l0"
| hist_step: "logger_hist ops l0 as S F l \<Longrightarrow> logger_step ops l a l' \<Longrightarrow>
    logger_hist ops l0 (as @ [a]) (S @ step_sends l a l') (F @ step_flushes ops l a) l'"

text \<open>Every run has a history.\<close>

lemma logger_run_hist:
  "logger_run ops l as l' \<Longrightarrow> logger_hist ops l0 bs S F l \<Longrightarrow> \<exists>S' F'. logger_hist ops l0 (bs @ as) S' F' l'"
proof (induction arbitrary: bs S F rule: logger_run.induct)
  case (run_cons l a l1 as l2)
  then show ?case using hist_step [OF run_cons.prems run_cons.hyps(1)] run_cons.IH by fastforce
qed auto

lemma flush_cases:
  obtains (empty) "lg_batch l = []" "flush ops f l = l" "flush_record ops f l = []"
  | (ok) s where "lg_batch l \<noteq> []"
      "op_InsertBatch ops f (fst (hash_batch (lc_hashChain (lg_cfg l)) (lg_lastHash l) (lg_batch l))) (lg_store l) = (None, s)"
      "flush ops f l = l\<lparr>lg_store := s, lg_dbFailed := False, lg_writes := lg_writes l + 1,
         lg_lastHash := snd (hash_batch (lc_hashChain (lg_cfg l)) (lg_lastHash l) (lg_batch l)), lg_batch := []\<rparr>"
      "flush_record ops f l = [(lg_batch l, True)]"
  | (fail) err s where "lg_batch l \<noteq> []"
      "op_InsertBatch ops f (fst (hash_batch (lc_hashChain (lg_cfg l)) (lg_lastHash l) (lg_batch l))) (lg_store l) = (Some err, s)"
      "flush ops f l = (reportWriteFail (length (lg_batch l)) (l\<lparr>lg_store := s\<rparr>))\<lparr>lg_batch := []\<rparr>"
      "flush_record ops f l = [(lg_batch l, False)]"
proof (cases "lg_batch l = []")
  case True
  then show thesis using empty by (simp add: flush_def flush_record_def)
next
  case False
  let ?h = "hash_batch (lc_hashChain (lg_cfg l)) (lg_lastHash l) (lg_batch l)"
  obtain r s where i: "op_InsertBatch ops f (fst ?h) (lg_store l) = (r, s)" by fastforce
  show thesis
  proof (cases r)
    case None
    show thesis
      using False i None
      by (intro ok [of s]) (simp_all add: flush_def flushBatch_def flush_record_def insert_answer_def case_prod_unfold)
  next
    case (Some err)
    show thesis
      using False i Some
      by (intro fail [of err s]) (simp_all add: flush_def flushBatch_def flush_record_def insert_answer_def case_prod_unfold)
  qed
qed

definition flushed :: "(Event list \<times> bool) list \<Rightarrow> Event list" where
  "flushed F = concat (map fst F)"

definition written :: "(Event list \<times> bool) list \<Rightarrow> Event list" where
  "written F = concat (map fst (filter snd F))"

definition lost :: "(Event list \<times> bool) list \<Rightarrow> Event list" where
  "lost F = concat (map fst (filter (\<lambda>x. \<not> snd x) F))"

lemma flushed_append [simp]: "flushed (F @ G) = flushed F @ flushed G"
  "written (F @ G) = written F @ written G" "lost (F @ G) = lost F @ lost G"
  by (simp_all add: flushed_def written_def lost_def)

lemma flushed_Nil [simp]: "flushed [] = []" "written [] = []" "lost [] = []"
  by (simp_all add: flushed_def written_def lost_def)

lemma flush_record_flushed [simp]: "flushed (flush_record ops f l) = lg_batch l"
  by (simp add: flush_record_def flushed_def)

text \<open>Where the accepted events are.\<close>

lemma step_fifo:
  assumes "logger_step ops l a l'"
  shows "lg_batch l @ lg_ch l @ step_sends l a l' = flushed (step_flushes ops l a) @ lg_batch l' @ lg_ch l'"
  using assms
proof (cases rule: logger_step.cases)
  case (step_log sel now uuid e)
  show ?thesis
    by (cases rule: Log_cases [of sel now uuid e l])
      (use step_log in \<open>auto simp: step_sends_def step_flushes_def\<close>)
next
  case (step_receive f)
  then show ?thesis
    by (cases "lg_ch l") (auto simp: step_sends_def step_flushes_def receive_def Let_def)
qed (auto simp: step_sends_def step_flushes_def retention_tick_def)

lemma hist_fifo:
  "logger_hist ops l0 as S F l \<Longrightarrow> lg_batch l0 @ lg_ch l0 @ S = flushed F @ lg_batch l @ lg_ch l"
proof (induction rule: logger_hist.induct)
  case (hist_step as S F l a l')
  then show ?case using step_fifo [OF hist_step.hyps(2)] by (metis append.assoc flushed_append(1))
qed simp

section \<open>What reaches the store\<close>

definition payloads :: "StoredEvent list \<Rightarrow> StoredEvent multiset" where
  "payloads es = mset (map payload_of es)"

definition not_retention :: "logger_action \<Rightarrow> bool" where
  "not_retention a = (case a of DoRetention f env \<Rightarrow> False | _ \<Rightarrow> True)"

text \<open>The environments in which a run of the retention meets no error after it has deleted rows.\<close>

definition clean_env :: "'s store_ops \<Rightarrow> retention_env \<Rightarrow> bool" where
  "clean_env ops env \<longleftrightarrow>
     (\<forall>m s. fst (op_TrimToSize ops (re_trim env) m s) = None) \<and>
     (\<forall>s. fst (op_ResealChain ops (re_reseal env) s) = None) \<and>
     (\<forall>s. \<exists>h. op_LastHash ops (re_lastHash env) s = Inr h)"

definition clean_action :: "'s store_ops \<Rightarrow> logger_action \<Rightarrow> bool" where
  "clean_action ops a = (case a of DoRetention f env \<Rightarrow> clean_env ops env | _ \<Rightarrow> True)"

abbreviation keys_of :: "Event list \<Rightarrow> event_key list" where
  "keys_of es \<equiv> map (\<lambda>e. event_key (eventToStored e)) es"

context audit_store
begin

lemma insert_mset:
  assumes "ok s" and "op_InsertBatch ops f es s = (None, s')"
  shows "ok s' \<and> mset (hist s') = mset (hist s) + mset es"
  using insert_ok [OF assms] by simp



lemma flush_payloads:
  assumes "ok (lg_store l)"
  shows "ok (lg_store (flush ops f l)) \<and>
    payloads (hist (lg_store (flush ops f l))) =
      payloads (hist (lg_store l)) + mset (map (payload_of \<circ> eventToStored) (written (flush_record ops f l))) \<and>
    lg_dropped (flush ops f l) = lg_dropped l + int (length (lost (flush_record ops f l)))"
proof (cases rule: flush_cases [where ops = ops and f = f and l = l])
  case empty
  then show ?thesis using assms by simp
next
  case (ok s)
  let ?rows = "fst (hash_batch (lc_hashChain (lg_cfg l)) (lg_lastHash l) (lg_batch l))"
  have "ok s" "mset (map payload_of (hist s)) =
      mset (map payload_of (hist (lg_store l))) + mset (map payload_of ?rows)"
    using insert_mset [OF assms ok(2)] by simp_all
  then show ?thesis
    using ok by (simp add: payloads_def written_def lost_def payload_hash_batch del: mset_map)
next
  case (fail err s)
  then show ?thesis
    using insert_fail [OF fail(2)] assms by (simp add: written_def lost_def reportWriteFail_def)
qed



lemma step_payloads:
  assumes "logger_step ops l a l'" and "ok (lg_store l)" and "not_retention a"
  shows "ok (lg_store l') \<and>
    payloads (hist (lg_store l')) =
      payloads (hist (lg_store l)) + mset (map (payload_of \<circ> eventToStored) (written (step_flushes ops l a))) \<and>
    lg_dropped l + int (length (lost (step_flushes ops l a))) \<le> lg_dropped l'"
  using assms(1)
proof (cases rule: logger_step.cases)
  case (step_log sel now uuid e)
  then show ?thesis
    using assms(2) by (cases rule: Log_cases [of sel now uuid e l]) (auto simp: step_flushes_def)
next
  case (step_receive f)
  show ?thesis
  proof (cases "lg_ch l")
    case Nil
    then show ?thesis
      using step_receive flush_payloads [OF assms(2), of f] by (auto simp: step_flushes_def receive_def)
  next
    case (Cons e rest)
    let ?l1 = "l\<lparr>lg_ch := rest, lg_batch := lg_batch l @ [e]\<rparr>"
    have "ok (lg_store ?l1)" using assms(2) by simp
    then show ?thesis
      using step_receive Cons flush_payloads [of ?l1 f] by (auto simp: step_flushes_def receive_def Let_def)
  qed
qed (use assms(2,3) flush_payloads in \<open>auto simp: step_flushes_def not_retention_def\<close>)

lemma hist_payloads:
  "logger_hist ops l0 as S F l \<Longrightarrow> ok (lg_store l0) \<Longrightarrow> list_all not_retention as \<Longrightarrow>
   ok (lg_store l) \<and>
   payloads (hist (lg_store l)) = payloads (hist (lg_store l0)) + mset (map (payload_of \<circ> eventToStored) (written F)) \<and>
   lg_dropped l0 + int (length (lost F)) \<le> lg_dropped l"
proof (induction rule: logger_hist.induct)
  case (hist_step as S F l a l')
  then show ?case using step_payloads [OF hist_step.hyps(2)] by (auto simp: comp_def)
qed simp

section \<open>The chain stays intact\<close>



text \<open>The tip the writer remembers is the last hash of an intact chain.\<close>

definition chained :: "'s \<Rightarrow> string \<Rightarrow> bool" where
  "chained s tip \<longleftrightarrow> ok s \<and> chain_ok '''' (hist s) \<and> tip = chain_tip '''' (hist s)"

lemma chained_insert:
  assumes "chained s tip" and "op_InsertBatch ops f (fst (hash_batch True tip es)) s = (None, s')"
    and "sorted (map event_key (hist s) @ keys_of es)"
  shows "chained s' (snd (hash_batch True tip es)) \<and> map event_key (hist s') = map event_key (hist s) @ keys_of es"
proof -
  have k: "map event_key (seal t (map eventToStored es)) = keys_of es" for t
    by (simp add: map_seal)
  have i: "op_InsertBatch ops f (seal tip (map eventToStored es)) s = (None, s')"
    using assms(2) by (simp add: hash_batch_chain)
  have "sorted (map event_key (hist s @ seal tip (map eventToStored es)))"
    using assms(3) k by simp
  moreover have "ok s" using assms(1) by (simp add: chained_def)
  ultimately have "hist s' = hist s @ seal tip (map eventToStored es)"
    using insert_in_order [OF _ i] by blast
  then show ?thesis
    using assms(1) insert_ok [OF _ i] by (simp add: chained_def chain_ok_append hash_batch_chain k)
qed

text \<open>Pruning keeps part of the keys, in order.\<close>

lemma retention_age_cases:
  assumes "ok s" and "retention_age ops env rc s = (d, s')"
  shows "ok s' \<and> (if d then set (hist s') \<subseteq> set (hist s) else s' = s \<or> hist s' = hist s)"
proof (cases "rc_maxAge rc > 0")
  case True
  obtain r s1 where D: "op_DeleteBefore ops (re_delete env) (Add (re_now env) (- rc_maxAge rc)) s = (r, s1)"
    by fastforce
  show ?thesis
  proof (cases r)
    case (Inl err)
    have "s1 = s" using D Inl by (auto dest: delete_fail)
    then show ?thesis using True D assms Inl by (auto simp: retention_age_def)
  next
    case (Inr n)
    have "length (filter P xs) = length xs \<Longrightarrow> filter P xs = xs" for P and xs :: "StoredEvent list"
      by (metis filter_id_conv length_filter_less order_less_irrefl)
    then show ?thesis
      using True D assms Inr delete_ok [OF assms(1), of "re_delete env"] by (auto simp: retention_age_def)
  qed
qed (use assms in \<open>simp add: retention_age_def\<close>)

lemma retention_size_cases:
  assumes "ok s" and "retention_size ops env rc d s = (d', s')" and "clean_env ops env"
  shows "ok s' \<and> (d \<longrightarrow> d') \<and> (if d' then set (hist s') \<subseteq> set (hist s) else s' = s)"
  using assms trim [OF assms(1), of "re_trim env" "rc_maxSizeBytes rc"]
  by (auto simp: retention_size_def Let_def clean_env_def split: if_splits prod.splits option.splits
      dest: in_set_dropD) (metis fst_conv option.distinct(1))+

lemma runRetention_chained:
  assumes "chained (lg_store l) (lg_lastHash l)" and "clean_env ops env" and "lc_hashChain (lg_cfg l)"
  shows "chained (lg_store (runRetention ops env rc l)) (lg_lastHash (runRetention ops env rc l)) \<and>
    set (map event_key (hist (lg_store (runRetention ops env rc l)))) \<subseteq> set (map event_key (hist (lg_store l)))"
proof -
  obtain d1 s1 d2 s2 where d: "retention_age ops env rc (lg_store l) = (d1, s1)"
    "retention_size ops env rc d1 s1 = (d2, s2)" by (metis surj_pair)
  have ok0: "ok (lg_store l)" using assms(1) by (simp add: chained_def)
  note r1 = retention_age_cases [OF ok0 d(1)]
  note r2 = retention_size_cases [OF conjunct1 [OF r1] d(2) assms(2)]
  show ?thesis
  proof (cases d2)
    case False
    then have "hist s2 = hist (lg_store l)" using r1 r2 by (auto split: if_splits)
    moreover have "runRetention ops env rc l = l\<lparr>lg_store := s2\<rparr>"
      using d False by (simp add: runRetention_def)
    ultimately show ?thesis using assms(1) r2 by (simp add: chained_def)
  next
    case True
    obtain s3 where s3: "op_ResealChain ops (re_reseal env) s2 = (None, s3)"
      using assms(2) unfolding clean_env_def by (metis prod.collapse)
    obtain h where h: "op_LastHash ops (re_lastHash env) s3 = Inr h"
      using assms(2) unfolding clean_env_def by blast
    have ok2: "ok s2" using r2 by simp
    have sub: "set (map event_key (hist s2)) \<subseteq> set (map event_key (hist (lg_store l)))"
      using r1 r2 True by (auto split: if_splits)
    have "hist s3 = seal '''' (hist s2)" "ok s3" using reseal_ok [OF ok2 s3] by simp_all
    moreover have "map event_key (seal '''' (hist s2)) = map event_key (hist s2)"
      by (rule map_seal) simp
    moreover have "h = chain_tip '''' (hist s3)" using calculation(2) h by (rule last_hash)
    ultimately show ?thesis
      using d True s3 h sub assms(3) by (simp add: runRetention_def chained_def del: set_map)
  qed
qed

lemma flush_chained:
  assumes "chained (lg_store l) (lg_lastHash l)" and "lc_hashChain (lg_cfg l)"
    and "sorted (map event_key (hist (lg_store l)) @ keys_of (lg_batch l))"
  shows "chained (lg_store (flush ops f l)) (lg_lastHash (flush ops f l)) \<and>
    set (map event_key (hist (lg_store (flush ops f l)))) \<subseteq>
      set (map event_key (hist (lg_store l)) @ keys_of (lg_batch l))"
proof (cases rule: flush_cases [where ops = ops and f = f and l = l])
  case empty
  then show ?thesis using assms by simp
next
  case (ok s)
  have "op_InsertBatch ops f (fst (hash_batch True (lg_lastHash l) (lg_batch l))) (lg_store l) = (None, s)"
    using ok(2) assms(2) by simp
  from chained_insert [OF assms(1) this assms(3)] show ?thesis
    using ok(3) assms(2) by (simp del: set_map set_append)
next
  case (fail err s)
  then show ?thesis using insert_fail [OF fail(2)] assms by (simp add: reportWriteFail_def)
qed

text \<open>
  \<open>ordered_state K l\<close>: the chain is intact, what is pending is in key order and younger than the
  history, and all keys are among those of \<open>K\<close>.
\<close>

definition ordered_state :: "event_key list \<Rightarrow> 's SQLiteAuditLogger \<Rightarrow> bool" where
  "ordered_state K l \<longleftrightarrow> lc_hashChain (lg_cfg l) \<and> chained (lg_store l) (lg_lastHash l) \<and>
     sorted (map event_key (hist (lg_store l)) @ keys_of (lg_batch l @ lg_ch l)) \<and>
     set (map event_key (hist (lg_store l)) @ keys_of (lg_batch l @ lg_ch l)) \<subseteq> set K"

lemma ordered_stateI:
  assumes "lc_hashChain (lg_cfg l')" and "chained (lg_store l') (lg_lastHash l')"
    and "sorted (ks @ keys_of (lg_batch l' @ lg_ch l'))"
    and "set (map event_key (hist (lg_store l'))) \<subseteq> set ks"
    and "set (ks @ keys_of (lg_batch l' @ lg_ch l')) \<subseteq> set K"
  shows "ordered_state K l'"
  unfolding ordered_state_def
  using assms hist_sorted [of "lg_store l'"]
  by (auto simp: sorted_append chained_def simp del: set_map)

lemma ordered_state_flush:
  assumes "ordered_state K l"
  shows "ordered_state K (flush ops f l)"
proof (rule ordered_stateI)
  let ?ks = "map event_key (hist (lg_store l)) @ keys_of (lg_batch l)"
  have s: "sorted ?ks" using assms by (simp add: ordered_state_def sorted_append)
  note fl = flush_chained [OF _ _ s, of f]
  show "chained (lg_store (flush ops f l)) (lg_lastHash (flush ops f l))"
    "set (map event_key (hist (lg_store (flush ops f l)))) \<subseteq> set ?ks"
    using fl assms unfolding ordered_state_def by blast+
  show "sorted (?ks @ keys_of (lg_batch (flush ops f l) @ lg_ch (flush ops f l)))"
    "set (?ks @ keys_of (lg_batch (flush ops f l) @ lg_ch (flush ops f l))) \<subseteq> set K"
    using assms by (simp_all add: ordered_state_def)
qed (use assms in \<open>simp add: ordered_state_def\<close>)

lemma ordered_state_retention:
  assumes "ordered_state K l" and "clean_env ops env"
  shows "ordered_state K (runRetention ops env rc l)"
proof (rule ordered_stateI)
  let ?ks = "map event_key (hist (lg_store l))"
  note r = runRetention_chained [OF _ assms(2), of l rc]
  show "chained (lg_store (runRetention ops env rc l)) (lg_lastHash (runRetention ops env rc l))"
    "set (map event_key (hist (lg_store (runRetention ops env rc l)))) \<subseteq> set ?ks"
    using r assms(1) unfolding ordered_state_def by blast+
qed (use assms in \<open>simp_all add: ordered_state_def\<close>)

lemma ordered_state_step:
  assumes "logger_step ops l a l'" and "clean_action ops a" and "ordered_state K l"
    and "sorted (K @ keys_of (step_sends l a l'))"
  shows "ordered_state (K @ keys_of (step_sends l a l')) l'"
  using assms(1)
proof (cases rule: logger_step.cases)
  case (step_log sel now uuid e)
  show ?thesis
  proof (cases rule: Log_cases [of sel now uuid e l])
    case (sent e')
    have "step_sends l a l' = [e']" using step_log sent by (auto simp: step_sends_def)
    moreover have "sorted xs \<Longrightarrow> set xs \<subseteq> set K \<Longrightarrow> sorted (K @ [k]) \<Longrightarrow>
        sorted (xs @ [k]) \<and> set (xs @ [k]) \<subseteq> set (K @ [k])" for xs k
      by (auto simp: sorted_append)
    from this [of "map event_key (hist (lg_store l)) @ keys_of (lg_batch l @ lg_ch l)" "event_key (eventToStored e')"]
    have "ordered_state (K @ [event_key (eventToStored e')]) (send e' l)"
      using assms(3,4) calculation by (simp add: ordered_state_def)
    ultimately show ?thesis
      using step_log sent by auto
  qed (use assms(3) step_log in \<open>auto simp: ordered_state_def step_sends_def\<close>)
next
  case step_close
  then show ?thesis using assms(3) by (simp add: ordered_state_def step_sends_def)
next
  case (step_receive f)
  show ?thesis
  proof (cases "lg_ch l")
    case Nil
    then show ?thesis
      using step_receive ordered_state_flush [OF assms(3), of f]
      by (auto simp: step_sends_def receive_def ordered_state_def)
  next
    case (Cons e rest)
    have "ordered_state K (l\<lparr>lg_ch := rest, lg_batch := lg_batch l @ [e]\<rparr>)"
      using assms(3) Cons by (simp add: ordered_state_def)
    then show ?thesis
      using step_receive Cons ordered_state_flush by (auto simp: step_sends_def receive_def Let_def)
  qed
next
  case (step_tick f)
  then show ?thesis using ordered_state_flush [OF assms(3)] by (auto simp: step_sends_def)
next
  case (step_retention rc f env)
  then show ?thesis
    using ordered_state_retention [OF ordered_state_flush [OF assms(3)]] assms(2)
    by (auto simp: step_sends_def retention_tick_def clean_action_def)
qed

lemma ordered_state_hist:
  "logger_hist ops l0 as S F l \<Longrightarrow> list_all (clean_action ops) as \<Longrightarrow> ordered_state K l0 \<Longrightarrow>
   sorted (K @ keys_of S) \<Longrightarrow> ordered_state (K @ keys_of S) l"
proof (induction rule: logger_hist.induct)
  case (hist_step as S F l a l')
  have "sorted (K @ keys_of S)" using hist_step.prems(3) by (simp add: sorted_append)
  then have "ordered_state (K @ keys_of S) l" using hist_step.IH hist_step.prems by simp
  moreover have "sorted ((K @ keys_of S) @ keys_of (step_sends l a l'))"
    using hist_step.prems(3) by simp
  moreover have "clean_action ops a" using hist_step.prems(1) by simp
  ultimately have "ordered_state ((K @ keys_of S) @ keys_of (step_sends l a l')) l'"
    by (intro ordered_state_step [OF hist_step.hyps(2)])
  then show ?case by simp
qed simp

end

text \<open>The retention only removes rows: every payload that is left was there before.\<close>

lemma payloads_filter: "payloads (filter P es) \<subseteq># payloads es"
  using image_mset_subseteq_mono [OF multiset_filter_subset [of P "mset es"], of payload_of]
  by (simp add: payloads_def mset_filter)

lemma payloads_drop: "payloads (drop n es) \<subseteq># payloads es"
proof -
  have "payloads es = payloads (take n es) + payloads (drop n es)"
    unfolding payloads_def by (metis append_take_drop_id map_append mset_append)
  then show ?thesis by simp
qed

lemma payloads_seal: "payloads (seal p es) = payloads es"
  by (simp add: payloads_def map_seal del: mset_map)

context audit_store
begin

lemma retention_age_payloads:
  assumes "ok s" and "retention_age ops env rc s = (d, s')"
  shows "ok s' \<and> payloads (hist s') \<subseteq># payloads (hist s)"
proof -
  have f: "op_DeleteBefore ops (re_delete env) c s = (Inl err, s1) \<Longrightarrow> s1 = s" for c err s1 by (rule delete_fail)
  show ?thesis
    using assms delete_ok [OF assms(1), of "re_delete env"]
    by (auto simp: retention_age_def payloads_filter dest!: f split: if_splits prod.splits sum.splits)
qed

lemma retention_size_payloads:
  assumes "ok s" and "retention_size ops env rc d s = (d', s')"
  shows "ok s' \<and> payloads (hist s') \<subseteq># payloads (hist s)"
proof -
  have t: "ok s1 \<and> payloads (hist s1) \<subseteq># payloads (hist s)"
    if "op_TrimToSize ops (re_trim env) (rc_maxSizeBytes rc) s = (x, s1)" for x s1
    using trim [OF assms(1) that] payloads_drop by metis
  show ?thesis
    using assms t by (auto simp: retention_size_def Let_def split: if_splits prod.splits option.splits)
qed

lemma runRetention_payloads:
  assumes "ok (lg_store l)"
  shows "ok (lg_store (runRetention ops env rc l)) \<and>
    payloads (hist (lg_store (runRetention ops env rc l))) \<subseteq># payloads (hist (lg_store l))"
proof -
  obtain d1 s1 d2 s2 where d: "retention_age ops env rc (lg_store l) = (d1, s1)"
    "retention_size ops env rc d1 s1 = (d2, s2)" by (metis surj_pair)
  obtain e s3 where s3: "op_ResealChain ops (re_reseal env) s2 = (e, s3)" by fastforce
  have 2: "ok s2 \<and> payloads (hist s2) \<subseteq># payloads (hist (lg_store l))"
    using retention_age_payloads [OF assms d(1)] retention_size_payloads [OF _ d(2)] subset_mset.order_trans by blast
  have 3: "ok s3 \<and> payloads (hist s3) = payloads (hist s2)"
    using 2 reseal_ok [of s2 "re_reseal env" s3] reseal_fail [of "re_reseal env" s2 _ s3] s3
    by (cases e) (auto simp: payloads_seal)
  show ?thesis
    using d s3 2 3
    by (cases "d2 \<and> lc_hashChain (lg_cfg l)"; cases e; cases "op_LastHash ops (re_lastHash env) s3")
      (simp_all add: runRetention_def)
qed

lemma step_payloads_sub:
  assumes "logger_step ops l a l'" and "ok (lg_store l)"
  shows "ok (lg_store l') \<and>
    payloads (hist (lg_store l')) \<subseteq>#
      payloads (hist (lg_store l)) + mset (map (payload_of \<circ> eventToStored) (written (step_flushes ops l a))) \<and>
    lg_dropped l + int (length (lost (step_flushes ops l a))) \<le> lg_dropped l'"
proof (cases "not_retention a")
  case True
  then show ?thesis using step_payloads [OF assms] by (metis subset_mset.order_refl)
next
  case False
  then obtain f env where a: "a = DoRetention f env" by (cases a) (auto simp: not_retention_def)
  then obtain rc where l': "l' = runRetention ops env rc (flush ops f l)"
    using assms(1) by (auto simp: retention_tick_def elim: step_retentionE)
  note fl = flush_payloads [OF assms(2), of f]
  show ?thesis
    using fl runRetention_payloads [of "flush ops f l" env rc] by (simp add: a l' step_flushes_def)
qed

lemma hist_payloads_sub:
  "logger_hist ops l0 as S F l \<Longrightarrow> ok (lg_store l0) \<Longrightarrow>
   ok (lg_store l) \<and>
   payloads (hist (lg_store l)) \<subseteq># payloads (hist (lg_store l0)) + mset (map (payload_of \<circ> eventToStored) (written F)) \<and>
   lg_dropped l0 + int (length (lost F)) \<le> lg_dropped l"
proof (induction rule: logger_hist.induct)
  case (hist_step as S F l a l')
  let ?w = "\<lambda>F. mset (map (payload_of \<circ> eventToStored) (written F))"
  note st = step_payloads_sub [OF hist_step.hyps(2)]
  have "payloads (hist (lg_store l')) \<subseteq># payloads (hist (lg_store l0)) + ?w F + ?w (step_flushes ops l a)"
    using hist_step st by (meson subset_mset.add_right_mono subset_mset.order_trans)
  then show ?case using hist_step st by (auto simp: comp_def add.assoc)
qed simp

end

section \<open>Properties\<close>





definition blank_event :: "string \<Rightarrow> instant \<Rightarrow> Event" where
  "blank_event i ts = \<lparr>ev_Timestamp = Some ts, ev_Action = ''tools/call'', ev_Tool = '''',
     ev_Decision = ''allow'', ev_Reason = '''', ev_PolicyRule = '''', ev_ClientID = '''',
     ev_RequestID = '''', ev_Duration = 0, ev_Error = None, ev_EventID = Some i, ev_TraceID = '''',
     ev_SpanID = '''', ev_SessionID = '''', ev_UpstreamID = '''', ev_Arguments = [], ev_Response = None\<rparr>"

definition blank_logger :: "sqliteWriteMode \<Rightarrow> sqliteStore SQLiteAuditLogger" where
  "blank_logger mode = \<lparr>lg_store = \<lparr>ss_path = ''audit.db'', ss_rows = []\<rparr>,
     lg_cfg = \<lparr>lc_batchMaxEvents = 2, lc_batchMaxDelay = 100 * Millisecond, lc_mode = mode, lc_hashChain = True\<rparr>,
     lg_ch = [], lg_chanSize = 4, lg_closed = False, lg_done = False, lg_dropped = 0, lg_writes = 0,
     lg_failures = 0, lg_lastHash = '''', lg_dbFailed = False, lg_retention = None, lg_batch = [],
     lg_metricDropped = 0, lg_metricFails = 0\<rparr>"


text \<open>
  C20: Delivery.  In every interleaving of callers, writer and retention, with every combination of failing
  and succeeding batch writes and of errors of the retention, the accepted events in the order in which
  they were accepted are the batches handed to the store followed by what is still in the batch and in the
  channel: nothing is lost, duplicated or reordered on the way.  Every event of a batch whose write failed
  is counted as dropped.  Nothing is in the table but what it contained before and the events of the
  batches whose write succeeded, each as often; and as long as the retention has not run, all of that is
  in it.
\<close>

theorem audit_delivery:
  assumes "logger_hist sqlite_ops l0 as S F l" and "table_ok (ss_rows (lg_store l0))"
  shows "lg_batch l0 @ lg_ch l0 @ S = flushed F @ lg_batch l @ lg_ch l \<and>
    lg_dropped l0 + int (length (lost F)) \<le> lg_dropped l \<and>
    payloads (ss_rows (lg_store l)) \<subseteq>#
      payloads (ss_rows (lg_store l0)) + mset (map (payload_of \<circ> eventToStored) (written F)) \<and>
    (list_all not_retention as \<longrightarrow>
      payloads (ss_rows (lg_store l)) =
        payloads (ss_rows (lg_store l0)) + mset (map (payload_of \<circ> eventToStored) (written F)))"
proof -
  have "payloads (history s) = payloads (ss_rows s)" for s
    by (simp add: payloads_def history_def)
  then show ?thesis
    using hist_fifo [OF assms(1)] sqlite.hist_payloads_sub [OF assms(1)] sqlite.hist_payloads [OF assms(1)] assms(2)
    by (simp add: store_ok_def)
qed

lemma hist_stepI:
  "logger_hist ops l0 as S F l \<Longrightarrow> logger_step ops l a l' \<Longrightarrow> S' = S @ step_sends l a l' \<Longrightarrow>
   F' = F @ step_flushes ops l a \<Longrightarrow> as' = as @ [a] \<Longrightarrow> logger_hist ops l0 as' S' F' l'"
  using hist_step by blast

text \<open>One event is logged and received, and the tick writes it.\<close>

definition one_event_run :: "logger_action list" where
  "one_event_run = [DoLog Sent 5 None (blank_event ''a'' 1), DoReceive None, DoTick None]"

lemma stamp_blank: "stamp now u (blank_event i ts) = blank_event i ts"
  by (simp add: stamp_def blank_event_def)

lemma one_event_hist:
  "\<exists>l. logger_hist sqlite_ops (blank_logger ModeFailClosed) one_event_run
     [blank_event ''a'' 1] [([blank_event ''a'' 1], True)] l"
proof -
  let ?l0 = "blank_logger ModeFailClosed" and ?e = "blank_event ''a'' 1"
  have u: "ev_EventID ?e = Some ''a''" by (simp add: blank_event_def)
  have s1: "logger_step sqlite_ops ?l0 (DoLog Sent 5 None ?e) (send ?e ?l0)"
    by (rule step_log) (use u in \<open>simp_all add: Log_def Let_def stamp_blank blank_logger_def\<close>)
  let ?l2 = "?l0\<lparr>lg_batch := [?e]\<rparr>"
  have s2: "logger_step sqlite_ops (send ?e ?l0) (DoReceive None) ?l2"
    by (rule step_receive) (simp_all add: receive_def send_def blank_logger_def)
  have s3: "logger_step sqlite_ops ?l2 (DoTick None) (flush sqlite_ops None ?l2)"
    by (rule step_tick) (simp_all add: blank_logger_def)
  have ans: "insert_answer sqlite_ops None ?l2 = None"
    by (simp add: insert_answer_def sqlite_ops_def InsertBatch_def blank_logger_def Let_def)
  have h1: "logger_hist sqlite_ops ?l0 [DoLog Sent 5 None ?e] [?e] [] (send ?e ?l0)"
    by (rule hist_stepI [OF hist_init s1]) (simp_all add: step_sends_def step_flushes_def)
  have h2: "logger_hist sqlite_ops ?l0 [DoLog Sent 5 None ?e, DoReceive None] [?e] [] ?l2"
    by (rule hist_stepI [OF h1 s2])
      (simp_all add: step_sends_def step_flushes_def send_def blank_logger_def)
  have "logger_hist sqlite_ops ?l0 one_event_run [?e] [([?e], True)] (flush sqlite_ops None ?l2)"
    by (rule hist_stepI [OF h2 s3])
      (simp_all add: step_sends_def step_flushes_def flush_record_def ans one_event_run_def)
  then show ?thesis by blast
qed

theorem audit_delivery_witness:
  "\<exists>l :: sqliteStore SQLiteAuditLogger. logger_hist sqlite_ops (blank_logger ModeFailClosed) one_event_run
     [blank_event ''a'' 1] [([blank_event ''a'' 1], True)] l \<and>
    payloads (ss_rows (lg_store l)) = {#payload_of (eventToStored (blank_event ''a'' 1))#}"
proof -
  obtain l where h: "logger_hist sqlite_ops (blank_logger ModeFailClosed) one_event_run
     [blank_event ''a'' 1] [([blank_event ''a'' 1], True)] l"
    using one_event_hist by blast
  have "payloads (ss_rows (lg_store l)) = {#payload_of (eventToStored (blank_event ''a'' 1))#}"
    using audit_delivery [OF h]
    by (simp add: blank_logger_def table_ok_def one_event_run_def not_retention_def written_def payloads_def)
  then show ?thesis using h by blast
qed







text \<open>
  The order of acceptance matters.  The gateway takes an event's timestamp before it waits for
  the upstream, so a slow call can be accepted after a later one: here the event of time 2 is
  accepted before the event of time 1.  Both are written by one successful batch, nobody touches
  the table, and \<open>VerifyChain\<close> reports a mismatch at the first row.
\<close>

theorem out_of_order_breaks_chain:
  "VerifyChain None (lg_store (flush sqlite_ops None
     ((blank_logger ModeFailClosed)\<lparr>lg_batch := [blank_event ''b'' 2, blank_event ''a'' 1]\<rparr>))) =
   Some (Inr (PrevHashMismatch ''a'' (ComputeHash '''' (eventToStored (blank_event ''b'' 2))) ''''))"
proof -
  let ?b = "eventToStored (blank_event ''b'' 2)" and ?a = "eventToStored (blank_event ''a'' 1)"
  let ?h = "ComputeHash '''' ?b"
  have k: "event_key ?b = EventKey 2 ''b''" "event_key ?a = EventKey 1 ''a''"
    and i: "se_EventID ?b = ''b''" "se_EventID ?a = ''a''"
    and t: "se_TsUnixNano ?b = 2" "se_TsUnixNano ?a = 1"
    by (simp_all add: event_key_def eventToStored_def blank_event_def UnixNano_def int64_id in_int64_def)
  have "lg_store (flush sqlite_ops None
      ((blank_logger ModeFailClosed)\<lparr>lg_batch := [blank_event ''b'' 2, blank_event ''a'' 1]\<rparr>)) =
    \<lparr>ss_path = ''audit.db'', ss_rows = [link '''' ?b, link ?h ?a]\<rparr>"
    by (simp add: flush_def flushBatch_def link_def Let_def blank_logger_def sqlite_ops_def InsertBatch_def i)
  moreover have "ordered [link '''' ?b, link ?h ?a] = [link ?h ?a, link '''' ?b]"
    by (simp add: ordered_def k less_eq_event_key_def)
  moreover have "?h \<noteq> ''''"
    using length_ComputeHash [of "''''" ?b] by (metis list.size(3) zero_neq_numeral)
  ultimately show ?thesis
    by (simp add: VerifyChain_def Scan_def t verify_event_def i case_prod_unfold Let_def)
qed

text \<open>
  The state after a failed batch in fail-closed mode, when nothing is queued.
\<close>

definition stuck :: "'s SQLiteAuditLogger \<Rightarrow> bool" where
  "stuck l \<longleftrightarrow> lc_mode (lg_cfg l) = ModeFailClosed \<and> lg_dbFailed l \<and> lg_ch l = [] \<and> lg_batch l = []"

lemma stuck_step: "logger_step ops l a l' \<Longrightarrow> stuck l \<Longrightarrow> stuck l'"
proof (induction rule: logger_step.induct)
  case (step_log l sel now uuid e l')
  then have "Log sel now uuid e l = (Some UUIDFailed, l) \<or> Log sel now uuid e l = (Some ErrAuditFull, l)"
    by (auto simp: Log_def Let_def stuck_def)
  with step_log show ?case by auto
next
  case (step_receive l f l')
  then show ?case by (auto simp: stuck_def receive_def flush_def)
next
  case (step_tick l f l')
  then show ?case by (auto simp: stuck_def flush_def)
next
  case (step_retention l rc f env l')
  then show ?case by (auto simp: stuck_def retention_tick_def flush_def)
qed (simp add: stuck_def)

lemma stuck_run: "logger_run ops l as l' \<Longrightarrow> stuck l \<Longrightarrow> stuck l'"
  by (induction rule: logger_run.induct) (auto dest: stuck_step)

text \<open>
  Fail-closed is for ever.  Once a batch write has failed while nothing is queued, the flag
  \<open>dbFailed\<close> is only cleared by a successful write, but \<open>Log\<close> rejects every event while it is set and
  the writer does not write empty batches: so after every further run, however healthy the database
  is, every call of \<open>Log\<close> returns an error and leaves the logger unchanged.
\<close>

theorem fail_closed_forever:
  assumes "stuck l" and "logger_run ops l as l'"
  shows "fst (Log sel now uuid e l') \<noteq> None \<and> snd (Log sel now uuid e l') = l'"
  using stuck_run [OF assms(2,1)] by (auto simp: stuck_def Log_def Let_def)

text \<open>One event is accepted, its batch fails once, and the logger is stuck.\<close>

theorem fail_closed_forever_witness:
  "fst (Log Sent 9 (Some ''u'') (blank_event ''b'' 2)
     (flush sqlite_ops None (flush sqlite_ops (Some ''disk I/O error'')
       ((blank_logger ModeFailClosed)\<lparr>lg_batch := [blank_event ''a'' 1]\<rparr>)))) \<noteq> None"
proof -
  let ?l = "flush sqlite_ops (Some ''disk I/O error'') ((blank_logger ModeFailClosed)\<lparr>lg_batch := [blank_event ''a'' 1]\<rparr>)"
  have s: "stuck ?l"
    by (simp add: stuck_def flush_def flushBatch_def blank_logger_def sqlite_ops_def InsertBatch_def Let_def
        reportWriteFail_def)
  have "logger_step sqlite_ops ?l (DoTick None) (flush sqlite_ops None ?l)"
    by (rule step_tick) (simp_all add: blank_logger_def)
  then have "logger_run sqlite_ops ?l [DoTick None] (flush sqlite_ops None ?l)"
    by simp
  from fail_closed_forever [OF s this] show ?thesis by blast
qed

text \<open>The receive steps of the writer after \<open>Close\<close>.\<close>

lemma receive_simps [simp]:
  "lg_closed (receive ops f l) = lg_closed l" "lg_cfg (receive ops f l) = lg_cfg l"
  "lg_ch (receive ops f l) = tl (lg_ch l)"
  by (cases "lg_ch l"; simp add: receive_def Let_def)+

lemma drain:
  "lg_closed l \<Longrightarrow> \<not> lg_done l \<Longrightarrow>
   \<exists>l'. logger_run ops l (map DoReceive (map faults [n..<n + Suc (length (lg_ch l))])) l' \<and>
     lg_done l' \<and> lg_ch l' = [] \<and> lg_batch l' = []"
proof (induction "lg_ch l" arbitrary: l n)
  case Nil
  then have "logger_step ops l (DoReceive (faults n)) (receive ops (faults n) l)"
    by (intro step_receive) simp_all
  then show ?case
    using Nil by (intro exI [of _ "receive ops (faults n) l"]) (auto simp: receive_def)
next
  case (Cons e rest)
  let ?l1 = "receive ops (faults n) l"
  have step: "logger_step ops l (DoReceive (faults n)) ?l1"
    using Cons by (intro step_receive) auto
  have "rest = lg_ch ?l1" "lg_closed ?l1" "\<not> lg_done ?l1"
    using Cons by (auto simp: receive_def Let_def split: list.splits)
  from Cons.hyps(1) [OF this, of "Suc n"] obtain l' where
    l': "logger_run ops ?l1 (map DoReceive (map faults [Suc n..<Suc n + Suc (length (lg_ch ?l1))])) l'"
      "lg_done l'" "lg_ch l' = []" "lg_batch l' = []" by blast
  have "length (lg_ch l) = Suc (length (lg_ch ?l1))"
    by (metis Cons.hyps(2) length_Cons list.sel(3) receive_simps(3))
  then have "[n..<n + Suc (length (lg_ch l))] = n # [Suc n..<Suc n + Suc (length (lg_ch ?l1))]"
    by (simp only: upt_conv_Cons add_Suc_right add_Suc less_add_Suc1 less_Suc_eq_le le_add1 refl)
  then have "logger_run ops l (map DoReceive (map faults [n..<n + Suc (length (lg_ch l))])) l'"
    using step l'(1) by (simp only: list.map) (rule run_cons)
  then show ?case using l' by blast
qed

text \<open>
  \<open>Close\<close> comes to an end.  After the channel is closed the writer needs exactly one receive for
  every queued event and one more; it then stops with the channel and the batch empty, whatever the
  store answers to its writes, so every accepted event has been handed to the store.
\<close>

theorem close_drains:
  assumes "\<not> lg_done l"
  shows "\<exists>l'. logger_run ops (Close l) (map DoReceive (map faults [0..<Suc (length (lg_ch l))])) l' \<and>
    lg_done l' \<and> lg_ch l' = [] \<and> lg_batch l' = []"
  using drain [of "Close l" ops faults 0] assms by (simp add: Close_def)

theorem close_drains_witness:
  "\<exists>l' :: sqliteStore SQLiteAuditLogger. lg_done l' \<and> lg_batch l' = []"
  using close_drains [of "send (blank_event ''a'' 1) (blank_logger ModeDrop)" sqlite_ops "\<lambda>_. None"]
  by (auto simp: blank_logger_def send_def)

end
