(* ===== verification/Loggers.thy ===== *)
theory Loggers
  imports AuditLogger
begin

text \<open>
  The interface \<open>Logger\<close> of \<open>internal/audit/logger.go\<close> and its simple implementations: the no-op logger,
  and the stdout logger with its bounded channel and its goroutine.
\<close>

section \<open>The interface Logger\<close>

text \<open>An event keeps all but its timestamp and its id when a logger takes it.\<close>

definition same_facts :: "Event \<Rightarrow> Event \<Rightarrow> bool" where
  "same_facts e e' \<longleftrightarrow> (\<exists>t u. e' = e\<lparr>ev_Timestamp := t, ev_EventID := u\<rparr>)"

lemma same_factsD:
  "same_facts e e' \<Longrightarrow> ev_Response e' = ev_Response e \<and> ev_ClientID e' = ev_ClientID e \<and> ev_Tool e' = ev_Tool e \<and>
     ev_Decision e' = ev_Decision e \<and> ev_Action e' = ev_Action e"
  by (auto simp: same_facts_def)

lemma stamp_same_facts: "same_facts e (stamp now u e)"
proof -
  have "stamp now u e = e\<lparr>ev_Timestamp := ev_Timestamp (stamp now u e), ev_EventID := ev_EventID (stamp now u e)\<rparr>"
    by (simp add: stamp_def Let_def split: option.splits)
  then show ?thesis unfolding same_facts_def by blast
qed

text \<open>
  What every logger promises: a call queues the event at the end, or nothing; it never touches what is
  queued; and an event that was refused with an error is not queued.
\<close>

locale logger_interface =
  fixes log :: "Event \<Rightarrow> 'l \<Rightarrow> audit_error option \<times> 'l" and queued :: "'l \<Rightarrow> Event list"
  assumes log_queue: "queued (snd (log e l)) = queued l \<or>
      (fst (log e l) = None \<and> (\<exists>e'. same_facts e e' \<and> queued (snd (log e l)) = queued l @ [e']))"
begin

lemma log_prefix: "\<exists>es. queued (snd (log e l)) = queued l @ es \<and> list_all (same_facts e) es"
  using log_queue [of e l] by (auto intro: exI [of _ "[]"])

lemma refused_not_queued: "fst (log e l) = Some x \<Longrightarrow> queued (snd (log e l)) = queued l"
  using log_queue [of e l] by simp

text \<open>A sequence of calls queues copies of some of its events, in their order.\<close>

lemma logs_in_order:
  "\<exists>es es'. queued (fold (\<lambda>e l. snd (log e l)) events l) = queued l @ es \<and>
     es' \<in> set (subseqs events) \<and> list_all2 same_facts es' es"
proof (induction events arbitrary: l)
  case Nil
  show ?case by (intro exI [of _ "[]"]) simp
next
  case (Cons e events)
  from Cons [of "snd (log e l)"] obtain es es' where
    c: "queued (fold (\<lambda>e l. snd (log e l)) events (snd (log e l))) = queued (snd (log e l)) @ es"
      "es' \<in> set (subseqs events)" "list_all2 same_facts es' es" by blast
  from log_queue [of e l] show ?case
  proof
    assume "queued (snd (log e l)) = queued l"
    then show ?thesis using c by (intro exI [of _ es] exI [of _ es']) (simp add: Let_def)
  next
    assume "fst (log e l) = None \<and> (\<exists>e'. same_facts e e' \<and> queued (snd (log e l)) = queued l @ [e'])"
    then obtain e' where "same_facts e e'" "queued (snd (log e l)) = queued l @ [e']" by blast
    then show ?thesis using c by (intro exI [of _ "e' # es"] exI [of _ "e # es'"]) (simp add: Let_def)
  qed
qed

end

section \<open>The no-op logger\<close>

definition noop_Log :: "Event \<Rightarrow> unit \<Rightarrow> audit_error option \<times> unit" where
  "noop_Log e l = (None, l)"

definition noop_Close :: "unit \<Rightarrow> unit" where "noop_Close l = l"

interpretation noop: logger_interface noop_Log "\<lambda>l. []"
  by unfold_locales (simp add: noop_Log_def)

section \<open>The stdout logger\<close>

record stdoutLogger =
  so_ch :: "Event list"
  so_closed :: bool
  so_done :: bool
  so_out :: string

definition NewStdoutLogger :: stdoutLogger where
  "NewStdoutLogger = \<lparr>so_ch = [], so_closed = False, so_done = False, so_out = ''''\<rparr>"

definition stdout_capacity :: nat where "stdout_capacity = 256"

definition stdout_Log :: "instant \<Rightarrow> Event \<Rightarrow> stdoutLogger \<Rightarrow> audit_error option \<times> stdoutLogger" where
  "stdout_Log now event l =
     (let e = (case ev_Timestamp event of None \<Rightarrow> event\<lparr>ev_Timestamp := Some now\<rparr> | Some t \<Rightarrow> event) in
      if length (so_ch l) < stdout_capacity then (None, l\<lparr>so_ch := so_ch l @ [e]\<rparr>) else (None, l))"

definition stdout_Close :: "stdoutLogger \<Rightarrow> stdoutLogger" where
  "stdout_Close l = l\<lparr>so_closed := True\<rparr>"

text \<open>
  The line of an event: \<open>time_json\<close> is the text of a timestamp in the zone of the host, \<open>nilmap\<close> says
  whether an empty argument map is nil.
\<close>

definition event_json :: "(instant option \<Rightarrow> string) \<Rightarrow> bool \<Rightarrow> Event \<Rightarrow> string" where
  "event_json time_json nilmap e = json_object
     [(''Timestamp'', time_json (ev_Timestamp e)), (''Action'', quote (ev_Action e)), (''Tool'', quote (ev_Tool e)),
      (''Decision'', quote (ev_Decision e)), (''Reason'', quote (ev_Reason e)), (''PolicyRule'', quote (ev_PolicyRule e)),
      (''ClientID'', quote (ev_ClientID e)), (''RequestID'', quote (ev_RequestID e)), (''Duration'', show_int (ev_Duration e)),
      (''Error'', marshal_option (\<lambda>x. marshal_error (ae_Code x) (ae_Message x) (ae_Data x)) (ev_Error e)),
      (''EventID'', quote (case ev_EventID e of None \<Rightarrow> nil_uuid | Some u \<Rightarrow> u)), (''TraceID'', quote (ev_TraceID e)),
      (''SpanID'', quote (ev_SpanID e)), (''SessionID'', quote (ev_SessionID e)), (''UpstreamID'', quote (ev_UpstreamID e)),
      (''Arguments'', if ev_Arguments e = [] \<and> nilmap then ''null'' else marshal_map (ev_Arguments e)),
      (''Response'', marshal_option marshal_payload (ev_Response e))]"

text \<open>One iteration of \<open>run\<close>: it receives an event, or ends when the closed channel is empty.\<close>

definition stdout_step :: "(instant option \<Rightarrow> string) \<Rightarrow> (Event \<Rightarrow> bool) \<Rightarrow> stdoutLogger \<Rightarrow> stdoutLogger" where
  "stdout_step time_json nilmap l =
     (case so_ch l of
        e # es \<Rightarrow> l\<lparr>so_ch := es, so_out := so_out l @ event_json time_json (nilmap e) e @ ''\<newline>''\<rparr>
      | [] \<Rightarrow> if so_closed l then l\<lparr>so_done := True\<rparr> else l)"

interpretation stdout: logger_interface "stdout_Log now" so_ch
proof
  show "so_ch (snd (stdout_Log now e l)) = so_ch l \<or>
      (fst (stdout_Log now e l) = None \<and> (\<exists>e'. same_facts e e' \<and> so_ch (snd (stdout_Log now e l)) = so_ch l @ [e']))" for e l
  proof -
    have "same_facts e (e\<lparr>ev_Timestamp := t\<rparr>)" for t
      unfolding same_facts_def by (rule exI [of _ t], rule exI [of _ "ev_EventID e"]) simp
    moreover have "same_facts e e"
      unfolding same_facts_def by (rule exI [of _ "ev_Timestamp e"], rule exI [of _ "ev_EventID e"]) simp
    ultimately show ?thesis by (auto simp: stdout_Log_def Let_def split: option.splits)
  qed
qed

interpretation sqlite_logger: logger_interface "\<lambda>e l. Log sel now uuid e l" lg_ch for sel now uuid
proof
  show "lg_ch (snd (Log sel now uuid e l)) = lg_ch l \<or>
      (fst (Log sel now uuid e l) = None \<and> (\<exists>e'. same_facts e e' \<and> lg_ch (snd (Log sel now uuid e l)) = lg_ch l @ [e']))"
    for e and l :: "'a SQLiteAuditLogger"
    by (cases rule: Log_cases [of sel now uuid e l]) (use stamp_same_facts in auto)
qed

text \<open>The channel never holds more than its capacity, and closing drains it.\<close>

lemma stdout_bounded: "length (so_ch l) \<le> stdout_capacity \<Longrightarrow> length (so_ch (snd (stdout_Log now e l))) \<le> stdout_capacity"
  by (simp add: stdout_Log_def Let_def)

lemma stdout_drains:
  "so_closed l \<Longrightarrow> length (so_ch l) = n \<Longrightarrow>
   (stdout_step tj nm ^^ Suc n) l = l\<lparr>so_ch := [], so_done := True,
     so_out := so_out l @ concat (map (\<lambda>e. event_json tj (nm e) e @ ''\<newline>'') (so_ch l))\<rparr>"
proof (induction n arbitrary: l)
  case 0
  then show ?case by (simp add: stdout_step_def)
next
  case (Suc n)
  then obtain e es where l: "so_ch l = e # es" by (cases "so_ch l") auto
  let ?l = "l\<lparr>so_ch := es, so_out := so_out l @ event_json tj (nm e) e @ ''\<newline>''\<rparr>"
  have "stdout_step tj nm l = ?l" by (simp add: stdout_step_def l)
  then have "(stdout_step tj nm ^^ Suc (Suc n)) l = (stdout_step tj nm ^^ Suc n) ?l"
    by (simp only: funpow_Suc_right comp_apply)
  also have "\<dots> = l\<lparr>so_ch := [], so_done := True,
      so_out := so_out l @ concat (map (\<lambda>e. event_json tj (nm e) e @ ''\<newline>'') (so_ch l))\<rparr>"
    using Suc.IH [of ?l] Suc.prems by (simp add: l)
  finally show ?case .
qed

end
