(* ===== verification/Auth.thy ===== *)
theory Auth
  imports Sha256
begin

text \<open>
  \<open>internal/auth/auth.go\<close>.  Of the HTTP request an authenticator reads only the \<open>Authorization\<close>
  header, which is the argument here (empty when the header is absent).  The map of keys is an
  association list in the order in which \<open>NewAPIKeyAuthenticator\<close> ranges over it.
\<close>

datatype auth_error = MissingBearer | InvalidAPIKey

section \<open>The interface Authenticator\<close>

locale authenticator =
  fixes authenticate :: "'a \<Rightarrow> string \<Rightarrow> auth_error + string" and clients :: "'a \<Rightarrow> string set"
  assumes known_client: "authenticate a header = Inr c \<Longrightarrow> c \<in> clients a"
begin

text \<open>Every client id a run of requests produces is a registered one.\<close>

lemma known_clients:
  "Inr c \<in> set (map (authenticate a) headers) \<Longrightarrow> c \<in> clients a"
  using known_client by (auto dest: sym)

end

section \<open>AllowAll\<close>

definition allowAll_Authenticate :: "unit \<Rightarrow> string \<Rightarrow> auth_error + string" where
  "allowAll_Authenticate a header = Inr ''anonymous''"

interpretation allow_all: authenticator allowAll_Authenticate "\<lambda>_. {''anonymous''}"
  by unfold_locales (simp add: allowAll_Authenticate_def)

section \<open>API keys\<close>

record apiKeyAuthenticator =
  aka_hashes :: "string list"
  aka_clientIDs :: "string list"

definition sha256_prefix :: string where "sha256_prefix = ''sha256:''"
definition bearer_prefix :: string where "bearer_prefix = ''Bearer ''"

text \<open>One iteration of the loop of the constructor: \<open>None\<close> is \<open>continue\<close>.\<close>

definition decode_key :: "string \<Rightarrow> string option" where
  "decode_key hashStr =
     (case CutPrefix hashStr sha256_prefix of
        None \<Rightarrow> None
      | Some hex64 \<Rightarrow>
        (case DecodeString hex64 of
           None \<Rightarrow> None
         | Some raw \<Rightarrow> if length raw \<noteq> 32 then None else Some raw))"

fun add_keys :: "(string \<times> string) list \<Rightarrow> apiKeyAuthenticator \<Rightarrow> apiKeyAuthenticator" where
  "add_keys [] a = a"
| "add_keys ((hashStr, clientID) # ks) a =
     (case decode_key hashStr of
        None \<Rightarrow> add_keys ks a
      | Some arr \<Rightarrow> add_keys ks (a\<lparr>aka_hashes := aka_hashes a @ [arr],
                                   aka_clientIDs := aka_clientIDs a @ [clientID]\<rparr>))"

definition NewAPIKeyAuthenticator :: "(string \<times> string) list \<Rightarrow> apiKeyAuthenticator" where
  "NewAPIKeyAuthenticator ks = add_keys ks \<lparr>aka_hashes = [], aka_clientIDs = []\<rparr>"

definition NewKeyHash :: "string \<Rightarrow> string" where
  "NewKeyHash token = sha256_prefix @ EncodeToString (Sum256 token)"

text \<open>The constant-time scan compares every entry; the last match wins.\<close>

fun scan_hashes :: "string \<Rightarrow> nat \<Rightarrow> nat option \<Rightarrow> string list \<Rightarrow> nat option" where
  "scan_hashes digest i found [] = found"
| "scan_hashes digest i found (h # hs) = scan_hashes digest (Suc i) (if digest = h then Some i else found) hs"

definition Authenticate :: "apiKeyAuthenticator \<Rightarrow> string \<Rightarrow> auth_error + string" where
  "Authenticate a header =
     (case CutPrefix header bearer_prefix of
        None \<Rightarrow> Inl MissingBearer
      | Some token \<Rightarrow>
        if token = '''' then Inl MissingBearer
        else (case scan_hashes (Sum256 token) 0 None (aka_hashes a) of
            None \<Rightarrow> Inl InvalidAPIKey
          | Some i \<Rightarrow> Inr (aka_clientIDs a ! i)))"

section \<open>Facts\<close>

text \<open>The two slices, entry by entry.\<close>

definition decoded :: "(string \<times> string) list \<Rightarrow> (string \<times> string) list" where
  "decoded ks = List.map_filter (\<lambda>(h, c). map_option (\<lambda>d. (d, c)) (decode_key h)) ks"

lemma decoded_simps [simp]:
  "decoded [] = []"
  "decoded ((h, c) # ks) = (case decode_key h of None \<Rightarrow> decoded ks | Some d \<Rightarrow> (d, c) # decoded ks)"
  by (simp_all add: decoded_def List.map_filter_simps split: option.splits)

lemma add_keys_eq:
  "add_keys ks a = \<lparr>aka_hashes = aka_hashes a @ map fst (decoded ks),
     aka_clientIDs = aka_clientIDs a @ map snd (decoded ks)\<rparr>"
  by (induction ks arbitrary: a) (auto split: option.splits)

lemma NewAPIKeyAuthenticator_eq:
  "NewAPIKeyAuthenticator ks = \<lparr>aka_hashes = map fst (decoded ks), aka_clientIDs = map snd (decoded ks)\<rparr>"
  by (simp add: NewAPIKeyAuthenticator_def add_keys_eq)

text \<open>The scan is a lookup in the reversed list.\<close>

lemma scan_hashes_acc:
  "scan_hashes digest i found hs =
    (case scan_hashes digest i None hs of None \<Rightarrow> found | Some j \<Rightarrow> Some j)"
proof (induction hs arbitrary: i found)
  case (Cons h hs)
  have step: "scan_hashes digest i f (h # hs) =
      (case scan_hashes digest (Suc i) None hs of None \<Rightarrow> (if digest = h then Some i else f) | Some j \<Rightarrow> Some j)" for f
    unfolding scan_hashes.simps by (rule Cons.IH)
  show ?case
    unfolding step by (simp split: option.split)
qed simp

lemma scan_hashes_lookup:
  "map_option (\<lambda>i. map snd es ! (i - k)) (scan_hashes digest k None (map fst es)) = map_of (rev es) digest \<and>
   (\<forall>i. scan_hashes digest k None (map fst es) = Some i \<longrightarrow> k \<le> i)"
proof (induction es arbitrary: k)
  case (Cons e es)
  obtain h c where e: "e = (h, c)" by (cases e)
  note IH = Cons.IH [of "Suc k"]
  show ?case
  proof (cases "scan_hashes digest (Suc k) None (map fst es)")
    case None
    then show ?thesis
      using IH scan_hashes_acc [of digest "Suc k" "Some k" "map fst es"] by (auto simp: e map_add_def)
  next
    case (Some i)
    then have i: "Suc k \<le> i" using IH by simp
    then have "i - k = Suc (i - Suc k)" by simp
    then show ?thesis
      using IH Some i scan_hashes_acc [of digest "Suc k" "Some k" "map fst es"]
      by (auto simp: e map_add_def split: option.splits)
  qed
qed simp

lemma Authenticate_eq:
  "Authenticate (NewAPIKeyAuthenticator ks) header =
    (case CutPrefix header bearer_prefix of
       None \<Rightarrow> Inl MissingBearer
     | Some token \<Rightarrow>
       if token = '''' then Inl MissingBearer
       else (case map_of (rev (decoded ks)) (Sum256 token) of
           None \<Rightarrow> Inl InvalidAPIKey
         | Some c \<Rightarrow> Inr c))"
proof -
  have "(case scan_hashes digest 0 None (map fst (decoded ks)) of
      None \<Rightarrow> Inl InvalidAPIKey | Some i \<Rightarrow> Inr (map snd (decoded ks) ! i)) =
    (case map_of (rev (decoded ks)) digest of None \<Rightarrow> Inl InvalidAPIKey | Some c \<Rightarrow> Inr c)" for digest
    using scan_hashes_lookup [of "decoded ks" 0 digest]
    by (cases "scan_hashes digest 0 None (map fst (decoded ks))") (auto dest: sym)
  then show ?thesis
    by (simp only: Authenticate_def NewAPIKeyAuthenticator_eq apiKeyAuthenticator.simps)
qed

lemma decoded_mem: "(d, c) \<in> set (decoded ks) \<longleftrightarrow> (\<exists>h. (h, c) \<in> set ks \<and> decode_key h = Some d)"
  by (induction ks) (auto split: option.splits)

lemma decode_NewKeyHash [simp]: "decode_key (NewKeyHash token) = Some (Sum256 token)"
  by (simp add: decode_key_def NewKeyHash_def)

interpretation api_key: authenticator "\<lambda>ks. Authenticate (NewAPIKeyAuthenticator ks)" "\<lambda>ks. snd ` set ks"
proof
  fix ks header c
  assume "Authenticate (NewAPIKeyAuthenticator ks) header = Inr c"
  then obtain d where "(d, c) \<in> set (decoded ks)"
    by (auto simp: Authenticate_eq split: option.splits if_splits dest: map_of_SomeD)
  then show "c \<in> snd ` set ks"
    by (auto simp: decoded_mem intro: rev_image_eqI)
qed

section \<open>Properties\<close>

text \<open>A key in the form \<open>NewKeyHash\<close> produces.\<close>

definition canonical_key :: "string \<Rightarrow> bool" where
  "canonical_key h \<longleftrightarrow> (case decode_key h of None \<Rightarrow> False | Some d \<Rightarrow> h = sha256_prefix @ EncodeToString d)"

lemma map_of_decoded:
  "list_all (\<lambda>k. canonical_key (fst k)) ks \<Longrightarrow>
   map_of (decoded ks) d = map_of ks (sha256_prefix @ EncodeToString d)"
proof (induction ks)
  case (Cons k ks)
  then show ?case
    by (cases k) (auto simp: canonical_key_def EncodeToString_inject split: option.splits)
qed simp

lemma distinct_decoded:
  "list_all (\<lambda>k. canonical_key (fst k)) ks \<Longrightarrow> is_map ks \<Longrightarrow> distinct (map fst (decoded ks))"
proof (induction ks)
  case (Cons k ks)
  obtain h c where k: "k = (h, c)" by (cases k)
  with Cons.prems obtain d where d: "decode_key h = Some d" "h = sha256_prefix @ EncodeToString d"
    by (auto simp: canonical_key_def split: option.splits)
  have "map_of ks h = None" using Cons.prems(2) by (simp add: k map_of_eq_None_iff)
  then have "map_of (decoded ks) d = None"
    using Cons.prems(1) d(2) by (simp add: map_of_decoded)
  then show ?case using Cons by (simp add: k d(1) map_of_eq_None_iff)
qed simp

text \<open>
  Whom an API key identifies.  With keys in canonical form, a request is authenticated exactly
  when its header is \<open>Bearer\<close> with a non-empty token whose key hash is configured, and the client is
  the one configured for it, in whatever order Go enumerates the map of keys.
\<close>

theorem api_key_lookup:
  assumes "is_map ks" and "list_all (\<lambda>k. canonical_key (fst k)) ks"
  shows "Authenticate (NewAPIKeyAuthenticator ks) header =
    (case CutPrefix header bearer_prefix of
       None \<Rightarrow> Inl MissingBearer
     | Some token \<Rightarrow>
       if token = '''' then Inl MissingBearer
       else (case map_of ks (NewKeyHash token) of
           None \<Rightarrow> Inl InvalidAPIKey
         | Some c \<Rightarrow> Inr c))"
proof -
  have r: "map_of (rev (decoded ks)) = map_of (decoded ks)"
    using distinct_decoded [OF assms(2,1)] by (intro map_of_mset) (simp_all add: is_map_def rev_map [symmetric])
  show ?thesis
    unfolding Authenticate_eq r NewKeyHash_def map_of_decoded [OF assms(2)] by (rule refl)
qed

lemma canonical_NewKeyHash [simp]: "canonical_key (NewKeyHash t)"
  by (simp add: canonical_key_def, simp add: NewKeyHash_def)

theorem api_key_lookup_witness:
  "Authenticate (NewAPIKeyAuthenticator [(NewKeyHash ''secret'', ''alice'')]) ''Bearer secret'' = Inr ''alice''"
  using api_key_lookup [of "[(NewKeyHash ''secret'', ''alice'')]" "''Bearer secret''"]
  by (simp add: bearer_prefix_def)

text \<open>
  C22: Soundness without any condition on the keys: an authenticated client presented a non-empty
  bearer token whose SHA-256 value is the decoded hash of a configured entry of that client.
\<close>

theorem api_key_sound:
  assumes "Authenticate (NewAPIKeyAuthenticator ks) header = Inr c"
  shows "\<exists>token h. header = bearer_prefix @ token \<and> token \<noteq> '''' \<and> (h, c) \<in> set ks \<and>
    decode_key h = Some (Sum256 token)"
proof -
  obtain token where t: "CutPrefix header bearer_prefix = Some token" "token \<noteq> ''''"
    "map_of (rev (decoded ks)) (Sum256 token) = Some c"
    using assms by (auto simp: Authenticate_eq split: option.splits if_splits)
  then show ?thesis
    by (auto simp: CutPrefix_Some_iff decoded_mem dest!: map_of_SomeD)
qed

theorem api_key_sound_witness:
  "\<exists>token h. ''Bearer secret'' = bearer_prefix @ token \<and> token \<noteq> '''' \<and>
    (h, ''alice'') \<in> set [(NewKeyHash ''secret'', ''alice'')] \<and> decode_key h = Some (Sum256 token)"
proof (rule api_key_sound)
  show "Authenticate (NewAPIKeyAuthenticator [(NewKeyHash ''secret'', ''alice'')]) ''Bearer secret'' = Inr ''alice''"
    using decode_NewKeyHash [of "''secret''"] by (simp add: Authenticate_eq bearer_prefix_def)
qed

text \<open>
  Why canonical form matters.  The hexadecimal digits of a key hash are accepted in both cases,
  so two entries of the map can decode to the same value; which client such a token identifies is
  then decided by the order in which Go happens to enumerate the map.
\<close>

theorem ambiguous_key:
  assumes "decode_key h = Some (Sum256 token)" and "decode_key h' = Some (Sum256 token)" and "token \<noteq> ''''"
  shows "Authenticate (NewAPIKeyAuthenticator [(h, a), (h', b)]) (bearer_prefix @ token) = Inr b \<and>
    Authenticate (NewAPIKeyAuthenticator [(h', b), (h, a)]) (bearer_prefix @ token) = Inr a"
  using assms by (simp add: Authenticate_eq)

text \<open>The upper-case spelling of a key hash.\<close>

definition upper_hex :: "char \<Rightarrow> char" where
  "upper_hex c = (if CHR ''a'' \<le> c \<and> c \<le> CHR ''f'' then char_of (of_char c - 32 :: nat) else c)"

lemma fromHexChar_upper: "c \<in> set hex_digits \<Longrightarrow> fromHexChar (upper_hex c) = fromHexChar c"
proof -
  have "list_all (\<lambda>c. fromHexChar (upper_hex c) = fromHexChar c) hex_digits"
    by code_simp
  then show "c \<in> set hex_digits \<Longrightarrow> ?thesis" by (simp add: list_all_iff)
qed

lemma DecodeString_upper:
  "set s \<subseteq> set hex_digits \<Longrightarrow> DecodeString (map upper_hex s) = DecodeString s"
proof (induction s rule: DecodeString.induct)
  case (3 c d s)
  then show ?case
    by (cases "fromHexChar c"; cases "fromHexChar d") (simp_all add: fromHexChar_upper)
qed simp_all

lemma decode_upper:
  "decode_key (sha256_prefix @ map upper_hex (EncodeToString d)) = decode_key (sha256_prefix @ EncodeToString d)"
  by (simp add: decode_key_def DecodeString_upper set_EncodeToString)

theorem ambiguous_key_witness:
  "let upper = sha256_prefix @ map upper_hex (EncodeToString (Sum256 ''k'')) in
   Authenticate (NewAPIKeyAuthenticator [(NewKeyHash ''k'', ''alice''), (upper, ''bob'')]) ''Bearer k'' = Inr ''bob'' \<and>
   Authenticate (NewAPIKeyAuthenticator [(upper, ''bob''), (NewKeyHash ''k'', ''alice'')]) ''Bearer k'' = Inr ''alice''"
  using ambiguous_key [of "NewKeyHash ''k''" "''k''" "sha256_prefix @ map upper_hex (EncodeToString (Sum256 ''k''))" "''alice''" "''bob''"]
    decode_upper [of "Sum256 ''k''"] decode_NewKeyHash [of "''k''"]
  by (simp add: bearer_prefix_def NewKeyHash_def)

end
