(* ===== verification/Metrics.thy ===== *)
theory Metrics
  imports Prelude
begin

text \<open>
  \<open>internal/observability/metrics.go\<close>: the registry of counters.  A Prometheus \<open>CounterVec\<close> is a
  function from its label values to the count, a gauge an integer; the client library, which is
  not under \<open>src/\<close>, contributes only that \<open>Inc\<close> adds one to the child of the given label values and
  \<open>Set\<close> stores the value.
\<close>

type_synonym CounterVec = "string list \<Rightarrow> nat"

record Registry =
  reg_requests :: CounterVec
  reg_rateLimitHits :: CounterVec
  reg_policyDenies :: CounterVec
  reg_auditDropped :: CounterVec
  reg_auditWriteFail :: CounterVec
  reg_upstreamProtocolErrors :: CounterVec
  reg_upstreamResponseTooLarge :: CounterVec
  reg_toolsRefreshFail :: CounterVec
  reg_activeSessions :: int
  reg_sessionRejects :: CounterVec
  reg_sessionEvictions :: CounterVec
  reg_includeClientID :: bool

definition inc :: "string list \<Rightarrow> CounterVec \<Rightarrow> CounterVec" where
  "inc labels v = v(labels := v labels + 1)"

definition NewRegistry :: "bool \<Rightarrow> Registry" where
  "NewRegistry includeClientID = \<lparr>
     reg_requests = (\<lambda>_. 0), reg_rateLimitHits = (\<lambda>_. 0), reg_policyDenies = (\<lambda>_. 0),
     reg_auditDropped = (\<lambda>_. 0), reg_auditWriteFail = (\<lambda>_. 0), reg_upstreamProtocolErrors = (\<lambda>_. 0),
     reg_upstreamResponseTooLarge = (\<lambda>_. 0), reg_toolsRefreshFail = (\<lambda>_. 0), reg_activeSessions = 0,
     reg_sessionRejects = (\<lambda>_. 0), reg_sessionEvictions = (\<lambda>_. 0), reg_includeClientID = includeClientID\<rparr>"

definition IncRequest :: "string \<Rightarrow> string \<Rightarrow> string \<Rightarrow> Registry \<Rightarrow> Registry" where
  "IncRequest method tool decision r = r\<lparr>reg_requests := inc [method, tool, decision] (reg_requests r)\<rparr>"

definition IncRateLimitHit :: "string \<Rightarrow> string \<Rightarrow> Registry \<Rightarrow> Registry" where
  "IncRateLimitHit tool clientID r =
     r\<lparr>reg_rateLimitHits :=
       inc (if reg_includeClientID r then [tool, clientID] else [tool]) (reg_rateLimitHits r)\<rparr>"

definition IncPolicyDeny :: "string \<Rightarrow> Registry \<Rightarrow> Registry" where
  "IncPolicyDeny rname r = r\<lparr>reg_policyDenies := inc [rname] (reg_policyDenies r)\<rparr>"

definition IncAuditDropped :: "string \<Rightarrow> Registry \<Rightarrow> Registry" where
  "IncAuditDropped backend r = r\<lparr>reg_auditDropped := inc [backend] (reg_auditDropped r)\<rparr>"

definition IncAuditWriteFail :: "string \<Rightarrow> Registry \<Rightarrow> Registry" where
  "IncAuditWriteFail backend r = r\<lparr>reg_auditWriteFail := inc [backend] (reg_auditWriteFail r)\<rparr>"

definition IncUpstreamProtocolError :: "string \<Rightarrow> Registry \<Rightarrow> Registry" where
  "IncUpstreamProtocolError u r =
     r\<lparr>reg_upstreamProtocolErrors := inc [u] (reg_upstreamProtocolErrors r)\<rparr>"

definition IncUpstreamResponseTooLarge :: "string \<Rightarrow> Registry \<Rightarrow> Registry" where
  "IncUpstreamResponseTooLarge u r =
     r\<lparr>reg_upstreamResponseTooLarge := inc [u] (reg_upstreamResponseTooLarge r)\<rparr>"

definition IncToolsRefreshFail :: "string \<Rightarrow> Registry \<Rightarrow> Registry" where
  "IncToolsRefreshFail u r = r\<lparr>reg_toolsRefreshFail := inc [u] (reg_toolsRefreshFail r)\<rparr>"

definition SetActiveSessions :: "nat \<Rightarrow> Registry \<Rightarrow> Registry" where
  "SetActiveSessions n r = r\<lparr>reg_activeSessions := int n\<rparr>"

definition IncSessionReject :: "string \<Rightarrow> Registry \<Rightarrow> Registry" where
  "IncSessionReject reason r = r\<lparr>reg_sessionRejects := inc [reason] (reg_sessionRejects r)\<rparr>"

definition IncSessionEviction :: "string \<Rightarrow> Registry \<Rightarrow> Registry" where
  "IncSessionEviction reason r = r\<lparr>reg_sessionEvictions := inc [reason] (reg_sessionEvictions r)\<rparr>"

text \<open>The call sites guard every call with \<open>if metrics != nil\<close>.\<close>

abbreviation if_metrics :: "(Registry \<Rightarrow> Registry) \<Rightarrow> Registry option \<Rightarrow> Registry option" where
  "if_metrics f \<equiv> map_option f"

lemma inc_same [simp]: "inc l v l = Suc (v l)"
  by (simp add: inc_def)

lemma inc_other [simp]: "k \<noteq> l \<Longrightarrow> inc l v k = v k"
  by (simp add: inc_def)

lemmas metric_defs =
  IncRequest_def IncRateLimitHit_def IncPolicyDeny_def IncAuditDropped_def IncAuditWriteFail_def
  IncUpstreamProtocolError_def IncUpstreamResponseTooLarge_def IncToolsRefreshFail_def
  SetActiveSessions_def IncSessionReject_def IncSessionEviction_def

text \<open>Without \<open>includeClientID\<close> no client id reaches a label.\<close>

lemma IncRateLimitHit_anonymous:
  "\<not> reg_includeClientID r \<Longrightarrow> IncRateLimitHit tool c r = IncRateLimitHit tool c' r"
  by (simp add: IncRateLimitHit_def)

end
