(* ===== verification/Sessions.thy ===== *)
theory Sessions
  imports GoTime McpTypes Metrics
begin

text \<open>
  The session table of \<open>internal/gateway/gateway.go\<close>.  Every operation runs under \<open>sessionMu\<close>, so it
  is one step here.  The map is an association list; a range loop may visit it in any order, and the
  one loop whose result can depend on that order (the search for the oldest session) goes through
  a function \<open>ord\<close> that permutes the list.  Clock readings are arguments.
\<close>

record sessionBinding =
  sb_clientID :: string
  sb_expiresAt :: instant

type_synonym sessions = "(string \<times> sessionBinding) list"
type_synonym ord_fn = "sessions \<Rightarrow> sessions"

record SessionTable =
  st_clients :: sessions
  st_ttl :: duration
  st_max :: int
  st_metrics :: "Registry option"

datatype sessionError = SessionError (sessErr_code: int) (sessErr_message: string)

definition recordSessionReject :: "string \<Rightarrow> SessionTable \<Rightarrow> SessionTable" where
  "recordSessionReject reason t = t\<lparr>st_metrics := if_metrics (IncSessionReject reason) (st_metrics t)\<rparr>"

definition recordSessionEvictionLocked :: "string \<Rightarrow> SessionTable \<Rightarrow> SessionTable" where
  "recordSessionEvictionLocked reason t = t\<lparr>st_metrics := if_metrics (IncSessionEviction reason) (st_metrics t)\<rparr>"

definition updateActiveSessionsMetricLocked :: "SessionTable \<Rightarrow> SessionTable" where
  "updateActiveSessionsMetricLocked t =
     t\<lparr>st_metrics := if_metrics (SetActiveSessions (length (st_clients t))) (st_metrics t)\<rparr>"

definition delete_session :: "string \<Rightarrow> SessionTable \<Rightarrow> SessionTable" where
  "delete_session i t = t\<lparr>st_clients := AList.delete i (st_clients t)\<rparr>"

section \<open>Eviction\<close>

text \<open>Deleting from a map while ranging over it is allowed in Go; the loop visits each entry once.\<close>

fun expire_loop :: "instant \<Rightarrow> sessions \<Rightarrow> SessionTable \<Rightarrow> SessionTable" where
  "expire_loop now [] t = t"
| "expire_loop now ((i, b) # m) t =
     expire_loop now m
       (if \<not> After (sb_expiresAt b) now then recordSessionEvictionLocked ''expired'' (delete_session i t) else t)"

definition evictExpiredLocked :: "instant \<Rightarrow> SessionTable \<Rightarrow> SessionTable" where
  "evictExpiredLocked now t = updateActiveSessionsMetricLocked (expire_loop now (st_clients t) t)"

fun oldest :: "sessions \<Rightarrow> (string \<times> instant) option \<Rightarrow> (string \<times> instant) option" where
  "oldest [] acc = acc"
| "oldest ((i, b) # m) acc =
     oldest m (case acc of
         None \<Rightarrow> Some (i, sb_expiresAt b)
       | Some (j, t) \<Rightarrow> if Before (sb_expiresAt b) t then Some (i, sb_expiresAt b) else acc)"

definition oldestID :: "ord_fn \<Rightarrow> sessions \<Rightarrow> string" where
  "oldestID ord m = (case oldest (ord m) None of None \<Rightarrow> '''' | Some (i, t) \<Rightarrow> i)"

fun evictOldestLocked :: "(nat \<Rightarrow> ord_fn) \<Rightarrow> nat \<Rightarrow> string \<Rightarrow> SessionTable \<Rightarrow> SessionTable" where
  "evictOldestLocked ord 0 reason t = updateActiveSessionsMetricLocked t"
| "evictOldestLocked ord (Suc n) reason t =
     (let i = oldestID (ord n) (st_clients t)
      in if i = '''' then t
         else evictOldestLocked ord n reason (recordSessionEvictionLocked reason (delete_session i t)))"

section \<open>Binding and lookup\<close>

definition bindSession ::
  "(nat \<Rightarrow> ord_fn) \<Rightarrow> instant \<Rightarrow> instant \<Rightarrow> string \<Rightarrow> string \<Rightarrow> SessionTable \<Rightarrow> SessionTable" where
  "bindSession ord now1 now2 sessionID clientID t =
     (let t1 = evictExpiredLocked now1 t;
          t2 = (if int (length (st_clients t1)) \<ge> st_max t1
                then evictOldestLocked ord (nat (int (length (st_clients t1)) - st_max t1 + 1)) ''capacity'' t1
                else t1)
      in updateActiveSessionsMetricLocked
           (t2\<lparr>st_clients := AList.update sessionID
             \<lparr>sb_clientID = clientID, sb_expiresAt = Add now2 (st_ttl t2)\<rparr> (st_clients t2)\<rparr>))"

definition lookupSessionClient :: "instant \<Rightarrow> string \<Rightarrow> SessionTable \<Rightarrow> string option \<times> SessionTable" where
  "lookupSessionClient now sessionID t =
     (case map_of (st_clients t) sessionID of
        None \<Rightarrow> (None, t)
      | Some b \<Rightarrow>
        if \<not> After (sb_expiresAt b) now then
          (None, updateActiveSessionsMetricLocked
             (recordSessionEvictionLocked ''expired'' (delete_session sessionID t)))
        else (Some (sb_clientID b),
          t\<lparr>st_clients := AList.update sessionID (b\<lparr>sb_expiresAt := Add now (st_ttl t)\<rparr>) (st_clients t)\<rparr>))"

definition resolveSession ::
  "instant \<Rightarrow> string \<Rightarrow> string \<Rightarrow> SessionTable \<Rightarrow> (sessionError + string) \<times> SessionTable" where
  "resolveSession now requestedSessionID clientID t =
     (if requestedSessionID = '''' then
        (Inl (SessionError CodeInvalidRequest ''missing session header''), recordSessionReject ''missing'' t)
      else case lookupSessionClient now requestedSessionID t of
        (None, t1) \<Rightarrow>
          (Inl (SessionError CodeInvalidRequest ''unknown session''), recordSessionReject ''unknown'' t1)
      | (Some boundClientID, t1) \<Rightarrow>
          if boundClientID \<noteq> clientID then
            (Inl (SessionError CodeUnauthorized ''session does not belong to client''),
             recordSessionReject ''cross_client'' t1)
          else (Inr requestedSessionID, t1))"

definition SetSessionConfig :: "duration \<Rightarrow> int \<Rightarrow> SessionTable \<Rightarrow> SessionTable" where
  "SetSessionConfig ttl maxEntries t =
     t\<lparr>st_ttl := (if ttl > 0 then ttl else st_ttl t),
       st_max := (if maxEntries > 0 then maxEntries else st_max t)\<rparr>"

section \<open>Facts\<close>

text \<open>The metrics never influence the table.\<close>

lemma table_simps [simp]:
  "st_clients (recordSessionReject x t) = st_clients t" "st_ttl (recordSessionReject x t) = st_ttl t"
  "st_max (recordSessionReject x t) = st_max t"
  "st_clients (recordSessionEvictionLocked x t) = st_clients t" "st_ttl (recordSessionEvictionLocked x t) = st_ttl t"
  "st_max (recordSessionEvictionLocked x t) = st_max t"
  "st_clients (updateActiveSessionsMetricLocked t) = st_clients t"
  "st_ttl (updateActiveSessionsMetricLocked t) = st_ttl t" "st_max (updateActiveSessionsMetricLocked t) = st_max t"
  "st_clients (delete_session i t) = AList.delete i (st_clients t)" "st_ttl (delete_session i t) = st_ttl t"
  "st_max (delete_session i t) = st_max t"
  by (simp_all add: recordSessionReject_def recordSessionEvictionLocked_def
      updateActiveSessionsMetricLocked_def delete_session_def)

definition live :: "instant \<Rightarrow> string \<times> sessionBinding \<Rightarrow> bool" where
  "live now x \<longleftrightarrow> After (sb_expiresAt (snd x)) now"

lemma expire_loop_simps [simp]:
  "st_ttl (expire_loop now m t) = st_ttl t" "st_max (expire_loop now m t) = st_max t"
  by (induction now m t rule: expire_loop.induct) simp_all

lemma expire_loop_clients:
  "st_clients (expire_loop now m t) =
    filter (\<lambda>x. fst x \<notin> set (map fst (filter (\<lambda>x. \<not> live now x) m))) (st_clients t)"
proof (induction now m t rule: expire_loop.induct)
  case (2 now i b m t)
  then show ?case
    by (auto simp: live_def AList.delete_eq filter_filter case_prod_unfold intro!: filter_cong)
qed simp

lemma evictExpired_clients:
  assumes "is_map (st_clients t)"
  shows "st_clients (evictExpiredLocked now t) = filter (live now) (st_clients t)"
proof -
  have "x \<in> set (st_clients t) \<Longrightarrow>
    fst x \<in> set (map fst (filter (\<lambda>x. \<not> live now x) (st_clients t))) \<longleftrightarrow> \<not> live now x" for x
    using assms by (auto simp: is_map_def distinct_map inj_on_def)
  then show ?thesis
    by (simp add: evictExpiredLocked_def expire_loop_clients cong: filter_cong)
qed

lemma evictExpired_simps [simp]:
  "st_ttl (evictExpiredLocked now t) = st_ttl t" "st_max (evictExpiredLocked now t) = st_max t"
  by (simp_all add: evictExpiredLocked_def)

text \<open>The search finds an entry with the least expiry.\<close>

lemma oldest_acc:
  "oldest m (Some (j, t)) = Some (i, u) \<Longrightarrow>
   ((i, u) = (j, t) \<or> (\<exists>b. (i, b) \<in> set m \<and> sb_expiresAt b = u)) \<and> u \<le> t \<and>
   (\<forall>x \<in> set m. u \<le> sb_expiresAt (snd x))"
proof (induction m arbitrary: j t)
  case (Cons x m)
  obtain k b where x: "x = (k, b)" by (cases x)
  show ?case
  proof (cases "Before (sb_expiresAt b) t")
    case True
    then have "oldest m (Some (k, sb_expiresAt b)) = Some (i, u)" using Cons.prems by (simp add: x)
    from Cons.IH [OF this] True show ?thesis by (auto simp: x Before_def)
  next
    case False
    then have "oldest m (Some (j, t)) = Some (i, u)" using Cons.prems by (simp add: x)
    from Cons.IH [OF this] False show ?thesis by (auto simp: x Before_def)
  qed
qed simp

lemma oldest_some: "oldest m (Some a) \<noteq> None"
  by (induction m arbitrary: a) (auto split: prod.splits)

lemma oldest_None: "oldest m None = None \<longleftrightarrow> m = []"
proof (cases m)
  case (Cons x m')
  then show ?thesis using oldest_some [of m' "(fst x, sb_expiresAt (snd x))"] by (cases x) simp
qed simp

lemma oldest_Some:
  assumes "oldest m None = Some (i, u)"
  shows "(\<exists>b. (i, b) \<in> set m \<and> sb_expiresAt b = u) \<and> (\<forall>x \<in> set m. u \<le> sb_expiresAt (snd x))"
proof (cases m)
  case (Cons x m')
  then show ?thesis
    using assms oldest_acc [of m' "fst x" "sb_expiresAt (snd x)" i u]
    by (cases x) (auto intro: exI [of _ "snd x"])
qed (use assms in simp)

definition permutes :: "(nat \<Rightarrow> ord_fn) \<Rightarrow> bool" where
  "permutes ord \<longleftrightarrow> (\<forall>k m. mset (ord k m) = mset m)"

definition named :: "sessions \<Rightarrow> bool" where
  "named m \<longleftrightarrow> '''' \<notin> set (map fst m)"

lemma oldestID_oldest:
  assumes "permutes ord" and "m \<noteq> []"
  shows "\<exists>b. (oldestID (ord k) m, b) \<in> set m \<and> (\<forall>x \<in> set m. sb_expiresAt b \<le> sb_expiresAt (snd x))"
proof -
  have s: "set (ord k m) = set m" using assms(1) by (metis permutes_def mset_eq_setD)
  then have "ord k m \<noteq> []" using assms(2) by auto
  then obtain i u where o: "oldest (ord k m) None = Some (i, u)"
    using oldest_None [of "ord k m"] by auto
  then show ?thesis
    using oldest_Some [OF o] by (auto simp: oldestID_def s)
qed

section \<open>The invariant of the table\<close>

definition table_inv :: "SessionTable \<Rightarrow> bool" where
  "table_inv t \<longleftrightarrow> is_map (st_clients t) \<and> named (st_clients t)"

lemma named_filter [simp]: "named m \<Longrightarrow> named (filter P m)"
  by (auto simp: named_def)

lemma named_delete [simp]: "named m \<Longrightarrow> named (AList.delete i m)"
  by (auto simp: named_def AList.delete_eq)

lemma named_update [simp]: "named m \<Longrightarrow> i \<noteq> '''' \<Longrightarrow> named (AList.update i b m)"
  by (auto simp: named_def update_keys)

lemma table_inv_expired [simp]: "table_inv t \<Longrightarrow> table_inv (evictExpiredLocked now t)"
  by (simp add: table_inv_def evictExpired_clients)

text \<open>
  \<open>evictOldestLocked\<close> removes exactly the requested number of entries, and each of them expires no
  later than every entry that stays.
\<close>

lemma evictOldest_spec:
  assumes "table_inv t" and "permutes ord" and "n \<le> length (st_clients t)"
  shows "\<exists>gone. st_clients (evictOldestLocked ord n reason t) = filter (\<lambda>x. fst x \<notin> gone) (st_clients t) \<and>
    length (st_clients (evictOldestLocked ord n reason t)) = length (st_clients t) - n \<and>
    st_ttl (evictOldestLocked ord n reason t) = st_ttl t \<and> st_max (evictOldestLocked ord n reason t) = st_max t \<and>
    (\<forall>x \<in> set (st_clients t). fst x \<in> gone \<longrightarrow>
      (\<forall>y \<in> set (st_clients t). fst y \<notin> gone \<longrightarrow> sb_expiresAt (snd x) \<le> sb_expiresAt (snd y)))"
  using assms(1,3)
proof (induction n arbitrary: t)
  case 0
  show ?case by (intro exI [of _ "{}"]) simp
next
  case (Suc n)
  let ?m = "st_clients t"
  let ?i = "oldestID (ord n) ?m"
  have "?m \<noteq> []" using Suc.prems(2) by auto
  from oldestID_oldest [OF assms(2) this, of n] obtain b where
    b: "(?i, b) \<in> set ?m" "\<forall>x \<in> set ?m. sb_expiresAt b \<le> sb_expiresAt (snd x)" by blast
  have i: "?i \<noteq> ''''" using b(1) Suc.prems(1) by (force simp: table_inv_def named_def)
  let ?t1 = "recordSessionEvictionLocked reason (delete_session ?i t)"
  have inv1: "table_inv ?t1" using Suc.prems(1) by (simp add: table_inv_def)
  have "Suc (length (AList.delete ?i ?m)) = length ?m"
    using b(1) Suc.prems(1) by (intro length_delete_present) (force simp: table_inv_def)+
  then have len: "length (st_clients ?t1) = length ?m - 1" "n \<le> length (st_clients ?t1)"
    using Suc.prems(2) by simp_all
  from Suc.IH [OF inv1 len(2)] obtain gone where
    g: "st_clients (evictOldestLocked ord n reason ?t1) = filter (\<lambda>x. fst x \<notin> gone) (AList.delete ?i ?m)"
      "length (st_clients (evictOldestLocked ord n reason ?t1)) = length ?m - Suc n"
      "st_ttl (evictOldestLocked ord n reason ?t1) = st_ttl t" "st_max (evictOldestLocked ord n reason ?t1) = st_max t"
      "\<forall>x \<in> set (AList.delete ?i ?m). fst x \<in> gone \<longrightarrow>
        (\<forall>y \<in> set (AList.delete ?i ?m). fst y \<notin> gone \<longrightarrow> sb_expiresAt (snd x) \<le> sb_expiresAt (snd y))"
    using len(1) by auto
  have "filter (\<lambda>x. fst x \<notin> gone) (AList.delete ?i ?m) = filter (\<lambda>x. fst x \<notin> insert ?i gone) ?m"
    by (auto simp: AList.delete_eq case_prod_unfold intro!: filter_cong)
  moreover have "sb_expiresAt (snd x) \<le> sb_expiresAt (snd y)"
    if "x \<in> set ?m" "fst x \<in> insert ?i gone" "y \<in> set ?m" "fst y \<notin> insert ?i gone" for x y
  proof (cases "fst x = ?i")
    case True
    then have "snd x = b"
      using that(1) b(1) Suc.prems(1) by (cases x) (auto simp: table_inv_def is_map_def dest: eq_key_imp_eq_value)
    then show ?thesis using b(2) that(3) by simp
  next
    case False
    then have "x \<in> set (AList.delete ?i ?m)" "y \<in> set (AList.delete ?i ?m)"
      using that by (auto simp: AList.delete_eq)
    then show ?thesis using g(5) that False by blast
  qed
  ultimately show ?case
    using g i by (intro exI [of _ "insert ?i gone"]) (simp add: Let_def)
qed

text \<open>What \<open>bindSession\<close> leaves.\<close>

lemma bindSession_spec:
  assumes "table_inv t" and "permutes ord" and "0 < st_max t" and "sid \<noteq> ''''"
    and t'_def: "t' = bindSession ord now1 now2 sid c t"
  shows "table_inv t' \<and> st_ttl t' = st_ttl t \<and> st_max t' = st_max t \<and>
    int (length (st_clients t')) \<le> st_max t \<and>
    (\<exists>gone. st_clients t' = AList.update sid \<lparr>sb_clientID = c, sb_expiresAt = Add now2 (st_ttl t)\<rparr>
       (filter (\<lambda>x. live now1 x \<and> fst x \<notin> gone) (st_clients t)))"
proof -
  let ?t1 = "evictExpiredLocked now1 t"
  let ?n = "nat (int (length (st_clients ?t1)) - st_max ?t1 + 1)"
  define t2 where "t2 = (if int (length (st_clients ?t1)) \<ge> st_max ?t1
    then evictOldestLocked ord ?n ''capacity'' ?t1 else ?t1)"
  have inv1: "table_inv ?t1" using assms(1) by simp
  have "\<exists>gone. st_clients t2 = filter (\<lambda>x. fst x \<notin> gone) (st_clients ?t1) \<and>
    int (length (st_clients t2)) < st_max t \<and> st_ttl t2 = st_ttl t \<and> st_max t2 = st_max t"
  proof (cases "int (length (st_clients ?t1)) \<ge> st_max ?t1")
    case True
    then have "?n \<le> length (st_clients ?t1)" using assms(3) by simp
    from evictOldest_spec [OF inv1 assms(2) this, where reason = "''capacity''"] True assms(3) show ?thesis
      by (auto simp: t2_def intro!: exI)
  next
    case False
    then show ?thesis by (intro exI [of _ "{}"]) (simp add: t2_def)
  qed
  then obtain gone where g: "st_clients t2 = filter (\<lambda>x. fst x \<notin> gone) (st_clients ?t1)"
    "int (length (st_clients t2)) < st_max t" "st_ttl t2 = st_ttl t" "st_max t2 = st_max t" by blast
  have t': "t' = updateActiveSessionsMetricLocked
      (t2\<lparr>st_clients := AList.update sid \<lparr>sb_clientID = c, sb_expiresAt = Add now2 (st_ttl t2)\<rparr> (st_clients t2)\<rparr>)"
    by (simp add: t'_def bindSession_def Let_def t2_def)
  have "table_inv t2" using inv1 g(1) by (simp add: table_inv_def)
  moreover have "st_clients ?t1 = filter (live now1) (st_clients t)"
    using assms(1) by (simp add: evictExpired_clients table_inv_def)
  moreover have "int (length (AList.update sid v (st_clients t2))) \<le> st_max t" for v
    using length_update_le [of sid v "st_clients t2"] g(2) by linarith
  ultimately show ?thesis
    using g assms(4)
    by (auto simp: t' table_inv_def filter_filter conj_commute intro!: exI [of _ gone])
qed

lemma resolve_table:
  "st_ttl (snd (resolveSession now sid c t)) = st_ttl t \<and> st_max (snd (resolveSession now sid c t)) = st_max t \<and>
   st_clients (snd (resolveSession now sid c t)) =
    (if sid = '''' then st_clients t
     else case map_of (st_clients t) sid of
       None \<Rightarrow> st_clients t
     | Some b \<Rightarrow>
       if After (sb_expiresAt b) now
       then AList.update sid (b\<lparr>sb_expiresAt := Add now (st_ttl t)\<rparr>) (st_clients t)
       else AList.delete sid (st_clients t))"
  by (auto simp: resolveSession_def lookupSessionClient_def split: option.splits)

lemma resolve_inv:
  assumes "table_inv t"
  shows "table_inv (snd (resolveSession now sid c t))"
  using assms resolve_table [of now sid c t] by (auto simp: table_inv_def split: option.splits)

lemma resolve_length:
  assumes "table_inv t"
  shows "length (st_clients (snd (resolveSession now sid c t))) \<le> length (st_clients t)"
proof -
  have u: "map_of m i = Some b \<Longrightarrow> length (AList.update i v m) = length m" for m i b and v :: sessionBinding
    by (rule length_update_present) (metis map_of_eq_None_iff option.distinct(1) list.set_map)
  have d: "length (AList.delete i m) \<le> length m" for i and m :: sessions
    by (simp add: AList.delete_eq)
  show ?thesis
  proof (cases "map_of (st_clients t) sid")
    case None
    then show ?thesis using resolve_table [of now sid c t] by simp
  next
    case (Some b)
    then show ?thesis using resolve_table [of now sid c t] d by (simp add: u [OF Some])
  qed
qed

section \<open>Runs\<close>

text \<open>The operations of all requests on the table, in the order in which they get the lock.\<close>

datatype session_op =
    OpBind instant instant string string
  | OpResolve instant string string

inductive session_step :: "SessionTable \<Rightarrow> session_op \<Rightarrow> SessionTable \<Rightarrow> bool" where
  bind: "permutes ord \<Longrightarrow> sid \<noteq> '''' \<Longrightarrow>
    session_step t (OpBind now1 now2 sid c) (bindSession ord now1 now2 sid c t)"
| resolve: "session_step t (OpResolve now sid c) (snd (resolveSession now sid c t))"

inductive session_run :: "SessionTable \<Rightarrow> session_op list \<Rightarrow> SessionTable \<Rightarrow> bool" where
  start: "session_run t [] t"
| step: "session_run t ops t1 \<Longrightarrow> session_step t1 a t2 \<Longrightarrow> session_run t (ops @ [a]) t2"

inductive_cases bindE: "session_step t (OpBind now1 now2 sid c) t'"
inductive_cases resolveE: "session_step t (OpResolve now sid c) t'"

inductive_simps session_step_resolve [simp]: "session_step t (OpResolve now sid c) t'"

definition new_table :: "duration \<Rightarrow> int \<Rightarrow> Registry option \<Rightarrow> SessionTable" where
  "new_table ttl mx m = \<lparr>st_clients = [], st_ttl = ttl, st_max = mx, st_metrics = m\<rparr>"

text \<open>The client of the last binding of a session id.\<close>

fun last_binder :: "session_op list \<Rightarrow> string \<Rightarrow> string option" where
  "last_binder [] sid = None"
| "last_binder (a # ops) sid =
     (case last_binder ops sid of
        Some c \<Rightarrow> Some c
      | None \<Rightarrow> (case a of OpBind n1 n2 s c \<Rightarrow> if s = sid then Some c else None | _ \<Rightarrow> None))"

lemma last_binder_snoc [simp]:
  "last_binder (ops @ [a]) sid =
    (case a of OpBind n1 n2 s c \<Rightarrow> if s = sid then Some c else last_binder ops sid | _ \<Rightarrow> last_binder ops sid)"
  by (induction ops) (auto split: session_op.splits option.splits)

definition owners_ok :: "session_op list \<Rightarrow> SessionTable \<Rightarrow> bool" where
  "owners_ok ops t \<longleftrightarrow>
     (\<forall>sid b. map_of (st_clients t) sid = Some b \<longrightarrow> last_binder ops sid = Some (sb_clientID b))"

lemma session_run_inv:
  "session_run t0 ops t \<Longrightarrow> t0 = new_table ttl mx m \<Longrightarrow> 0 < mx \<Longrightarrow>
   table_inv t \<and> st_ttl t = ttl \<and> st_max t = mx \<and> int (length (st_clients t)) \<le> mx \<and> owners_ok ops t"
proof (induction rule: session_run.induct)
  case (start t)
  then show ?case by (simp add: new_table_def table_inv_def named_def owners_ok_def)
next
  case (step t ops t1 a t2)
  then have IH: "table_inv t1" "st_ttl t1 = ttl" "st_max t1 = mx" "int (length (st_clients t1)) \<le> mx" "owners_ok ops t1"
    by simp_all
  from step.hyps(2) show ?case
  proof (cases rule: session_step.cases)
    case (bind ord sid now1 now2 c)
    have mx: "0 < st_max t1" using IH(3) step.prems(2) by simp
    note b = bindSession_spec [OF IH(1) bind(3) mx bind(4) bind(2)]
    then obtain gone where g: "st_clients t2 = AList.update sid \<lparr>sb_clientID = c, sb_expiresAt = Add now2 (st_ttl t1)\<rparr>
       (filter (\<lambda>x. live now1 x \<and> fst x \<notin> gone) (st_clients t1))" by blast
    have "owners_ok (ops @ [a]) t2"
      using IH(1,5) by (auto simp: owners_ok_def bind(1) g alist_simps map_of_filter_is_map table_inv_def
          split: option.splits if_splits)
    then show ?thesis using b IH by simp
  next
    case (resolve now sid c)
    have "owners_ok (ops @ [a]) t2"
      using IH(5) resolve_table [of now sid c t1]
      by (auto simp: owners_ok_def resolve alist_simps split: option.splits if_splits)
    then show ?thesis
      using IH resolve_table [of now sid c t1] resolve_inv [OF IH(1), of now sid c]
        resolve_length [OF IH(1), of now sid c] by (simp add: resolve)
  qed
qed

section \<open>Properties\<close>

text \<open>
  The table is bounded.  From the empty table, after any sequence of bindings and resolutions by
  any clients at any (even non-monotonic) clock readings, and whatever order Go enumerates the map
  in, the table holds at most the configured number of sessions, each id once, none of them empty.
\<close>

theorem session_capacity:
  assumes "session_run (new_table ttl mx m) ops t" and "0 < mx"
  shows "int (length (st_clients t)) \<le> mx \<and> distinct (map fst (st_clients t)) \<and> '''' \<notin> set (map fst (st_clients t))"
  using session_run_inv [OF assms(1) refl assms(2)] by (simp add: table_inv_def is_map_def named_def)

text \<open>Two sessions in a table of one: the second binding evicts the first.\<close>

definition two_binds :: "session_op list" where
  "two_binds = [OpBind 0 0 ''s1'' ''alice'', OpBind 1 1 ''s2'' ''bob'']"

definition table_after :: SessionTable where
  "table_after = bindSession (\<lambda>_ m. m) 1 1 ''s2'' ''bob''
     (bindSession (\<lambda>_ m. m) 0 0 ''s1'' ''alice'' (new_table 10 1 None))"

lemma two_binds_run: "session_run (new_table 10 1 None) two_binds table_after"
proof -
  have p: "permutes (\<lambda>_ m. m)" by (simp add: permutes_def)
  have b: "sid \<noteq> '''' \<Longrightarrow> session_step t (OpBind now u sid c) (bindSession (\<lambda>_ m. m) now u sid c t)" for t now u sid c
    by (rule session_step.bind [OF p])
  show ?thesis
    using session_run.step [OF session_run.step [OF session_run.start b [of "''s1''"]] b [of "''s2''"]]
    by (simp add: two_binds_def table_after_def)
qed

theorem session_capacity_witness:
  "length (st_clients table_after) = 1 \<and> map_of (st_clients table_after) ''s2'' = Some \<lparr>sb_clientID = ''bob'', sb_expiresAt = 11\<rparr>"
proof -
  have "length (st_clients table_after) \<le> 1"
    using session_capacity [OF two_binds_run] by simp
  moreover have "map_of (st_clients table_after) ''s2'' = Some \<lparr>sb_clientID = ''bob'', sb_expiresAt = 11\<rparr>"
    by (simp add: table_after_def bindSession_def new_table_def evictExpiredLocked_def oldestID_def Let_def
        instant_defs recordSessionEvictionLocked_def updateActiveSessionsMetricLocked_def delete_session_def)
  moreover from this have "st_clients table_after \<noteq> []" by auto
  ultimately show ?thesis by (cases "st_clients table_after") auto
qed

text \<open>
  C24: Sessions are not transferable.  Whatever has happened before, a session id resolves for a
  client only if the last binding of that id was made for this very client.
\<close>

theorem session_ownership:
  assumes "session_run (new_table ttl mx m) ops t" and "0 < mx"
    and "fst (resolveSession now sid c t) = Inr s"
  shows "s = sid \<and> sid \<noteq> '''' \<and> last_binder ops sid = Some c"
proof -
  have o: "owners_ok ops t" using session_run_inv [OF assms(1) refl assms(2)] by simp
  obtain b where "map_of (st_clients t) sid = Some b" "sb_clientID b = c" "s = sid" "sid \<noteq> ''''"
    using assms(3) by (auto simp: resolveSession_def lookupSessionClient_def split: option.splits if_splits)
  then show ?thesis using o by (auto simp: owners_ok_def)
qed

theorem session_ownership_witness:
  "last_binder two_binds ''s2'' = Some ''bob'' \<and> fst (resolveSession 5 ''s2'' ''bob'' table_after) = Inr ''s2''"
proof -
  have "fst (resolveSession 5 ''s2'' ''bob'' table_after) = Inr ''s2''"
    by (simp add: resolveSession_def lookupSessionClient_def table_after_def bindSession_def new_table_def
        evictExpiredLocked_def oldestID_def Let_def instant_defs recordSessionEvictionLocked_def
        updateActiveSessionsMetricLocked_def delete_session_def)
  with session_ownership [OF two_binds_run _ this] show ?thesis by simp
qed

text \<open>
  Resolution in full.  A session id resolves for a client exactly when it is bound to that
  client and its expiry lies in the future; the attempt of another client on a live session is
  refused as unauthorized, everything else as an invalid request.  A live session's expiry is pushed
  to now plus the time to live (also by the attempt of another client), an expired one is removed,
  and no other session is touched.
\<close>

theorem resolve_spec:
  "(case map_of (st_clients t) sid of
      None \<Rightarrow> (\<exists>m. fst (resolveSession now sid c t) = Inl (SessionError CodeInvalidRequest m)) \<and>
        map_of (st_clients (snd (resolveSession now sid c t))) = map_of (st_clients t)
    | Some b \<Rightarrow>
      if sid = '''' then fst (resolveSession now sid c t) = Inl (SessionError CodeInvalidRequest ''missing session header'')
      else if sb_expiresAt b \<le> now then
        fst (resolveSession now sid c t) = Inl (SessionError CodeInvalidRequest ''unknown session'') \<and>
        map_of (st_clients (snd (resolveSession now sid c t))) = (map_of (st_clients t))(sid := None)
      else fst (resolveSession now sid c t) =
          (if sb_clientID b = c then Inr sid
           else Inl (SessionError CodeUnauthorized ''session does not belong to client'')) \<and>
        map_of (st_clients (snd (resolveSession now sid c t))) =
          (map_of (st_clients t))(sid \<mapsto> b\<lparr>sb_expiresAt := now + st_ttl t\<rparr>))"
  using resolve_table [of now sid c t]
  by (auto simp: resolveSession_def lookupSessionClient_def alist_simps instant_defs not_less
      split: option.splits if_splits)

text \<open>
  A fresh session works.  Right after a session is bound it resolves for its client until its
  time to live has passed, whatever had to be evicted for it; the live sessions that were evicted
  (beside the one whose id is reused) expire no later than those that stayed.
\<close>

theorem bind_then_resolve:
  assumes "table_inv t" and "permutes ord" and "0 < st_max t" and "sid \<noteq> ''''" and "now < now2 + st_ttl t"
  shows "fst (resolveSession now sid c (bindSession ord now1 now2 sid c t)) = Inr sid"
proof -
  have "map_of (st_clients (bindSession ord now1 now2 sid c t)) sid =
      Some \<lparr>sb_clientID = c, sb_expiresAt = now2 + st_ttl t\<rparr>"
    using bindSession_spec [OF assms(1-4) refl, of now1 now2 c] by (auto simp: alist_simps Add_def)
  then show ?thesis
    using assms(4,5) by (simp add: resolveSession_def lookupSessionClient_def instant_defs)
qed

theorem bind_then_resolve_witness:
  "fst (resolveSession 5 ''s'' ''alice'' (bindSession (\<lambda>_ m. rev m) 0 0 ''s'' ''alice'' (new_table 10 1 None))) = Inr ''s''"
  by (rule bind_then_resolve) (simp_all add: table_inv_def named_def new_table_def permutes_def)

end
