(* ===== verification/Upstream.thy ===== *)
theory Upstream
  imports GoTime GoJson Metrics "HOL-Library.Multiset"
begin

text \<open>
  \<open>internal/upstream/manager.go\<close>: the managers that aggregate the tools of the upstream servers.
  A \<open>Client\<close> is a reference of a type parameter; what a client answers comes from the network and
  is an argument.  The first part models the operations, each critical section one function; the
  second part interleaves them: warm-ups, background refreshes and the callers of \<open>getCache\<close>.
\<close>

section \<open>Data\<close>

record CallResult =
  cr_UpstreamID :: string
  cr_Result :: ToolsCallResult

record 'c Entry =
  en_ID :: string
  en_Prefix :: string
  en_Client :: 'c

record 'c toolRoute =
  tr_upstreamID :: string
  tr_client :: 'c
  tr_originalName :: string

record 'c toolsCache =
  tc_tools :: "Tool list"
  tc_routeMap :: "string \<rightharpoonup> 'c toolRoute"
  tc_expiry :: instant

record ManagerConfig =
  mc_ToolsCacheTTL :: duration
  mc_RefreshTimeout :: duration

text \<open>
  \<open>realManager\<close>.  The channel \<open>loading\<close> is a number; the life-cycle context \<open>ctx\<close> only ends the
  background refreshes and their log output and is not represented.
\<close>

record 'c realManager =
  rm_entries :: "'c Entry list"
  rm_cacheTTL :: duration
  rm_refreshTimeout :: duration
  rm_cached :: "'c toolsCache option"
  rm_loading :: "nat option"
  rm_bgRefresh :: bool
  rm_metrics :: "Registry option"

datatype 'e manager_error =
    ErrNotReady
  | UnknownTool string
  | RefreshFailed string 'e
  | ClientFailed 'e
  | ContextDone

datatype manager_config_error = CacheTTLNotPositive | RefreshTimeoutNotPositive

definition defaultInputSchema :: "(string \<times> any) list" where
  "defaultInputSchema = [(''type'', AString ''object''), (''properties'', AMap [])]"

section \<open>The stub\<close>

definition stub_schema :: "string \<Rightarrow> (string \<times> any) list" where
  "stub_schema arg =
     [(''type'', AString ''object''),
      (''properties'', AMap [(arg, AMap [(''type'', AString ''string'')])]),
      (''required'', ASlice [AString arg])]"

definition stub_Warmup :: "'e manager_error option" where "stub_Warmup = None"
definition stub_Ready :: bool where "stub_Ready = True"

definition stub_ToolsList :: "'e manager_error + Tool list" where
  "stub_ToolsList = Inr
     [\<lparr>tool_Name = ''filesystem.read_file'', tool_Description = ''Read a file from the filesystem'',
       tool_InputSchema = Some (stub_schema ''path'')\<rparr>,
      \<lparr>tool_Name = ''github.search_repositories'', tool_Description = ''Search GitHub repositories'',
       tool_InputSchema = Some (stub_schema ''query'')\<rparr>]"

text \<open>A request does not tell a nil argument map from an empty one; \<open>nilmap\<close> says which it is.\<close>

definition stub_ToolsCall :: "bool \<Rightarrow> ToolsCallRequest \<Rightarrow> 'e manager_error + CallResult" where
  "stub_ToolsCall nilmap req =
     (let argsJSON = (if call_Arguments req = [] \<and> nilmap then ''null'' else marshal_map (call_Arguments req))
      in Inr \<lparr>cr_UpstreamID = ''stub'',
           cr_Result = \<lparr>result_Content = Some
             [\<lparr>content_Type = ''text'', content_Text = ''called '' @ call_Name req @ '' with '' @ argsJSON\<rparr>]\<rparr>\<rparr>)"

section \<open>Construction\<close>

definition validateManagerConfig :: "ManagerConfig \<Rightarrow> manager_config_error option" where
  "validateManagerConfig cfg =
     (if mc_ToolsCacheTTL cfg \<le> 0 then Some CacheTTLNotPositive
      else if mc_RefreshTimeout cfg \<le> 0 then Some RefreshTimeoutNotPositive
      else None)"

definition NewManager :: "'c Entry list \<Rightarrow> ManagerConfig \<Rightarrow> manager_config_error + 'c realManager" where
  "NewManager entries cfg =
     (case validateManagerConfig cfg of
        Some err \<Rightarrow> Inl err
      | None \<Rightarrow> Inr \<lparr>rm_entries = entries, rm_cacheTTL = mc_ToolsCacheTTL cfg,
          rm_refreshTimeout = mc_RefreshTimeout cfg, rm_cached = None, rm_loading = None,
          rm_bgRefresh = False, rm_metrics = None\<rparr>)"

definition SetMetrics :: "Registry \<Rightarrow> 'c realManager \<Rightarrow> 'c realManager" where
  "SetMetrics r m = m\<lparr>rm_metrics := Some r\<rparr>"

definition InvalidateCache :: "'c realManager \<Rightarrow> 'c realManager" where
  "InvalidateCache m = m\<lparr>rm_cached := None\<rparr>"

definition Ready :: "'c realManager \<Rightarrow> bool" where
  "Ready m \<longleftrightarrow> rm_cached m \<noteq> None"

section \<open>Refreshing\<close>

text \<open>
  The loops of \<open>doRefresh\<close>.  \<open>ask i\<close> is what the client of the \<open>i\<close>-th entry answers to this
  refresh's \<open>ToolsList\<close>.
\<close>

definition prefixed :: "'c Entry \<Rightarrow> Tool \<Rightarrow> string" where
  "prefixed e t = en_Prefix e @ ''.'' @ tool_Name t"

definition published :: "'c Entry \<Rightarrow> Tool \<Rightarrow> Tool" where
  "published e t =
     \<lparr>tool_Name = prefixed e t, tool_Description = tool_Description t,
      tool_InputSchema = (case tool_InputSchema t of
          None \<Rightarrow> Some defaultInputSchema
        | Some sch \<Rightarrow> Some (if length sch = 0 then defaultInputSchema else sch))\<rparr>"

definition route_of :: "'c Entry \<Rightarrow> Tool \<Rightarrow> 'c toolRoute" where
  "route_of e t = \<lparr>tr_upstreamID = en_ID e, tr_client = en_Client e, tr_originalName = tool_Name t\<rparr>"

type_synonym 'c listing = "Tool list \<times> (string \<rightharpoonup> 'c toolRoute)"

fun add_tools :: "'c Entry \<Rightarrow> Tool list \<Rightarrow> 'c listing \<Rightarrow> 'c listing" where
  "add_tools e [] acc = acc"
| "add_tools e (t # ts) (tools, routes) =
     add_tools e ts (tools @ [published e t], routes(prefixed e t \<mapsto> route_of e t))"

fun fetch_loop ::
  "(nat \<Rightarrow> 'e + Tool list) \<Rightarrow> nat \<Rightarrow> 'c Entry list \<Rightarrow> 'c listing \<Rightarrow> (string \<times> 'e) + 'c listing" where
  "fetch_loop ask i [] acc = Inr acc"
| "fetch_loop ask i (e # es) acc =
     (case ask i of
        Inl err \<Rightarrow> Inl (en_ID e, err)
      | Inr ts \<Rightarrow> fetch_loop ask (Suc i) es (add_tools e ts acc))"

definition doRefresh ::
  "(nat \<Rightarrow> 'e + Tool list) \<Rightarrow> instant \<Rightarrow> 'c realManager
   \<Rightarrow> ('e manager_error + 'c toolsCache) \<times> 'c realManager" where
  "doRefresh ask now m =
     (case fetch_loop ask 0 (rm_entries m) ([], Map.empty) of
        Inl (i, err) \<Rightarrow>
          (Inl (RefreshFailed i err), m\<lparr>rm_metrics := if_metrics (IncToolsRefreshFail i) (rm_metrics m)\<rparr>)
      | Inr (tools, routes) \<Rightarrow>
          (let c = \<lparr>tc_tools = tools, tc_routeMap = routes, tc_expiry = Add now (rm_cacheTTL m)\<rparr>
           in (Inr c, m\<lparr>rm_cached := Some c\<rparr>)))"

section \<open>Serving\<close>

text \<open>
  The two atomic parts of \<open>getCache\<close>: the read under the lock, which answers at once and says whether
  the cache it answers with is stale, and, after the lock is released, the compare-and-swap of
  \<open>bgRefresh\<close>, which says whether this caller starts the background refresh.
\<close>

definition read_cache :: "instant \<Rightarrow> 'c realManager \<Rightarrow> ('e manager_error + 'c toolsCache) \<times> bool" where
  "read_cache now m =
     (case rm_cached m of
        None \<Rightarrow> (Inl ErrNotReady, False)
      | Some c \<Rightarrow> (Inr c, \<not> Before now (tc_expiry c)))"

definition swap_bgRefresh :: "'c realManager \<Rightarrow> bool \<times> 'c realManager" where
  "swap_bgRefresh m = (if rm_bgRefresh m then (False, m) else (True, m\<lparr>rm_bgRefresh := True\<rparr>))"

text \<open>
  \<open>getCache\<close> as a caller sees it that no other thread interferes with; the third component says
  whether it starts a background refresh.
\<close>

definition getCache ::
  "instant \<Rightarrow> 'c realManager \<Rightarrow> ('e manager_error + 'c toolsCache) \<times> 'c realManager \<times> bool" where
  "getCache now m =
     (case read_cache now m of (r, stale) \<Rightarrow>
        if stale then (case swap_bgRefresh m of (spawn, m') \<Rightarrow> (r, m', spawn)) else (r, m, False))"

lemma getCache_eq:
  "getCache now m =
     (case rm_cached m of
        None \<Rightarrow> (Inl ErrNotReady, m, False)
      | Some c \<Rightarrow>
        if Before now (tc_expiry c) then (Inr c, m, False)
        else if rm_bgRefresh m then (Inr c, m, False)
        else (Inr c, m\<lparr>rm_bgRefresh := True\<rparr>, True))"
  by (simp add: getCache_def read_cache_def swap_bgRefresh_def split: option.splits)

definition ToolsList ::
  "instant \<Rightarrow> 'c realManager \<Rightarrow> ('e manager_error + Tool list) \<times> 'c realManager \<times> bool" where
  "ToolsList now m =
     (case getCache now m of
        (Inl err, m', sp) \<Rightarrow> (Inl err, m', sp)
      | (Inr c, m', sp) \<Rightarrow> (Inr (tc_tools c), m', sp))"

text \<open>
  The request a call is forwarded as, and the client it goes to.  A failed call to a client still
  reports the upstream: the error of \<open>ToolsCall\<close> carries the \<open>UpstreamID\<close> of the returned
  \<open>CallResult\<close>, \<open>None\<close> when that is nil.
\<close>

definition forwarded :: "'c toolRoute \<Rightarrow> ToolsCallRequest \<Rightarrow> ToolsCallRequest" where
  "forwarded route req = \<lparr>call_Name = tr_originalName route, call_Arguments = call_Arguments req\<rparr>"

definition ToolsCall ::
  "('c \<Rightarrow> ToolsCallRequest \<Rightarrow> 'e + ToolsCallResult) \<Rightarrow> instant \<Rightarrow> ToolsCallRequest \<Rightarrow> 'c realManager
   \<Rightarrow> ('e manager_error \<times> string option + CallResult) \<times> 'c realManager \<times> bool" where
  "ToolsCall send now req m =
     (case getCache now m of
        (Inl err, m', sp) \<Rightarrow> (Inl (err, None), m', sp)
      | (Inr c, m', sp) \<Rightarrow>
        (case tc_routeMap c (call_Name req) of
           None \<Rightarrow> (Inl (UnknownTool (call_Name req), None), m', sp)
         | Some route \<Rightarrow>
           (case send (tr_client route) (forwarded route req) of
              Inl err \<Rightarrow> (Inl (ClientFailed err, Some (tr_upstreamID route)), m', sp)
            | Inr r \<Rightarrow> (Inr \<lparr>cr_UpstreamID = tr_upstreamID route, cr_Result = r\<rparr>, m', sp))))"

section \<open>Warm-up\<close>

text \<open>
  The critical sections of \<open>Warmup\<close>.  On entry a caller returns, waits for the channel of the load
  in progress, or becomes the loader of a new channel \<open>ch\<close>.
\<close>

datatype warmup_entry = AlreadyLoaded | WaitFor nat | LoadOn nat

definition warmup_enter :: "nat \<Rightarrow> 'c realManager \<Rightarrow> warmup_entry \<times> 'c realManager" where
  "warmup_enter ch m =
     (if rm_cached m \<noteq> None then (AlreadyLoaded, m)
      else case rm_loading m of
        Some c \<Rightarrow> (WaitFor c, m)
      | None \<Rightarrow> (LoadOn ch, m\<lparr>rm_loading := Some ch\<rparr>))"

text \<open>What a waiting caller returns when the channel is closed; \<open>ctxDone\<close> is \<open>ctx.Err() != nil\<close>.\<close>

definition warmup_wake :: "bool \<Rightarrow> 'c realManager \<Rightarrow> 'e manager_error option" where
  "warmup_wake ctxDone m =
     (if rm_cached m \<noteq> None then None
      else if ctxDone then Some ContextDone
      else Some ErrNotReady)"

definition warmup_reset :: "'c realManager \<Rightarrow> 'c realManager" where
  "warmup_reset m = m\<lparr>rm_loading := None\<rparr>"

text \<open>\<open>Warmup\<close> as a caller sees it that no other thread interferes with.\<close>

definition Warmup ::
  "(nat \<Rightarrow> 'e + Tool list) \<Rightarrow> instant \<Rightarrow> nat \<Rightarrow> 'c realManager \<Rightarrow> 'e manager_error option \<times> 'c realManager" where
  "Warmup ask now ch m =
     (case warmup_enter ch m of
        (LoadOn c, m1) \<Rightarrow>
          (case doRefresh ask now m1 of
             (Inl err, m2) \<Rightarrow> (Some err, warmup_reset m2)
           | (Inr cache, m2) \<Rightarrow> (None, warmup_reset m2))
      | (AlreadyLoaded, m1) \<Rightarrow> (None, m1)
      | (WaitFor c, m1) \<Rightarrow> (warmup_wake True m1, m1))"

section \<open>What a refresh builds\<close>

text \<open>The tools of all upstreams with the entries they come from, in order.\<close>

fun answered :: "(nat \<Rightarrow> 'e + Tool list) \<Rightarrow> nat \<Rightarrow> 'c Entry list \<Rightarrow> ('c Entry \<times> Tool) list" where
  "answered ask i [] = []"
| "answered ask i (e # es) =
     (case ask i of Inl err \<Rightarrow> [] | Inr ts \<Rightarrow> map (Pair e) ts) @ answered ask (Suc i) es"

text \<open>The first entry whose client fails.\<close>

fun first_failure :: "(nat \<Rightarrow> 'e + Tool list) \<Rightarrow> nat \<Rightarrow> 'c Entry list \<Rightarrow> (string \<times> 'e) option" where
  "first_failure ask i [] = None"
| "first_failure ask i (e # es) =
     (case ask i of Inl err \<Rightarrow> Some (en_ID e, err) | Inr ts \<Rightarrow> first_failure ask (Suc i) es)"

definition listing :: "('c Entry \<times> Tool) list \<Rightarrow> 'c listing" where
  "listing ps =
     (map (\<lambda>(e, t). published e t) ps, map_of (rev (map (\<lambda>(e, t). (prefixed e t, route_of e t)) ps)))"

lemma add_tools_listing:
  "add_tools e ts (listing ps) = listing (ps @ map (Pair e) ts)"
proof (induction ts arbitrary: ps)
  case (Cons t ts)
  have "add_tools e (t # ts) (listing ps) = add_tools e ts (listing (ps @ [(e, t)]))"
    by (simp add: listing_def)
  then show ?case using Cons [of "ps @ [(e, t)]"] by simp
qed simp

lemma listing_Nil: "([], Map.empty) = listing []"
  by (simp add: listing_def)

lemma fetch_loop_eq:
  "fetch_loop ask i es (listing ps) =
     (case first_failure ask i es of
        Some f \<Rightarrow> Inl f
      | None \<Rightarrow> Inr (listing (ps @ answered ask i es)))"
  by (induction es arbitrary: i ps) (auto simp: add_tools_listing split: sum.splits option.splits)

lemma doRefresh_eq:
  "doRefresh ask now m =
     (case first_failure ask 0 (rm_entries m) of
        Some (i, err) \<Rightarrow>
          (Inl (RefreshFailed i err), m\<lparr>rm_metrics := if_metrics (IncToolsRefreshFail i) (rm_metrics m)\<rparr>)
      | None \<Rightarrow>
          (let l = listing (answered ask 0 (rm_entries m));
               c = \<lparr>tc_tools = fst l, tc_routeMap = snd l, tc_expiry = Add now (rm_cacheTTL m)\<rparr>
           in (Inr c, m\<lparr>rm_cached := Some c\<rparr>)))"
  by (simp add: doRefresh_def listing_Nil fetch_loop_eq split: option.splits prod.splits sum.splits)

lemma first_failure_None:
  "first_failure ask i es = None \<longleftrightarrow> (\<forall>k < length es. \<exists>ts. ask (i + k) = Inr ts)"
proof (induction es arbitrary: i)
  case (Cons e es)
  have "(\<forall>k < length (e # es). \<exists>ts. ask (i + k) = Inr ts) \<longleftrightarrow>
      (\<exists>ts. ask i = Inr ts) \<and> (\<forall>k < length es. \<exists>ts. ask (Suc i + k) = Inr ts)"
    by (auto simp: less_Suc_eq_0_disj)
  then show ?case using Cons [of "Suc i"] by (auto split: sum.splits)
qed simp

lemma first_failure_Some:
  "first_failure ask i es = Some f \<Longrightarrow> \<exists>k e. k < length es \<and> ask (i + k) = Inl e \<and>
      (\<forall>j < k. isl (ask (i + j)) = False) \<and> f = (en_ID (es ! k), e)"
proof (induction es arbitrary: i)
  case (Cons a es)
  show ?case
  proof (cases "ask i")
    case (Inl x)
    then show ?thesis using Cons.prems by (intro exI [of _ 0]) auto
  next
    case (Inr ts)
    then obtain k e where k: "k < length es" "ask (Suc i + k) = Inl e"
      "\<forall>j < k. isl (ask (Suc i + j)) = False" "f = (en_ID (es ! k), e)"
      using Cons.IH [of "Suc i"] Cons.prems by auto
    then show ?thesis
      using Inr by (intro exI [of _ "Suc k"] exI [of _ e]) (auto simp: less_Suc_eq_0_disj)
  qed
qed simp

lemma set_answered:
  "(e, t) \<in> set (answered ask i es) \<longleftrightarrow>
    (\<exists>k < length es. es ! k = e \<and> (\<exists>ts. ask (i + k) = Inr ts \<and> t \<in> set ts))"
proof (induction es arbitrary: i)
  case (Cons a es)
  have "(\<exists>k < length (a # es). (a # es) ! k = e \<and> (\<exists>ts. ask (i + k) = Inr ts \<and> t \<in> set ts)) \<longleftrightarrow>
      (a = e \<and> (\<exists>ts. ask i = Inr ts \<and> t \<in> set ts)) \<or>
      (\<exists>k < length es. es ! k = e \<and> (\<exists>ts. ask (Suc i + k) = Inr ts \<and> t \<in> set ts))"
    by (auto simp: less_Suc_eq_0_disj)
  then show ?case using Cons [of "Suc i"] by (auto split: sum.splits)
qed simp

text \<open>Every route is the route of a tool that was answered under that name.\<close>

lemma listing_route_sound:
  assumes "snd (listing ps) n = Some r"
  shows "\<exists>e t. (e, t) \<in> set ps \<and> n = prefixed e t \<and> r = route_of e t"
  using map_of_SomeD [of "rev (map (\<lambda>(e, t). (prefixed e t, route_of e t)) ps)" n r] assms
  by (auto simp: listing_def)

lemma dom_listing: "dom (snd (listing ps)) = tool_Name ` set (fst (listing ps))"
  by (force simp: listing_def dom_map_of_conv_image_fst published_def)

lemma listing_route_total:
  assumes "(e, t) \<in> set ps"
  shows "\<exists>e' t'. (e', t') \<in> set ps \<and> prefixed e' t' = prefixed e t \<and>
    snd (listing ps) (prefixed e t) = Some (route_of e' t')"
proof -
  have "prefixed e t \<in> dom (snd (listing ps))"
    using assms unfolding dom_listing by (force simp: listing_def published_def)
  then obtain r where r: "snd (listing ps) (prefixed e t) = Some r" by blast
  from listing_route_sound [OF r] show ?thesis using r by metis
qed

text \<open>Prefixes without a dot cannot be confused with the names behind them.\<close>

lemma dot_free_prefix:
  assumes "p @ ''.'' @ n = q @ ''.'' @ m" and "CHR ''.'' \<notin> set p" and "CHR ''.'' \<notin> set q"
  shows "p = q \<and> n = m"
proof -
  have t: "CHR ''.'' \<notin> set p \<Longrightarrow> takeWhile (\<lambda>c. c \<noteq> CHR ''.'') (p @ ''.'' @ n) = p" for p n :: string
    by (induction p) auto
  have "p = q" using t [OF assms(2), of n] t [OF assms(3), of m] assms(1) by simp
  then show ?thesis using assms(1) by simp
qed

definition dot_free :: "'c Entry list \<Rightarrow> bool" where
  "dot_free es \<longleftrightarrow> list_all (\<lambda>e. CHR ''.'' \<notin> set (en_Prefix e)) es"

lemma prefixed_inject:
  assumes "prefixed e t = prefixed e' t'" and "e \<in> set es" and "e' \<in> set es"
    and "dot_free es" and "distinct (map en_Prefix es)"
  shows "e = e' \<and> tool_Name t = tool_Name t'"
proof -
  have "en_Prefix e = en_Prefix e' \<and> tool_Name t = tool_Name t'"
    using assms(1-4) by (intro dot_free_prefix) (auto simp: prefixed_def dot_free_def list_all_iff)
  then show ?thesis using assms(2,3,5) by (auto simp: distinct_map inj_on_def)
qed

text \<open>
  Routing.  After a refresh in which every upstream answered, with pairwise different prefixes
  that contain no dot, exactly the names \<open>prefix.tool\<close> of answered tools are routable, and each one
  goes to the upstream of that prefix under the tool's own name.
\<close>

theorem routing_faithful:
  assumes "doRefresh ask now m = (Inr c, m')"
    and "dot_free (rm_entries m)" and "distinct (map en_Prefix (rm_entries m))"
  shows "tc_routeMap c n = Some r \<longleftrightarrow>
    (\<exists>k t ts. k < length (rm_entries m) \<and> ask k = Inr ts \<and> t \<in> set ts \<and>
      n = en_Prefix (rm_entries m ! k) @ ''.'' @ tool_Name t \<and>
      r = \<lparr>tr_upstreamID = en_ID (rm_entries m ! k), tr_client = en_Client (rm_entries m ! k),
           tr_originalName = tool_Name t\<rparr>)"
proof -
  define ps where "ps = answered ask 0 (rm_entries m)"
  have c: "tc_routeMap c = snd (listing ps)"
    using assms(1) by (auto simp: doRefresh_eq ps_def Let_def split: option.splits)
  have mem: "(e, t) \<in> set ps \<longleftrightarrow>
      (\<exists>k ts. k < length (rm_entries m) \<and> rm_entries m ! k = e \<and> ask k = Inr ts \<and> t \<in> set ts)" for e t
    by (auto simp: ps_def set_answered)
  have ent: "e \<in> set (rm_entries m)" if "(e, t) \<in> set ps" for e t
    using that by (auto simp: mem)
  have total: "snd (listing ps) (prefixed e t) = Some (route_of e t)" if et: "(e, t) \<in> set ps" for e t
  proof -
    obtain e' t' where 1: "(e', t') \<in> set ps" "prefixed e' t' = prefixed e t"
      "snd (listing ps) (prefixed e t) = Some (route_of e' t')"
      using listing_route_total [OF et] by blast
    then show ?thesis
      using prefixed_inject [OF 1(2) ent [OF 1(1)] ent [OF et] assms(2,3)] by (simp add: route_of_def)
  qed
  have "snd (listing ps) n = Some r \<longleftrightarrow> (\<exists>e t. (e, t) \<in> set ps \<and> n = prefixed e t \<and> r = route_of e t)"
    using listing_route_sound [of ps n r] total by auto
  then show ?thesis by (auto simp: c mem prefixed_def route_of_def)
qed

text \<open>Two upstreams, one tool each.\<close>

definition sample_tool :: "string \<Rightarrow> Tool" where
  "sample_tool n = \<lparr>tool_Name = n, tool_Description = '''', tool_InputSchema = None\<rparr>"

definition sample_manager :: "string \<Rightarrow> string \<Rightarrow> nat realManager" where
  "sample_manager p q =
     \<lparr>rm_entries = [\<lparr>en_ID = ''u1'', en_Prefix = p, en_Client = 1\<rparr>, \<lparr>en_ID = ''u2'', en_Prefix = q, en_Client = 2\<rparr>],
      rm_cacheTTL = 10, rm_refreshTimeout = 5, rm_cached = None, rm_loading = None, rm_bgRefresh = False,
      rm_metrics = None\<rparr>"

definition sample_answer :: "string \<Rightarrow> string \<Rightarrow> nat \<Rightarrow> unit + Tool list" where
  "sample_answer a b k = Inr [sample_tool (if k = 0 then a else b)]"

definition sample_cache :: "string \<Rightarrow> string \<Rightarrow> string \<Rightarrow> string \<Rightarrow> nat toolsCache" where
  "sample_cache p a q b = projr (fst (doRefresh (sample_answer a b) 0 (sample_manager p q)))"

lemma sample_refresh:
  "doRefresh (sample_answer a b) 0 (sample_manager p q) =
    (Inr (sample_cache p a q b), (sample_manager p q)\<lparr>rm_cached := Some (sample_cache p a q b)\<rparr>)"
  by (simp add: sample_cache_def doRefresh_def sample_manager_def sample_answer_def Let_def)

theorem routing_faithful_witness:
  "tc_routeMap (sample_cache ''fs'' ''read'' ''gh'' ''search'') ''gh.search'' =
    Some \<lparr>tr_upstreamID = ''u2'', tr_client = 2, tr_originalName = ''search''\<rparr>"
proof -
  have d: "dot_free (rm_entries (sample_manager ''fs'' ''gh''))"
    "distinct (map en_Prefix (rm_entries (sample_manager ''fs'' ''gh'')))"
    by (simp_all add: dot_free_def sample_manager_def)
  show ?thesis
    unfolding routing_faithful [OF sample_refresh d]
    by (rule exI [of _ 1]) (simp add: sample_answer_def sample_manager_def sample_tool_def)
qed

text \<open>
  Why the prefixes must not contain a dot.  The configuration only asks for different prefixes;
  with prefixes \<open>a\<close> and \<open>a.b\<close> the tools \<open>b.c\<close> and \<open>c\<close> are published under one name, listed twice,
  and every call goes to the upstream that comes last in the configuration.
\<close>

theorem dotted_prefixes_collide:
  "map tool_Name (tc_tools (sample_cache ''a'' ''b.c'' ''a.b'' ''c'')) = [''a.b.c'', ''a.b.c''] \<and>
   tc_routeMap (sample_cache ''a'' ''b.c'' ''a.b'' ''c'') ''a.b.c'' =
     Some \<lparr>tr_upstreamID = ''u2'', tr_client = 2, tr_originalName = ''c''\<rparr>"
  by (simp add: sample_cache_def doRefresh_def sample_manager_def sample_answer_def sample_tool_def
      prefixed_def published_def route_of_def Let_def)

text \<open>
  A refresh is all or nothing.  When every upstream answers, the cache becomes the complete
  list of published tools, valid for the configured time; when one fails, the first failure is
  reported, counted for that upstream, and everything else of the manager is left as it was.
\<close>

theorem refresh_all_or_nothing:
  "case doRefresh ask now m of
     (Inr c, m') \<Rightarrow> (\<forall>k < length (rm_entries m). isl (ask k) = False) \<and>
        tc_tools c = map (\<lambda>(e, t). published e t) (answered ask 0 (rm_entries m)) \<and>
        dom (tc_routeMap c) = tool_Name ` set (tc_tools c) \<and>
        tc_expiry c = Add now (rm_cacheTTL m) \<and> m' = m\<lparr>rm_cached := Some c\<rparr>
   | (Inl err, m') \<Rightarrow> (\<exists>k e. k < length (rm_entries m) \<and> ask k = Inl e \<and>
        (\<forall>j < k. isl (ask j) = False) \<and> err = RefreshFailed (en_ID (rm_entries m ! k)) e \<and>
        m' = m\<lparr>rm_metrics := map_option (IncToolsRefreshFail (en_ID (rm_entries m ! k))) (rm_metrics m)\<rparr>)"
proof (cases "first_failure ask 0 (rm_entries m)")
  case None
  then have "\<forall>k < length (rm_entries m). isl (ask k) = False"
    by (auto simp: first_failure_None)
  then show ?thesis
    using dom_listing [of "answered ask 0 (rm_entries m)"]
    by (simp add: doRefresh_eq None Let_def) (simp add: listing_def)
next
  case (Some f)
  obtain i err where f: "f = (i, err)" by fastforce
  show ?thesis using first_failure_Some [OF Some] by (auto simp: doRefresh_eq Some f)
qed

theorem refresh_all_or_nothing_witness:
  "doRefresh (\<lambda>k. if k = 1 then Inl () else Inr [sample_tool ''read'']) 0 (sample_manager ''fs'' ''gh'') =
    (Inl (RefreshFailed ''u2'' ()), sample_manager ''fs'' ''gh'')"
proof -
  let ?ask = "\<lambda>k :: nat. if k = 1 then Inl () else Inr [sample_tool ''read'']"
  obtain err m' where d: "doRefresh ?ask 0 (sample_manager ''fs'' ''gh'') = (Inl err, m')"
    by (simp add: doRefresh_def sample_manager_def)
  from refresh_all_or_nothing [where ask = ?ask and now = 0 and m = "sample_manager ''fs'' ''gh''"]
  show ?thesis unfolding d by (auto simp: sample_manager_def less_Suc_eq split: if_splits)
qed

section \<open>Interleaving\<close>

text \<open>
  The threads that are inside \<open>Warmup\<close> or \<open>getCache\<close> or are background refreshes, each at its program
  point: before the refresh, before \<open>loading = nil\<close>, before \<open>close(ch)\<close>, blocked on the channel; between
  the stale read and the compare-and-swap; before the refresh, before \<open>bgRefresh.Store(false)\<close>.
\<close>

datatype thread =
    WarmFetch nat
  | WarmReset nat
  | WarmClose nat
  | Waiting nat
  | StaleRead
  | BgFetch
  | BgRelease

record 'c system =
  sy_mgr :: "'c realManager"
  sy_threads :: "thread multiset"
  sy_closed :: "nat set"
  sy_next :: nat

datatype 'e sys_action =
    WarmEnter
  | FetchWarm nat "nat \<Rightarrow> 'e + Tool list" instant
  | ResetWarm nat
  | CloseWarm nat
  | Wake nat
  | Cancel nat
  | Serve instant
  | SwapBg
  | FetchBg "nat \<Rightarrow> 'e + Tool list" instant
  | ReleaseBg
  | Invalidate

definition enter_thread :: "warmup_entry \<Rightarrow> thread multiset" where
  "enter_thread w = (case w of AlreadyLoaded \<Rightarrow> {#} | WaitFor ch \<Rightarrow> {#Waiting ch#} | LoadOn ch \<Rightarrow> {#WarmFetch ch#})"

inductive sys_step :: "'c system \<Rightarrow> 'e sys_action \<Rightarrow> 'c system \<Rightarrow> bool" where
  warm_enter: "warmup_enter (sy_next s) (sy_mgr s) = (w, m) \<Longrightarrow>
    sys_step s WarmEnter (s\<lparr>sy_mgr := m, sy_threads := sy_threads s + enter_thread w, sy_next := Suc (sy_next s)\<rparr>)"
| fetch_warm: "sy_threads s = add_mset (WarmFetch ch) ts \<Longrightarrow>
    sys_step s (FetchWarm ch ask now)
      (s\<lparr>sy_mgr := snd (doRefresh ask now (sy_mgr s)), sy_threads := add_mset (WarmReset ch) ts\<rparr>)"
| reset_warm: "sy_threads s = add_mset (WarmReset ch) ts \<Longrightarrow>
    sys_step s (ResetWarm ch) (s\<lparr>sy_mgr := warmup_reset (sy_mgr s), sy_threads := add_mset (WarmClose ch) ts\<rparr>)"
| close_warm: "sy_threads s = add_mset (WarmClose ch) ts \<Longrightarrow>
    sys_step s (CloseWarm ch) (s\<lparr>sy_threads := ts, sy_closed := insert ch (sy_closed s)\<rparr>)"
| wake: "sy_threads s = add_mset (Waiting ch) ts \<Longrightarrow> ch \<in> sy_closed s \<Longrightarrow>
    sys_step s (Wake ch) (s\<lparr>sy_threads := ts\<rparr>)"
| cancel: "sy_threads s = add_mset (Waiting ch) ts \<Longrightarrow> sys_step s (Cancel ch) (s\<lparr>sy_threads := ts\<rparr>)"
| serve: "read_cache now (sy_mgr s) = ((r :: unit manager_error + 'c toolsCache), stale) \<Longrightarrow>
    sys_step s (Serve now) (s\<lparr>sy_threads := sy_threads s + (if stale then {#StaleRead#} else {#})\<rparr>)"
| swap_bg: "sy_threads s = add_mset StaleRead ts \<Longrightarrow> swap_bgRefresh (sy_mgr s) = (spawn, m) \<Longrightarrow>
    sys_step s SwapBg (s\<lparr>sy_mgr := m, sy_threads := ts + (if spawn then {#BgFetch#} else {#})\<rparr>)"
| fetch_bg: "sy_threads s = add_mset BgFetch ts \<Longrightarrow>
    sys_step s (FetchBg ask now)
      (s\<lparr>sy_mgr := snd (doRefresh ask now (sy_mgr s)), sy_threads := add_mset BgRelease ts\<rparr>)"
| release_bg: "sy_threads s = add_mset BgRelease ts \<Longrightarrow>
    sys_step s ReleaseBg (s\<lparr>sy_mgr := (sy_mgr s)\<lparr>rm_bgRefresh := False\<rparr>, sy_threads := ts\<rparr>)"
| invalidate: "sys_step s Invalidate (s\<lparr>sy_mgr := InvalidateCache (sy_mgr s)\<rparr>)"

inductive sys_run :: "'c system \<Rightarrow> 'e sys_action list \<Rightarrow> 'c system \<Rightarrow> bool" where
  run_start: "sys_run s [] s"
| run_step: "sys_run s as s1 \<Longrightarrow> sys_step s1 a s2 \<Longrightarrow> sys_run s (as @ [a]) s2"

inductive_cases sys_runE: "sys_run s as s'"

definition fresh :: "'c realManager \<Rightarrow> bool" where
  "fresh m \<longleftrightarrow> rm_cached m = None \<and> rm_loading m = None \<and> \<not> rm_bgRefresh m"

definition start_system :: "'c realManager \<Rightarrow> 'c system" where
  "start_system m = \<lparr>sy_mgr = m, sy_threads = {#}, sy_closed = {}, sy_next = 0\<rparr>"

lemma NewManager_fresh: "NewManager es cfg = Inr m \<Longrightarrow> fresh m \<and> rm_entries m = es \<and> 0 < rm_cacheTTL m"
  by (auto simp: NewManager_def validateManagerConfig_def fresh_def split: if_splits)

lemma SetMetrics_fresh [simp]: "fresh (SetMetrics r m) = fresh m"
  by (simp add: SetMetrics_def fresh_def)

subsection \<open>The invariant\<close>

fun loader :: "thread \<Rightarrow> bool" where
  "loader (WarmFetch ch) = True"
| "loader (WarmReset ch) = True"
| "loader _ = False"

fun background :: "thread \<Rightarrow> bool" where
  "background BgFetch = True"
| "background BgRelease = True"
| "background _ = False"

definition loading_ok :: "nat option \<Rightarrow> thread multiset \<Rightarrow> bool" where
  "loading_ok l ts \<longleftrightarrow>
     (case l of
        None \<Rightarrow> filter_mset loader ts = {#}
      | Some ch \<Rightarrow> filter_mset loader ts \<in> {{#WarmFetch ch#}, {#WarmReset ch#}})"

definition background_ok :: "bool \<Rightarrow> thread multiset \<Rightarrow> bool" where
  "background_ok b ts \<longleftrightarrow> size (filter_mset background ts) = (if b then 1 else 0)"

definition waiters_ok :: "nat set \<Rightarrow> thread multiset \<Rightarrow> bool" where
  "waiters_ok closed ts \<longleftrightarrow>
     (\<forall>ch. Waiting ch \<in># ts \<longrightarrow> ch \<in> closed \<or> WarmFetch ch \<in># ts \<or> WarmReset ch \<in># ts \<or> WarmClose ch \<in># ts)"

definition sys_inv :: "'c system \<Rightarrow> bool" where
  "sys_inv s \<longleftrightarrow>
     loading_ok (rm_loading (sy_mgr s)) (sy_threads s) \<and> background_ok (rm_bgRefresh (sy_mgr s)) (sy_threads s) \<and>
     waiters_ok (sy_closed s) (sy_threads s)"

lemma answered_complete:
  "first_failure ask i es = None \<Longrightarrow>
   answered ask i es = answered (\<lambda>k. Inr (projr (ask k)) :: unit + Tool list) i es"
  by (induction es arbitrary: i) (auto split: sum.splits)

lemma doRefresh_fields [simp]:
  "rm_entries (snd (doRefresh ask now m)) = rm_entries m"
  "rm_loading (snd (doRefresh ask now m)) = rm_loading m"
  "rm_bgRefresh (snd (doRefresh ask now m)) = rm_bgRefresh m"
  by (simp_all add: doRefresh_eq Let_def split: option.splits prod.splits)

lemma start_inv: "fresh m \<Longrightarrow> sys_inv (start_system m)"
  by (simp add: sys_inv_def start_system_def fresh_def loading_ok_def background_ok_def waiters_ok_def)

lemma swap_fields:
  "swap_bgRefresh m = (spawn, m') \<Longrightarrow>
    rm_entries m' = rm_entries m \<and> rm_cached m' = rm_cached m \<and> rm_loading m' = rm_loading m \<and>
    rm_bgRefresh m' \<and> spawn = (\<not> rm_bgRefresh m)"
  by (auto simp: swap_bgRefresh_def split: if_splits)

lemmas inv_defs = sys_inv_def loading_ok_def background_ok_def waiters_ok_def

lemma filter_single: "filter_mset P ts = {#t#} \<Longrightarrow> t \<in># ts"
proof -
  assume "filter_mset P ts = {#t#}"
  then have "t \<in># filter_mset P ts" by simp
  then show "t \<in># ts" by simp
qed

lemma sys_step_inv:
  assumes "sys_step s a s'" and "sys_inv s"
  shows "sys_inv s'"
  using assms
proof cases
  case (warm_enter w m)
  then show ?thesis using assms(2)
    by (auto simp: inv_defs warmup_enter_def enter_thread_def dest: filter_single split: if_splits option.splits)
next
  case (serve now r stale)
  then show ?thesis using assms(2) by (auto simp: inv_defs split: if_splits option.splits)
next
  case (swap_bg ts spawn m)
  then show ?thesis using assms(2) swap_fields [OF swap_bg(4)]
    by (auto simp: inv_defs split: if_splits option.splits)
next
  case release_bg
  then show ?thesis using assms(2) by (auto simp: inv_defs split: if_splits option.splits)
qed (use assms(2) in \<open>auto simp: inv_defs, auto simp: warmup_reset_def InvalidateCache_def split: option.splits\<close>)

lemma sys_run_inv: "sys_run s as s' \<Longrightarrow> sys_inv s \<Longrightarrow> sys_inv s'"
  by (induction rule: sys_run.induct) (auto intro: sys_step_inv)

text \<open>
  What the cache holds, read off the history: the listing of the last refresh in which every client
  answered, unless the cache has been invalidated since.
\<close>

fun after :: "'c Entry list \<Rightarrow> 'e sys_action \<Rightarrow> (nat \<Rightarrow> 'e + Tool list) option \<Rightarrow> (nat \<Rightarrow> 'e + Tool list) option" where
  "after es (FetchWarm ch ask now) cur = (if first_failure ask 0 es = None then Some ask else cur)"
| "after es (FetchBg ask now) cur = (if first_failure ask 0 es = None then Some ask else cur)"
| "after es Invalidate cur = None"
| "after es _ cur = cur"

definition last_answers :: "'c Entry list \<Rightarrow> 'e sys_action list \<Rightarrow> (nat \<Rightarrow> 'e + Tool list) option" where
  "last_answers es as = fold (after es) as None"

definition holds :: "'c Entry list \<Rightarrow> (nat \<Rightarrow> 'e + Tool list) option \<Rightarrow> 'c realManager \<Rightarrow> bool" where
  "holds es cur m \<longleftrightarrow> rm_entries m = es \<and>
     map_option (\<lambda>c. (tc_tools c, tc_routeMap c)) (rm_cached m) = map_option (\<lambda>ask. listing (answered ask 0 es)) cur"

lemma doRefresh_holds:
  "holds es cur m \<Longrightarrow>
    holds es (if first_failure ask 0 es = None then Some ask else cur) (snd (doRefresh ask now m))"
  by (auto simp: holds_def doRefresh_eq Let_def split: option.splits)

lemma sys_step_holds:
  assumes "sys_step s a s'" and "holds es cur (sy_mgr s)"
  shows "holds es (after es a cur) (sy_mgr s')"
  using assms
proof cases
  case (warm_enter w m)
  then show ?thesis using assms(2) by (auto simp: holds_def warmup_enter_def split: if_splits option.splits)
next
  case (fetch_warm ch ts ask now)
  then show ?thesis using doRefresh_holds [OF assms(2), of ask now] by simp
next
  case (fetch_bg ts ask now)
  then show ?thesis using doRefresh_holds [OF assms(2), of ask now] by simp
next
  case (swap_bg ts spawn m)
  then show ?thesis using assms(2) swap_fields [OF swap_bg(4)] by (simp add: holds_def)
qed (use assms(2) in \<open>simp_all add: holds_def warmup_reset_def InvalidateCache_def\<close>)

lemma sys_run_holds:
  "sys_run s as s' \<Longrightarrow> holds es cur (sy_mgr s) \<Longrightarrow> holds es (fold (after es) as cur) (sy_mgr s')"
  by (induction rule: sys_run.induct) (auto intro: sys_step_holds)

lemma reached_holds:
  assumes "fresh m0" and "sys_run (start_system m0) as s"
  shows "holds (rm_entries m0) (last_answers (rm_entries m0) as) (sy_mgr s)"
  unfolding last_answers_def
  by (rule sys_run_holds [OF assms(2)]) (use assms(1) in \<open>simp add: holds_def start_system_def fresh_def\<close>)

lemma fold_after_complete:
  "(case cur of None \<Rightarrow> True | Some ask \<Rightarrow> first_failure ask 0 es = None) \<Longrightarrow>
   fold (after es) as cur = Some ask \<Longrightarrow> first_failure ask 0 es = None"
proof (induction as arbitrary: cur)
  case (Cons a as)
  show ?case by (rule Cons.IH [of "after es a cur"]) (use Cons.prems in \<open>cases a; auto\<close>)+
qed simp

lemma last_answers_complete: "last_answers es as = Some ask \<Longrightarrow> \<forall>k < length es. \<exists>ts. ask k = Inr ts"
  using fold_after_complete [where cur = None and es = es and as = as and ask = ask] by (simp add: last_answers_def first_failure_None)

subsection \<open>Properties of all interleavings\<close>

text \<open>
  C31: Single flight.  However warm-ups, callers, refreshes and invalidations interleave, at most one
  warm-up loads from the upstreams at a time, and at most one background refresh exists; the flags
  \<open>loading\<close> and \<open>bgRefresh\<close> say exactly whether they do.
\<close>

theorem single_flight:
  assumes "fresh m" and "sys_run (start_system m) as s"
  shows "size (filter_mset loader (sy_threads s)) = (if rm_loading (sy_mgr s) = None then 0 else 1) \<and>
    size (filter_mset background (sy_threads s)) = (if rm_bgRefresh (sy_mgr s) then 1 else 0)"
  using sys_run_inv [OF assms(2) start_inv [OF assms(1)]]
  by (auto simp: inv_defs split: option.splits)

text \<open>A caller starts a warm-up, a second one joins it.\<close>

definition two_callers :: "unit sys_action list" where
  "two_callers = [WarmEnter, WarmEnter]"

definition waiting_system :: "nat realManager \<Rightarrow> nat system" where
  "waiting_system m = \<lparr>sy_mgr = m\<lparr>rm_loading := Some 0\<rparr>, sy_threads = {#Waiting 0, WarmFetch 0#}, sy_closed = {},
     sy_next = Suc (Suc 0)\<rparr>"

lemma run_snoc: "sys_run s as s1 \<Longrightarrow> sys_step s1 a s2 \<Longrightarrow> as' = as @ [a] \<Longrightarrow> sys_run s as' s2"
  by (simp add: run_step)

lemma two_callers_run:
  assumes "fresh m"
  shows "sys_run (start_system m) two_callers (waiting_system m)"
proof -
  let ?s1 = "\<lparr>sy_mgr = m\<lparr>rm_loading := Some 0\<rparr>, sy_threads = {#WarmFetch 0#}, sy_closed = {}, sy_next = 1\<rparr>"
  have 1: "sys_step (start_system m) WarmEnter ?s1"
    using warm_enter [of "start_system m" "LoadOn 0" "m\<lparr>rm_loading := Some 0\<rparr>"] assms
    by (simp add: start_system_def warmup_enter_def fresh_def enter_thread_def)
  have 2: "sys_step ?s1 WarmEnter (waiting_system m)"
    using warm_enter [of ?s1 "WaitFor 0" "m\<lparr>rm_loading := Some 0\<rparr>"] assms
    by (simp add: warmup_enter_def fresh_def enter_thread_def waiting_system_def add_mset_commute)
  show ?thesis
    by (rule run_snoc [OF run_snoc [OF run_start 1] 2]) (simp_all add: two_callers_def)
qed

lemma sample_fresh [simp]: "fresh (sample_manager p q)"
  by (simp add: fresh_def sample_manager_def)

theorem single_flight_witness:
  "size (filter_mset loader (sy_threads (waiting_system (sample_manager ''fs'' ''gh'')))) = 1"
  using single_flight [OF sample_fresh two_callers_run [OF sample_fresh]]
  by (simp add: waiting_system_def)

lemma run_Cons: "sys_run s1 as s2 \<Longrightarrow> sys_step s a s1 \<Longrightarrow> sys_run s (a # as) s2"
  by (induction rule: sys_run.induct) (auto intro: run_snoc run_start)

definition waits :: "nat \<Rightarrow> thread \<Rightarrow> 'c system \<Rightarrow> bool" where
  "waits ch t s \<longleftrightarrow> t \<in># sy_threads s \<and> Waiting ch \<in># sy_threads s"

lemma waits_split:
  assumes "waits ch t s" and "t \<noteq> Waiting ch"
  obtains ts where "sy_threads s = add_mset t ts" and "Waiting ch \<in># ts"
  using assms by (auto simp: waits_def dest!: multi_member_split [of t])

lemma fetch_moves:
  assumes "waits ch (WarmFetch ch) s"
  shows "\<exists>s'. sys_step s (FetchWarm ch ask now) s' \<and> waits ch (WarmReset ch) s'"
proof -
  obtain ts where "sy_threads s = add_mset (WarmFetch ch) ts" "Waiting ch \<in># ts" using waits_split [OF assms] by blast
  from fetch_warm [OF this(1), of ask now] this(2) show ?thesis by (auto simp: waits_def)
qed

lemma reset_moves:
  assumes "waits ch (WarmReset ch) s"
  shows "\<exists>s'. sys_step s (ResetWarm ch) s' \<and> waits ch (WarmClose ch) s'"
proof -
  obtain ts where "sy_threads s = add_mset (WarmReset ch) ts" "Waiting ch \<in># ts" using waits_split [OF assms] by blast
  from reset_warm [OF this(1)] this(2) show ?thesis by (auto simp: waits_def)
qed

lemma close_moves:
  assumes "waits ch (WarmClose ch) s"
  shows "\<exists>s'. sys_step s (CloseWarm ch) s' \<and> ch \<in> sy_closed s' \<and> Waiting ch \<in># sy_threads s'"
proof -
  obtain ts where "sy_threads s = add_mset (WarmClose ch) ts" "Waiting ch \<in># ts" using waits_split [OF assms] by blast
  from close_warm [OF this(1)] this(2) show ?thesis by auto
qed

text \<open>
  C34: No caller of \<open>Warmup\<close> is left behind.  In every reachable state in which a caller waits for a
  load, the loader alone, whatever the upstreams answer and in at most three steps, gets to closing
  the channel the caller waits for, or has done so.
\<close>

theorem waiters_released:
  assumes "fresh m" and "sys_run (start_system m) as s" and "Waiting ch \<in># sy_threads s"
  shows "\<exists>bs s'. set bs \<subseteq> {FetchWarm ch ask now, ResetWarm ch, CloseWarm ch} \<and> length bs \<le> 3 \<and>
    sys_run s bs s' \<and> ch \<in> sy_closed s' \<and> Waiting ch \<in># sy_threads s'"
proof -
  let ?goal = "\<lambda>s bs s'. sys_run s bs s' \<and> ch \<in> sy_closed s' \<and> Waiting ch \<in># sy_threads s'"
  have close: "\<exists>s'. ?goal s [CloseWarm ch] s'" if "waits ch (WarmClose ch) s" for s :: "'a system"
    using close_moves [OF that] run_Cons [OF run_start] by blast
  have reset: "\<exists>s'. ?goal s [ResetWarm ch, CloseWarm ch] s'" if "waits ch (WarmReset ch) s" for s :: "'a system"
    using reset_moves [OF that] close run_Cons by blast
  have fetch: "\<exists>s'. ?goal s [FetchWarm ch ask now, ResetWarm ch, CloseWarm ch] s'"
    if "waits ch (WarmFetch ch) s" for s :: "'a system"
    using fetch_moves [OF that, of ask now] reset run_Cons by blast
  have "ch \<in> sy_closed s \<or> WarmFetch ch \<in># sy_threads s \<or> WarmReset ch \<in># sy_threads s \<or> WarmClose ch \<in># sy_threads s"
    using sys_run_inv [OF assms(2) start_inv [OF assms(1)]] assms(3) by (simp add: sys_inv_def waiters_ok_def)
  then consider "ch \<in> sy_closed s" | "waits ch (WarmFetch ch) s" | "waits ch (WarmReset ch) s" | "waits ch (WarmClose ch) s"
    using assms(3) by (auto simp: waits_def)
  then show ?thesis
  proof cases
    case 1
    then show ?thesis using assms(3) run_start by (intro exI [of _ "[]"] exI [of _ s]) simp
  next
    case 2
    from fetch [OF this] show ?thesis by (elim exE) (rule exI, rule exI, rule conjI [rotated], rule conjI [rotated], assumption, simp_all)
  next
    case 3
    from reset [OF this] show ?thesis by (elim exE) (rule exI, rule exI, rule conjI [rotated], rule conjI [rotated], assumption, simp_all)
  next
    case 4
    from close [OF this] show ?thesis by (elim exE) (rule exI, rule exI, rule conjI [rotated], rule conjI [rotated], assumption, simp_all)
  qed
qed

theorem waiters_released_witness:
  "\<exists>bs s'. sys_run (waiting_system (sample_manager ''fs'' ''gh'')) bs s' \<and> length bs \<le> 3 \<and> 0 \<in> sy_closed s' \<and>
     Waiting 0 \<in># sy_threads s' \<and>
     set bs \<subseteq> {FetchWarm 0 (sample_answer ''read'' ''search'') 0, ResetWarm 0, CloseWarm 0}"
proof -
  have "Waiting 0 \<in># sy_threads (waiting_system (sample_manager ''fs'' ''gh''))" by (simp add: waiting_system_def)
  from waiters_released [OF sample_fresh two_callers_run [OF sample_fresh] this,
      of "sample_answer ''read'' ''search''" 0]
  show ?thesis by blast
qed

text \<open>
  What the readers of the cache rely on, as an abstract cell: it is empty or holds the listing of one
  complete set of answers; it is overwritten by another such listing, and emptied by invalidation.
\<close>

definition complete_listing :: "'c Entry list \<Rightarrow> 'c listing \<Rightarrow> bool" where
  "complete_listing es l \<longleftrightarrow> (\<exists>f. l = listing (answered (\<lambda>k. Inr (f k) :: unit + Tool list) 0 es))"

inductive cell_step :: "'c Entry list \<Rightarrow> bool \<Rightarrow> 'c listing option \<Rightarrow> 'c listing option \<Rightarrow> bool" for es where
  keep: "cell_step es b x x"
| install: "complete_listing es l \<Longrightarrow> cell_step es b x (Some l)"
| drop: "cell_step es True x None"

definition cell :: "'c system \<Rightarrow> 'c listing option" where
  "cell s = map_option (\<lambda>c. (tc_tools c, tc_routeMap c)) (rm_cached (sy_mgr s))"

lemma cell_Some: "cell s = Some (tc_tools c, tc_routeMap c)" if "rm_cached (sy_mgr s) = Some c"
  using that by (simp add: cell_def)

lemma cell_doRefresh:
  "cell_step (rm_entries m) False (map_option (\<lambda>c. (tc_tools c, tc_routeMap c)) (rm_cached m))
     (map_option (\<lambda>c. (tc_tools c, tc_routeMap c)) (rm_cached (snd (doRefresh ask now m))))"
proof (cases "first_failure ask 0 (rm_entries m)")
  case None
  have "complete_listing (rm_entries m) (listing (answered ask 0 (rm_entries m)))"
    unfolding complete_listing_def using answered_complete [OF None]
    by (intro exI [of _ "\<lambda>k. projr (ask k)"]) simp
  from install [OF this] show ?thesis by (simp add: doRefresh_eq None Let_def)
next
  case (Some f)
  then show ?thesis by (cases f) (simp add: doRefresh_eq keep)
qed

text \<open>
  Refinement.  Every step of the interleaved manager is a step of the abstract cell: the cache is
  only ever replaced as a whole by a listing for which every upstream answered, a failed refresh
  leaves it alone, and only an invalidation empties it.
\<close>

theorem cache_refines_cell:
  assumes "sys_step s a s'"
  shows "cell_step (rm_entries (sy_mgr s)) (a = Invalidate) (cell s) (cell s') \<and>
    rm_entries (sy_mgr s') = rm_entries (sy_mgr s)"
  using assms
proof cases
  case (warm_enter w m)
  then show ?thesis by (auto simp: cell_def warmup_enter_def keep split: if_splits option.splits)
next
  case (swap_bg ts spawn m)
  then show ?thesis using swap_fields [OF swap_bg(4)] by (simp add: cell_def keep)
next
  case (fetch_warm ch ts ask now)
  then show ?thesis using cell_doRefresh [of "sy_mgr s" ask now] by (simp add: cell_def)
next
  case (fetch_bg ts ask now)
  then show ?thesis using cell_doRefresh [of "sy_mgr s" ask now] by (simp add: cell_def)
qed (auto simp: cell_def warmup_reset_def InvalidateCache_def keep drop)

theorem cache_refines_cell_witness:
  "cell_step (rm_entries (sample_manager ''fs'' ''gh'')) True
     (cell (waiting_system (sample_manager ''fs'' ''gh'')))
     (cell ((waiting_system (sample_manager ''fs'' ''gh''))
        \<lparr>sy_mgr := InvalidateCache (sy_mgr (waiting_system (sample_manager ''fs'' ''gh'')))\<rparr>))"
  using cache_refines_cell [OF invalidate, of "waiting_system (sample_manager ''fs'' ''gh'')"]
  by (simp add: waiting_system_def sample_manager_def)

lemma ToolsList_ready: "rm_cached m = Some c \<Longrightarrow> fst (ToolsList now m) = Inr (tc_tools c)"
  by (auto simp: ToolsList_def getCache_eq)

lemma ToolsList_empty: "rm_cached m = None \<Longrightarrow> fst (ToolsList now m) = Inl ErrNotReady"
  by (simp add: ToolsList_def getCache_eq)

lemma ToolsCall_empty: "rm_cached m = None \<Longrightarrow> fst (ToolsCall send now req m) = Inl (ErrNotReady, None)"
  by (simp add: ToolsCall_def getCache_eq)

lemma ToolsCall_ready:
  assumes "rm_cached m = Some c"
  shows "fst (ToolsCall send now req m) =
    (case tc_routeMap c (call_Name req) of
       None \<Rightarrow> Inl (UnknownTool (call_Name req), None)
     | Some route \<Rightarrow>
       (case send (tr_client route) (forwarded route req) of
          Inl err \<Rightarrow> Inl (ClientFailed err, Some (tr_upstreamID route))
        | Inr r \<Rightarrow> Inr \<lparr>cr_UpstreamID = tr_upstreamID route, cr_Result = r\<rparr>))"
  using assms by (auto simp: ToolsCall_def getCache_eq split: option.splits sum.splits)

text \<open>
  The tool that stands behind a published name: the last one, in the order of the entries and of
  their answers, that is published under it, and the entry that answered it.
\<close>

definition published_by ::
  "(nat \<Rightarrow> 'e + Tool list) \<Rightarrow> 'c Entry list \<Rightarrow> string \<Rightarrow> 'c Entry \<Rightarrow> Tool \<Rightarrow> bool" where
  "published_by ask es n e t \<longleftrightarrow>
     (\<exists>xs ys. answered ask 0 es = xs @ (e, t) # ys \<and> prefixed e t = n \<and> (\<forall>(e', t') \<in> set ys. prefixed e' t' \<noteq> n))"

definition forward_to ::
  "('c \<Rightarrow> ToolsCallRequest \<Rightarrow> 'e + ToolsCallResult) \<Rightarrow> ToolsCallRequest \<Rightarrow> 'c Entry \<Rightarrow> Tool
   \<Rightarrow> ('e manager_error \<times> string option) + CallResult" where
  "forward_to send req e t =
     (case send (en_Client e) (req\<lparr>call_Name := tool_Name t\<rparr>) of
        Inl err \<Rightarrow> Inl (ClientFailed err, Some (en_ID e))
      | Inr r \<Rightarrow> Inr \<lparr>cr_UpstreamID = en_ID e, cr_Result = r\<rparr>)"

lemma listing_lookup:
  "snd (listing ps) n = None \<longleftrightarrow> (\<forall>(e, t) \<in> set ps. prefixed e t \<noteq> n)"
  "snd (listing ps) n = Some r \<Longrightarrow>
    \<exists>xs e t ys. ps = xs @ (e, t) # ys \<and> prefixed e t = n \<and> (\<forall>(e', t') \<in> set ys. prefixed e' t' \<noteq> n) \<and> r = route_of e t"
proof (induction ps rule: rev_induct)
  case (snoc p ps)
  obtain e t where p: "p = (e, t)" by fastforce
  have l: "snd (listing (ps @ [(e, t)])) n = (if prefixed e t = n then Some (route_of e t) else snd (listing ps) n)"
    by (simp add: listing_def)
  {
    case 1
    show ?case using snoc(1) by (auto simp: l p)
  next
    case 2
    show ?case
    proof (cases "prefixed e t = n")
      case True
      with 2 show ?thesis by (intro exI [of _ ps] exI [of _ e] exI [of _ t] exI [of _ "[]"]) (simp add: l p)
    next
      case False
      with 2 have "snd (listing ps) n = Some r" by (simp add: p l)
      from snoc(2) [OF this] obtain xs e' t' ys where
        "ps = xs @ (e', t') # ys" "prefixed e' t' = n" "\<forall>(e', t') \<in> set ys. prefixed e' t' \<noteq> n" "r = route_of e' t'"
        by blast
      then show ?thesis using False
        by (intro exI [of _ xs] exI [of _ e'] exI [of _ t'] exI [of _ "ys @ [p]"]) (auto simp: p)
    qed
  }
qed (simp_all add: listing_def)

lemma ToolsCall_routes:
  assumes "fresh m0" and "sys_run (start_system m0) as s"
  shows "case last_answers (rm_entries m0) as of
      None \<Rightarrow> fst (ToolsList now (sy_mgr s)) = Inl ErrNotReady \<and>
        fst (ToolsCall send now req (sy_mgr s)) = Inl (ErrNotReady, None)
    | Some ask \<Rightarrow>
        fst (ToolsList now (sy_mgr s)) = Inr (map (\<lambda>(e, t). published e t) (answered ask 0 (rm_entries m0))) \<and>
        (if \<forall>(e, t) \<in> set (answered ask 0 (rm_entries m0)). prefixed e t \<noteq> call_Name req
         then fst (ToolsCall send now req (sy_mgr s)) = Inl (UnknownTool (call_Name req), None)
         else \<exists>e t. published_by ask (rm_entries m0) (call_Name req) e t \<and>
           fst (ToolsCall send now req (sy_mgr s)) = forward_to send req e t)"
proof (cases "last_answers (rm_entries m0) as")
  case None
  then have "rm_cached (sy_mgr s) = None" using reached_holds [OF assms] by (simp add: holds_def)
  then show ?thesis using None by (simp add: ToolsList_empty ToolsCall_empty)
next
  case (Some ask)
  let ?ps = "answered ask 0 (rm_entries m0)"
  obtain c where c: "rm_cached (sy_mgr s) = Some c" "(tc_tools c, tc_routeMap c) = listing ?ps"
    using reached_holds [OF assms] Some by (auto simp: holds_def)
  have tools: "tc_tools c = map (\<lambda>(e, t). published e t) ?ps" and routes: "tc_routeMap c = snd (listing ?ps)"
    using c(2) by (simp_all add: listing_def)
  note call = ToolsCall_ready [OF c(1), of send now req, unfolded routes]
  show ?thesis
  proof (cases "snd (listing ?ps) (call_Name req)")
    case None
    then show ?thesis using listing_lookup(1) [of ?ps "call_Name req"]
      by (simp add: Some call ToolsList_ready [OF c(1)] tools)
  next
    case (Some r)
    have fw: "forwarded (route_of e t) req = req\<lparr>call_Name := tool_Name t\<rparr>" for e :: "'a Entry" and t
      by (cases req) (simp add: forwarded_def route_of_def)
    have "fst (ToolsCall send now req (sy_mgr s)) = forward_to send req e t" if "r = route_of e t" for e t
      by (simp add: call Some that fw forward_to_def) (simp add: route_of_def split: sum.split)
    moreover have "\<not> (\<forall>(e, t) \<in> set ?ps. prefixed e t \<noteq> call_Name req)"
      using listing_lookup(1) [of ?ps "call_Name req"] Some by simp
    ultimately show ?thesis using listing_lookup(2) [OF Some] \<open>last_answers (rm_entries m0) as = Some ask\<close>
      by (simp add: published_by_def ToolsList_ready [OF c(1)] tools) blast
  qed
qed

text \<open>
  C18: What a call does.  In every state reachable by any interleaving, let \<open>ask\<close> be the answers of the
  last refresh in which every upstream answered, unless the cache was invalidated since.  Without one, a
  listing and a call fail with \<open>ErrNotReady\<close>.  With one, the listing is exactly the tools of \<open>ask\<close>,
  published under \<open>prefix.name\<close>; a call of a name that is not published there is refused and no
  upstream is asked; a call of a published name is what the client of the entry that published it (the
  last one, if several did) answers to the same arguments under the tool's original name.
\<close>

theorem ToolsCall_routed:
  assumes "fresh m0" and "sys_run (start_system m0) as s"
  shows "case last_answers (rm_entries m0) as of
      None \<Rightarrow> fst (ToolsList now (sy_mgr s)) = Inl ErrNotReady \<and>
        fst (ToolsCall send now req (sy_mgr s)) = Inl (ErrNotReady, None)
    | Some ask \<Rightarrow>
        fst (ToolsList now (sy_mgr s)) = Inr (map (\<lambda>(e, t). published e t) (answered ask 0 (rm_entries m0))) \<and>
        (if \<forall>(e, t) \<in> set (answered ask 0 (rm_entries m0)). prefixed e t \<noteq> call_Name req
         then fst (ToolsCall send now req (sy_mgr s)) = Inl (UnknownTool (call_Name req), None)
         else \<exists>e t. published_by ask (rm_entries m0) (call_Name req) e t \<and>
           fst (ToolsCall send now req (sy_mgr s)) =
             (case send (en_Client e) (req\<lparr>call_Name := tool_Name t\<rparr>) of
                Inl err \<Rightarrow> Inl (ClientFailed err, Some (en_ID e))
              | Inr r \<Rightarrow> Inr \<lparr>cr_UpstreamID = en_ID e, cr_Result = r\<rparr>))"
  using ToolsCall_routes [OF assms, of now send req] unfolding forward_to_def .

text \<open>The system after a successful warm-up by one caller.\<close>

definition warmed_system :: "nat realManager \<Rightarrow> string \<Rightarrow> string \<Rightarrow> nat system" where
  "warmed_system m a b =
     \<lparr>sy_mgr = snd (doRefresh (sample_answer a b) 0 (m\<lparr>rm_loading := Some 0\<rparr>)), sy_threads = {#WarmReset 0#},
      sy_closed = {}, sy_next = Suc 0\<rparr>"

lemma warmed_run:
  assumes "fresh m"
  shows "sys_run (start_system m) [WarmEnter, FetchWarm 0 (sample_answer a b) 0] (warmed_system m a b)"
proof -
  let ?s1 = "\<lparr>sy_mgr = m\<lparr>rm_loading := Some 0\<rparr>, sy_threads = {#WarmFetch 0#}, sy_closed = {}, sy_next = Suc 0\<rparr>"
  have 1: "sys_step (start_system m) (WarmEnter :: unit sys_action) ?s1"
    using warm_enter [of "start_system m" "LoadOn 0" "m\<lparr>rm_loading := Some 0\<rparr>"] assms
    by (simp add: start_system_def warmup_enter_def fresh_def enter_thread_def)
  have 2: "sys_step ?s1 (FetchWarm 0 (sample_answer a b) 0) (warmed_system m a b)"
    using fetch_warm [of ?s1 0 "{#}" "sample_answer a b" 0] by (simp add: warmed_system_def)
  show ?thesis
    by (rule run_snoc [OF run_snoc [OF run_start 1 refl] 2]) simp
qed

lemma warmed_answers:
  "last_answers (rm_entries (sample_manager p q)) [WarmEnter, FetchWarm 0 (sample_answer a b) 0] =
    Some (sample_answer a b)"
  "answered (sample_answer a b) 0 (rm_entries (sample_manager p q)) =
    [(\<lparr>en_ID = ''u1'', en_Prefix = p, en_Client = 1\<rparr>, sample_tool a), (\<lparr>en_ID = ''u2'', en_Prefix = q, en_Client = 2\<rparr>, sample_tool b)]"
  by (simp_all add: last_answers_def sample_manager_def sample_answer_def)

theorem ToolsCall_routed_witness:
  "fst (ToolsCall (\<lambda>c q. if c = 1 \<and> call_Name q = ''read'' then Inr \<lparr>result_Content = None\<rparr> else Inl ()) 0
     \<lparr>call_Name = ''fs.read'', call_Arguments = []\<rparr> (sy_mgr (warmed_system (sample_manager ''fs'' ''gh'') ''read'' ''search''))) =
     Inr \<lparr>cr_UpstreamID = ''u1'', cr_Result = \<lparr>result_Content = None\<rparr>\<rparr> \<and>
   fst (ToolsCall (\<lambda>c q. Inr \<lparr>result_Content = None\<rparr> :: unit + ToolsCallResult) 0
     \<lparr>call_Name = ''fs.write'', call_Arguments = []\<rparr> (sy_mgr (warmed_system (sample_manager ''fs'' ''gh'') ''read'' ''search''))) =
     Inl (UnknownTool ''fs.write'', None)"
proof -
  note fs = sample_fresh [of "''fs''" "''gh''"]
  note u = ToolsCall_routed [OF fs warmed_run [OF fs, of "''read''" "''search''"], unfolded warmed_answers]
  have p: "published_by (sample_answer ''read'' ''search'') (rm_entries (sample_manager ''fs'' ''gh'')) ''fs.read'' e t \<Longrightarrow>
      e = \<lparr>en_ID = ''u1'', en_Prefix = ''fs'', en_Client = 1\<rparr> \<and> t = sample_tool ''read''" for e t
    by (auto simp: published_by_def warmed_answers prefixed_def sample_tool_def Cons_eq_append_conv)
  have 1: "fst (ToolsCall (\<lambda>c q. if c = 1 \<and> call_Name q = ''read'' then Inr \<lparr>result_Content = None\<rparr> else Inl ()) 0
     \<lparr>call_Name = ''fs.read'', call_Arguments = []\<rparr> (sy_mgr (warmed_system (sample_manager ''fs'' ''gh'') ''read'' ''search''))) =
     Inr \<lparr>cr_UpstreamID = ''u1'', cr_Result = \<lparr>result_Content = None\<rparr>\<rparr>"
    using u [where now = 0 and send = "\<lambda>c q. if c = 1 \<and> call_Name q = ''read'' then Inr \<lparr>result_Content = None\<rparr> else Inl ()"
        and req = "\<lparr>call_Name = ''fs.read'', call_Arguments = []\<rparr>"]
    by (auto simp: warmed_answers prefixed_def sample_tool_def dest!: p)
  have 2: "fst (ToolsCall (\<lambda>c q. Inr \<lparr>result_Content = None\<rparr> :: unit + ToolsCallResult) 0
     \<lparr>call_Name = ''fs.write'', call_Arguments = []\<rparr> (sy_mgr (warmed_system (sample_manager ''fs'' ''gh'') ''read'' ''search''))) =
     Inl (UnknownTool ''fs.write'', None)"
    using u [where now = 0 and send = "\<lambda>c q. Inr \<lparr>result_Content = None\<rparr> :: unit + ToolsCallResult"
        and req = "\<lparr>call_Name = ''fs.write'', call_Arguments = []\<rparr>"]
    by (auto simp: warmed_answers prefixed_def sample_tool_def)
  show ?thesis using 1 2 by simp
qed

section \<open>The interface\<close>

text \<open>
  \<open>Manager\<close> as the gateway and the commands use it: readiness, listing and calling agree on whether
  the manager is ready, and a successful warm-up makes it ready.
\<close>

locale upstream_interface =
  fixes ready :: "'s \<Rightarrow> bool"
    and list_tools :: "instant \<Rightarrow> 's \<Rightarrow> 'e manager_error + Tool list"
    and call_tool :: "instant \<Rightarrow> ToolsCallRequest \<Rightarrow> 's \<Rightarrow> 'e manager_error \<times> string option + CallResult"
    and warm_up :: "'s \<Rightarrow> 'e manager_error option \<times> 's"
  assumes list_ready: "ready s \<Longrightarrow> \<exists>ts. list_tools now s = Inr ts"
    and list_not_ready: "\<not> ready s \<Longrightarrow> list_tools now s = Inl ErrNotReady"
    and call_ready: "ready s \<Longrightarrow> call_tool now req s \<noteq> Inl (ErrNotReady, u)"
    and call_not_ready: "\<not> ready s \<Longrightarrow> call_tool now req s = Inl (ErrNotReady, None)"
    and warm_up_ready: "warm_up s = (None, s') \<Longrightarrow> ready s'"
begin

lemma list_error: "list_tools now s = Inl err \<longleftrightarrow> \<not> ready s \<and> err = ErrNotReady"
  using list_ready [of s now] list_not_ready [of s now] by (cases "ready s") auto

lemma call_error_not_ready: "call_tool now req s = Inl (ErrNotReady, u) \<longleftrightarrow> \<not> ready s \<and> u = None"
  using call_ready [of s now req u] call_not_ready [of s now req] by (cases "ready s") auto

lemma validated: "warm_up s = (None, s') \<Longrightarrow> \<exists>ts. list_tools now s' = Inr ts"
  by (intro list_ready warm_up_ready)

end

lemma Warmup_None_ready: "Warmup ask now ch m = (None, m') \<Longrightarrow> Ready m'"
  by (auto simp: Warmup_def warmup_enter_def Ready_def doRefresh_eq Let_def warmup_reset_def warmup_wake_def
      split: if_splits option.splits prod.splits sum.splits)

interpretation real: upstream_interface Ready "\<lambda>now m. fst (ToolsList now m)"
    "\<lambda>now req m. fst (ToolsCall send now req m)" "Warmup ask wnow ch"
  for send :: "'c \<Rightarrow> ToolsCallRequest \<Rightarrow> 'e + ToolsCallResult" and ask wnow ch
proof
  fix s s' :: "'c realManager" and now req u
  show "Ready s \<Longrightarrow> \<exists>ts. fst (ToolsList now s) = (Inr ts :: 'e manager_error + Tool list)"
    by (auto simp: Ready_def ToolsList_ready)
  show "\<not> Ready s \<Longrightarrow> fst (ToolsList now s) = (Inl ErrNotReady :: 'e manager_error + Tool list)"
    by (simp add: Ready_def ToolsList_empty)
  show "Ready s \<Longrightarrow> fst (ToolsCall send now req s) \<noteq> Inl (ErrNotReady, u)"
    by (auto simp: Ready_def ToolsCall_ready split: option.splits sum.splits)
  show "\<not> Ready s \<Longrightarrow> fst (ToolsCall send now req s) = Inl (ErrNotReady, None)"
    by (simp add: Ready_def ToolsCall_empty)
  show "Warmup ask wnow ch s = (None, s') \<Longrightarrow> Ready s'"
    by (rule Warmup_None_ready)
qed

interpretation stub: upstream_interface "\<lambda>_ :: unit. stub_Ready" "\<lambda>now _. stub_ToolsList"
    "\<lambda>now req _. case stub_ToolsCall nilmap req of Inl err \<Rightarrow> Inl (err, None) | Inr r \<Rightarrow> Inr r" "\<lambda>s. (stub_Warmup, s)"
  for nilmap
  by unfold_locales (simp_all add: stub_Ready_def stub_ToolsList_def stub_ToolsCall_def stub_Warmup_def Let_def)

end
