(* ===== verification/GoJsonRead.thy ===== *)
theory GoJsonRead
  imports GoJson
begin

text \<open>
  What the program uses of \<open>encoding/json\<close> when it reads: the scanner and decoder for one JSON value,
  decoding into \<open>any\<close>, and the matching of object members with structure fields.  Numbers keep
  their text; decoding one into \<open>any\<close> means rounding it to a \<open>float64\<close>, which is the argument
  \<open>num\<close>: the text \<open>encoding/json\<close> later prints for the literal, \<open>None\<close> when it is out of range.
\<close>

text \<open>A member of an object keeps the text of its value, for fields of type \<open>json.RawMessage\<close>.\<close>

datatype json =
    JNull
  | JBool bool
  | JNumber string
  | JString string
  | JArray "json list"
  | JObject "(string \<times> string \<times> json) list"

section \<open>Numbers\<close>

definition is_ws :: "char \<Rightarrow> bool" where
  "is_ws c \<longleftrightarrow> c \<in> {CHR 0x20, CHR 0x09, CHR 0x0D, CHR 0x0A}"

definition skip :: "string \<Rightarrow> string" where
  "skip s = dropWhile is_ws s"

lemma length_skip: "length (skip s) \<le> length s"
  by (simp add: skip_def length_dropWhile_le)

definition span_digits :: "string \<Rightarrow> string \<times> string" where
  "span_digits s = (takeWhile is_digit s, dropWhile is_digit s)"

text \<open>The three parts of a number literal after the sign; each returns the text and the rest.\<close>

definition int_part :: "string \<Rightarrow> (string \<times> string) option" where
  "int_part s =
     (case s of
        [] \<Rightarrow> None
      | c # cs \<Rightarrow>
        if c = CHR ''0'' then Some (''0'', cs)
        else if is_digit c then Some (span_digits s)
        else None)"

definition frac_part :: "string \<Rightarrow> (string \<times> string) option" where
  "frac_part s =
     (case s of
        [] \<Rightarrow> Some ('''', [])
      | c # cs \<Rightarrow>
        if c = CHR ''.'' then (case span_digits cs of (ds, r) \<Rightarrow> if ds = '''' then None else Some (c # ds, r))
        else Some ('''', s))"

definition exp_part :: "string \<Rightarrow> (string \<times> string) option" where
  "exp_part s =
     (case s of
        [] \<Rightarrow> Some ('''', [])
      | c # cs \<Rightarrow>
        if c = CHR ''e'' \<or> c = CHR ''E'' then
          (let sg = takeWhile (\<lambda>d. d = CHR ''+'' \<or> d = CHR ''-'') (take 1 cs)
           in case span_digits (drop (length sg) cs) of (ds, r) \<Rightarrow>
                if ds = '''' then None else Some (c # sg @ ds, r))
        else Some ('''', s))"

definition parse_number :: "string \<Rightarrow> (string \<times> string) option" where
  "parse_number s =
     (let sg = (if take 1 s = ''-'' then ''-'' else '''') in
      case int_part (drop (length sg) s) of
        None \<Rightarrow> None
      | Some (a, s1) \<Rightarrow>
        (case frac_part s1 of
           None \<Rightarrow> None
         | Some (b, s2) \<Rightarrow>
           (case exp_part s2 of
              None \<Rightarrow> None
            | Some (c, s3) \<Rightarrow> Some (sg @ a @ b @ c, s3))))"

section \<open>Values\<close>

lemma prepend_eq_Some: "prepend p x = Some (t, r) \<longleftrightarrow> (\<exists>t'. x = Some (t', r) \<and> t = p @ t')"
  by (cases x) (auto simp: prepend_def)

lemma read_string_shorter: "read_string s = Some (t, r) \<Longrightarrow> length r < length s"
proof (induction s arbitrary: t r rule: length_induct)
  case (1 s)
  then have IH: "length s' < length s \<Longrightarrow> read_string s' = Some (t', r) \<Longrightarrow> length r < length s" for s' t' r
    by (meson less_trans)
  show ?case
  proof (cases s)
    case (Cons c cs)
    have short: "read_string (drop k cs) = Some (t', r) \<Longrightarrow> length r < length s" for k t' r
      by (rule IH [of "drop k cs"]) (simp_all add: Cons)
    note short0 = short [of 0, simplified]
    consider "c = dquote" | "c = bslash" "c \<noteq> dquote" | "c \<noteq> dquote" "c \<noteq> bslash" by blast
    then show ?thesis
    proof cases
      case 1
      then show ?thesis using "1.prems" Cons by simp
    next
      case 2
      then obtain e cs1 where cs: "cs = e # cs1" using "1.prems" Cons by (cases cs) auto
      have short1: "read_string (drop k cs1) = Some (t', r) \<Longrightarrow> length r < length s" for k t' r
        using short [of "Suc k"] by (simp add: cs)
      note short10 = short1 [of 0, simplified]
      show ?thesis
        using "1.prems" 2
        by (auto simp: Cons cs prepend_eq_Some split: if_splits option.splits prod.splits
            dest: short1 short10)
    next
      case 3
      then show ?thesis
        using "1.prems"
        by (auto simp: Cons prepend_eq_Some Let_def simp del: rune_size.simps split: if_splits
            dest: short short0)
    qed
  qed (use 1 in simp)
qed

text \<open>
  The recursive descent of the scanner.  \<open>d\<close> is the nesting still allowed (Go's limit is 10000).  The
  tests \<open>length r < length s\<close> only make the termination visible: \<open>parse_shorter\<close> below shows that
  they never fail.
\<close>

definition strip_word :: "string \<Rightarrow> json \<Rightarrow> string \<Rightarrow> (json \<times> string) option" where
  "strip_word w v s = map_option (Pair v) (CutPrefix s w)"

definition parse_atom :: "string \<Rightarrow> (json \<times> string) option" where
  "parse_atom s =
     (case s of
        [] \<Rightarrow> None
      | c # cs \<Rightarrow>
        if c = dquote then map_option (apfst JString) (read_string cs)
        else if c = CHR ''n'' then strip_word ''null'' JNull s
        else if c = CHR ''t'' then strip_word ''true'' (JBool True) s
        else if c = CHR ''f'' then strip_word ''false'' (JBool False) s
        else map_option (apfst JNumber) (parse_number s))"

text \<open>The key of a member and the text after its colon.\<close>

definition parse_key :: "string \<Rightarrow> (string \<times> string) option" where
  "parse_key s =
     (case s of
        [] \<Rightarrow> None
      | c # cs \<Rightarrow>
        if c \<noteq> dquote then None
        else (case read_string cs of
            None \<Rightarrow> None
          | Some (k, r) \<Rightarrow>
            (case skip r of
               [] \<Rightarrow> None
             | e # r1 \<Rightarrow> if e = CHR '':'' then Some (k, skip r1) else None)))"

lemma parse_key_shorter: "parse_key s = Some (k, r) \<Longrightarrow> length r < length s"
proof -
  assume "parse_key s = Some (k, r)"
  then obtain cs r0 r1 where "s = dquote # cs" "read_string cs = Some (k, r0)" "skip r0 = CHR '':'' # r1" "r = skip r1"
    by (auto simp: parse_key_def split: list.splits if_splits option.splits)
  then show ?thesis
    using read_string_shorter [of cs k r0] length_skip [of r0] length_skip [of r1] by simp
qed

definition parse_measure :: "(nat \<times> string) + (nat \<times> string) + (nat \<times> string) \<Rightarrow> nat" where
  "parse_measure x =
     (case x of Inl (d, s) \<Rightarrow> 2 * length s
      | Inr (Inl (d, s)) \<Rightarrow> 2 * length s + 1
      | Inr (Inr (d, s)) \<Rightarrow> 2 * length s + 1)"

lemma skip_Cons_shorter: "skip r = c # r1 \<Longrightarrow> length r < n \<Longrightarrow> length (skip r1) < n"
  using length_skip [of r] length_skip [of r1] by simp

lemma parse_key_rest_shorter:
  "parse_key s = Some (k, r0) \<Longrightarrow> skip r = c # r1 \<Longrightarrow> length r < length r0 \<Longrightarrow>
   Suc (2 * length (skip r1)) \<le> 2 * length s"
  using parse_key_shorter [of s k r0] skip_Cons_shorter [of r c r1 "length r0"] by linarith

function parse_value :: "nat \<Rightarrow> string \<Rightarrow> (json \<times> string) option"
  and parse_elems :: "nat \<Rightarrow> string \<Rightarrow> (json list \<times> string) option"
  and parse_members :: "nat \<Rightarrow> string \<Rightarrow> ((string \<times> string \<times> json) list \<times> string) option" where
  "parse_value d s =
     (case s of
        [] \<Rightarrow> None
      | c # cs \<Rightarrow>
        if c = CHR ''['' then
          (if d = 0 then None
           else if take 1 (skip cs) = '']'' then Some (JArray [], drop 1 (skip cs))
           else map_option (apfst JArray) (parse_elems (d - 1) (skip cs)))
        else if c = CHR 0x7B then
          (if d = 0 then None
           else if take 1 (skip cs) = [CHR 0x7D] then Some (JObject [], drop 1 (skip cs))
           else map_option (apfst JObject) (parse_members (d - 1) (skip cs)))
        else parse_atom s)"
| "parse_elems d s =
     (case parse_value d s of
        None \<Rightarrow> None
      | Some (v, r) \<Rightarrow>
        (case skip r of
           [] \<Rightarrow> None
         | c # r1 \<Rightarrow>
           if c = CHR '']'' then Some ([v], r1)
           else if c = CHR '','' \<and> length r < length s then
             map_option (apfst (Cons v)) (parse_elems d (skip r1))
           else None))"
| "parse_members d s =
     (case parse_key s of
        None \<Rightarrow> None
      | Some (k, r0) \<Rightarrow>
        (case parse_value d r0 of
           None \<Rightarrow> None
         | Some (v, r) \<Rightarrow>
           (let m = (k, take (length r0 - length r) r0, v)
            in case skip r of
                 [] \<Rightarrow> None
               | c # r1 \<Rightarrow>
                 if c = CHR 0x7D then Some ([m], r1)
                 else if c = CHR '','' \<and> length r < length r0 then
                   map_option (apfst (Cons m)) (parse_members d (skip r1))
                 else None)))"
  by pat_completeness auto

termination
  by (relation "measure parse_measure")
    (auto simp: parse_measure_def less_Suc_eq_le length_skip parse_key_rest_shorter
      dest: skip_Cons_shorter parse_key_shorter)

declare parse_value.simps [simp del] parse_elems.simps [simp del] parse_members.simps [simp del]

text \<open>\<open>json.Unmarshal\<close>: the whole text is one value, with white space around it.\<close>

definition max_nesting :: nat where "max_nesting = 10000"

definition parse_document :: "string \<Rightarrow> json option" where
  "parse_document s =
     (case parse_value max_nesting (skip s) of
        None \<Rightarrow> None
      | Some (v, r) \<Rightarrow> if skip r = '''' then Some v else None)"

section \<open>Decoding\<close>

text \<open>Into \<open>any\<close>: of two members with the same key the later one wins.\<close>

type_synonym num_fn = "string \<Rightarrow> string option"

fun to_any :: "num_fn \<Rightarrow> json \<Rightarrow> any option"
  and to_anys :: "num_fn \<Rightarrow> json list \<Rightarrow> any list option"
  and to_members :: "num_fn \<Rightarrow> (string \<times> any) list \<Rightarrow> (string \<times> string \<times> json) list \<Rightarrow> (string \<times> any) list option" where
  "to_any num JNull = Some ANil"
| "to_any num (JBool b) = Some (ABool b)"
| "to_any num (JNumber t) = map_option ANumber (num t)"
| "to_any num (JString t) = Some (AString t)"
| "to_any num (JArray vs) = map_option ASlice (to_anys num vs)"
| "to_any num (JObject ms) = map_option AMap (to_members num [] ms)"
| "to_anys num [] = Some []"
| "to_anys num (v # vs) =
     (case to_any num v of
        None \<Rightarrow> None
      | Some a \<Rightarrow> map_option (Cons a) (to_anys num vs))"
| "to_members num acc [] = Some acc"
| "to_members num acc ((k, raw, v) # ms) =
     (case to_any num v of
        None \<Rightarrow> None
      | Some a \<Rightarrow> to_members num (AList.update k a acc) ms)"

text \<open>
  Structure fields match a key exactly or after folding the case; the long s and the Kelvin sign
  fold to ASCII letters.
\<close>

fun fold_name :: "string \<Rightarrow> string" where
  "fold_name [] = []"
| "fold_name (c # s) =
     (if c = CHR 0xC5 \<and> take 1 s = [CHR 0xBF] then CHR ''S'' # fold_name (drop 1 s)
      else if c = CHR 0xE2 \<and> take 2 s = [CHR 0x84, CHR 0xAA] then CHR ''K'' # fold_name (drop 2 s)
      else if CHR ''a'' \<le> c \<and> c \<le> CHR ''z'' then char_of (byte c - 32) # fold_name s
      else c # fold_name s)"

definition field_matches :: "string \<Rightarrow> string \<Rightarrow> bool" where
  "field_matches field key \<longleftrightarrow> key = field \<or> fold_name key = fold_name field"

text \<open>A field of type \<open>string\<close>: \<open>null\<close> leaves it, another type is an error.\<close>

definition into_string :: "json \<Rightarrow> string \<Rightarrow> string option" where
  "into_string v old = (case v of JString t \<Rightarrow> Some t | JNull \<Rightarrow> Some old | _ \<Rightarrow> None)"

text \<open>A field of type \<open>map[string]any\<close>: an object is merged into the map, \<open>null\<close> clears it.\<close>

definition into_map :: "num_fn \<Rightarrow> json \<Rightarrow> (string \<times> any) list \<Rightarrow> (string \<times> any) list option" where
  "into_map num v old =
     (case v of JObject ms \<Rightarrow> to_members num old ms | JNull \<Rightarrow> Some [] | _ \<Rightarrow> None)"

fun into_Request :: "(string \<times> string \<times> json) list \<Rightarrow> Request \<Rightarrow> Request option" where
  "into_Request [] q = Some q"
| "into_Request ((k, raw, v) # ms) q =
     (if field_matches ''jsonrpc'' k then
        (case into_string v (req_JSONRPC q) of
           None \<Rightarrow> None | Some t \<Rightarrow> into_Request ms (q\<lparr>req_JSONRPC := t\<rparr>))
      else if field_matches ''id'' k then into_Request ms (q\<lparr>req_ID := Some raw\<rparr>)
      else if field_matches ''method'' k then
        (case into_string v (req_Method q) of
           None \<Rightarrow> None | Some t \<Rightarrow> into_Request ms (q\<lparr>req_Method := t\<rparr>))
      else if field_matches ''params'' k then into_Request ms (q\<lparr>req_Params := Some raw\<rparr>)
      else into_Request ms q)"

definition decode_Request :: "json \<Rightarrow> Request option" where
  "decode_Request v =
     (case v of
        JObject ms \<Rightarrow> into_Request ms \<lparr>req_JSONRPC = '''', req_ID = None, req_Method = '''', req_Params = None\<rparr>
      | JNull \<Rightarrow> Some \<lparr>req_JSONRPC = '''', req_ID = None, req_Method = '''', req_Params = None\<rparr>
      | _ \<Rightarrow> None)"

fun into_ToolsCallRequest ::
  "num_fn \<Rightarrow> (string \<times> string \<times> json) list \<Rightarrow> ToolsCallRequest \<Rightarrow> ToolsCallRequest option" where
  "into_ToolsCallRequest num [] q = Some q"
| "into_ToolsCallRequest num ((k, raw, v) # ms) q =
     (if field_matches ''name'' k then
        (case into_string v (call_Name q) of
           None \<Rightarrow> None | Some t \<Rightarrow> into_ToolsCallRequest num ms (q\<lparr>call_Name := t\<rparr>))
      else if field_matches ''arguments'' k then
        (case into_map num v (call_Arguments q) of
           None \<Rightarrow> None | Some m \<Rightarrow> into_ToolsCallRequest num ms (q\<lparr>call_Arguments := m\<rparr>))
      else into_ToolsCallRequest num ms q)"

definition decode_ToolsCallRequest :: "num_fn \<Rightarrow> json \<Rightarrow> ToolsCallRequest option" where
  "decode_ToolsCallRequest num v =
     (case v of
        JObject ms \<Rightarrow> into_ToolsCallRequest num ms \<lparr>call_Name = '''', call_Arguments = []\<rparr>
      | JNull \<Rightarrow> Some \<lparr>call_Name = '''', call_Arguments = []\<rparr>
      | _ \<Rightarrow> None)"

text \<open>Every value consumes at least one character.\<close>

lemma parse_number_shorter: "parse_number s = Some (t, r) \<Longrightarrow> length r < length s"
proof -
  have i: "int_part s = Some (a, r) \<Longrightarrow> length r < length s" for s a r
    by (auto simp: int_part_def span_digits_def length_dropWhile_le le_imp_less_Suc split: list.splits if_splits)
  have f: "frac_part s = Some (a, r) \<Longrightarrow> length r \<le> length s" for s a r
    by (auto simp: frac_part_def span_digits_def length_dropWhile_le le_SucI split: list.splits if_splits)
  have e: "exp_part s = Some (a, r) \<Longrightarrow> length r \<le> length s" for s a r
  proof -
    have w: "length (dropWhile P (drop n cs)) \<le> length cs" for P n and cs :: string
      using length_dropWhile_le [of P "drop n cs"] by simp
    show "exp_part s = Some (a, r) \<Longrightarrow> length r \<le> length s"
      by (auto simp: exp_part_def span_digits_def Let_def w le_SucI split: list.splits if_splits)
  qed
  show "parse_number s = Some (t, r) \<Longrightarrow> length r < length s"
    by (auto simp: parse_number_def Let_def split: option.splits if_splits dest!: i f e) linarith
qed

lemma parse_atom_shorter: "parse_atom s = Some (v, r) \<Longrightarrow> length r < length s"
  by (auto simp: parse_atom_def strip_word_def CutPrefix_Some_iff split: list.splits if_splits
      dest!: read_string_shorter parse_number_shorter)

lemma skip_not_longer: "skip r = c # r1 \<Longrightarrow> length r \<le> n \<Longrightarrow> length r1 < n"
  using length_skip [of r] by simp

lemma parse_shorter:
  "parse_value d s = Some (v, r) \<Longrightarrow> length r < length s"
  "parse_elems d s = Some (vs, r) \<Longrightarrow> length r < length s"
  "parse_members d s = Some (ms, r) \<Longrightarrow> length r < length s"
proof (induction d s and d s and d s arbitrary: v r and vs r and ms r
    rule: parse_value_parse_elems_parse_members.induct)
  case (1 d s)
  obtain c cs where s: "s = c # cs" using 1(3) by (cases s) (auto simp: parse_value.simps)
  have sk: "length (skip cs) < length s" using length_skip [of cs] by (simp add: s)
  note u = 1(3) [unfolded s parse_value.simps [of d "c # cs"]]
  consider "c = CHR ''[''" "take 1 (skip cs) = '']''" | "c = CHR ''[''" "take 1 (skip cs) \<noteq> '']''"
    | "c = CHR 0x7B" "take 1 (skip cs) = [CHR 0x7D]" | "c = CHR 0x7B" "take 1 (skip cs) \<noteq> [CHR 0x7D]"
    | "c \<noteq> CHR ''[''" "c \<noteq> CHR 0x7B" by blast
  then show ?case
  proof cases
    case 2
    then have "d \<noteq> 0" using u by (auto split: if_splits)
    with 2 obtain vs where "parse_elems (d - 1) (skip cs) = Some (vs, r)"
      using u by (auto split: if_splits)
    from 1(1) [OF s 2(1) \<open>d \<noteq> 0\<close> 2(2) this] show ?thesis using sk by simp
  next
    case 4
    then have "d \<noteq> 0" using u by (auto split: if_splits)
    with 4 obtain ms where "parse_members (d - 1) (skip cs) = Some (ms, r)"
      using u by (auto split: if_splits)
    from 1(2) [OF s _ 4(1) \<open>d \<noteq> 0\<close> 4(2) this] show ?thesis using sk 4(1) by simp
  qed (use u sk parse_atom_shorter [of s] in \<open>auto simp: s split: if_splits\<close>)
next
  case (2 d s)
  obtain v r0 c r1 where v: "parse_value d s = Some (v, r0)" and r0: "skip r0 = c # r1"
    using 2(3) by (auto simp: parse_elems.simps [of d s] split: option.splits list.splits)
  have l: "length r0 < length s" using 2(1) [OF v] .
  show ?case
  proof (cases "c = CHR '']''")
    case True
    then show ?thesis using 2(3) v r0 l length_skip [of r0] by (auto simp: parse_elems.simps [of d s])
  next
    case False
    with 2(3) v r0 obtain vs' where "c = CHR '',''" and vs': "parse_elems d (skip r1) = Some (vs', r)"
      by (auto simp: parse_elems.simps [of d s] split: if_splits)
    with 2(2) [OF v refl r0 False _ vs'] l have "length r < length (skip r1)" by simp
    then show ?thesis using skip_Cons_shorter [OF r0 l] by simp
  qed
next
  case (3 d s)
  obtain k r00 v r0 c r1 where k: "parse_key s = Some (k, r00)" and v: "parse_value d r00 = Some (v, r0)"
    and r0: "skip r0 = c # r1"
    using 3(3) by (auto simp: parse_members.simps [of d s] Let_def split: option.splits list.splits)
  have l: "length r0 < length r00" using 3(1) [OF k refl v] .
  have ls: "length r00 < length s" using parse_key_shorter [OF k] .
  show ?case
  proof (cases "c = CHR 0x7D")
    case True
    then show ?thesis using 3(3) k v r0 l ls length_skip [of r0] by (auto simp: parse_members.simps [of d s] Let_def)
  next
    case False
    with 3(3) k v r0 obtain ms' where "c = CHR '',''" and ms': "parse_members d (skip r1) = Some (ms', r)"
      by (auto simp: parse_members.simps [of d s] Let_def split: if_splits)
    with 3(2) [OF k refl v refl refl r0 False _ ms'] l have "length r < length (skip r1)" by simp
    then show ?thesis using skip_Cons_shorter [OF r0 l] ls by simp
  qed
qed

end
