(* ===== verification/GoJsonRound.thy ===== *)
theory GoJsonRound
  imports GoJsonRead
begin

text \<open>
  The encoder of \<open>GoJson\<close> and the decoder of \<open>GoJsonRead\<close> are inverse to each other.  \<open>parses d t v\<close>
  says that the scanner, at nesting depth \<open>d\<close>, reads exactly the value \<open>v\<close> from the text \<open>t\<close>, whatever
  delimiter follows it.
\<close>

definition stops :: "string \<Rightarrow> bool" where
  "stops r \<longleftrightarrow> r = '''' \<or> hd r \<in> {CHR '','', CHR '']'', CHR 0x7D, CHR 0x0A}"

definition parses :: "nat \<Rightarrow> string \<Rightarrow> json \<Rightarrow> bool" where
  "parses d t v \<longleftrightarrow> t \<noteq> '''' \<and> \<not> is_ws (hd t) \<and> (\<forall>r. stops r \<longrightarrow> parse_value d (t @ r) = Some (v, r))"

lemma parses_value: "parses d t v \<Longrightarrow> stops r \<Longrightarrow> parse_value d (t @ r) = Some (v, r)"
  by (simp add: parses_def)

lemma stops_simps [simp]:
  "stops ''''" "stops (CHR '','' # r)" "stops (CHR '']'' # r)" "stops (CHR 0x7D # r)" "stops (CHR 0x0A # r)"
  by (simp_all add: stops_def)

lemma skip_nows [simp]: "t \<noteq> '''' \<Longrightarrow> \<not> is_ws (hd t) \<Longrightarrow> skip (t @ r) = t @ r"
  by (cases t) (simp_all add: skip_def)

lemma skip_delims [simp]:
  "skip (CHR '','' # r) = CHR '','' # r" "skip (CHR '']'' # r) = CHR '']'' # r"
  "skip (CHR 0x7D # r) = CHR 0x7D # r" "skip (CHR '':'' # r) = CHR '':'' # r" "skip '''' = ''''"
  by (simp_all add: skip_def is_ws_def)

lemma skip_parses [simp]: "parses d t v \<Longrightarrow> skip (t @ r) = t @ r"
  by (simp add: parses_def)

lemma parses_document: "parses max_nesting t v \<Longrightarrow> parse_document t = Some v"
  using parses_value [of max_nesting t v "''''"] skip_parses [of max_nesting t v "''''"]
  by (simp add: parse_document_def)

section \<open>Atoms\<close>

lemma dquote_simps [simp]: "dquote \<noteq> CHR ''[''" "dquote \<noteq> CHR 0x7B" "\<not> is_ws dquote"
  by (simp_all add: dquote_def is_ws_def)

lemma quote_append: "quote s @ r = dquote # escape s @ dquote # r"
  by (simp add: quote_def)

lemma parses_string: "valid_utf8 s \<Longrightarrow> parses d (quote s) (JString s)"
  unfolding parses_def quote_append
  by (simp add: quote_def parse_value.simps [of d "dquote # _"] parse_atom_def read_string_escape)

lemma parses_word:
  "parses d ''null'' JNull" "parses d ''true'' (JBool True)" "parses d ''false'' (JBool False)"
  by (simp_all add: parses_def is_ws_def parse_value.simps parse_atom_def strip_word_def dquote_def)

lemma parses_number:
  assumes "parse_number t = Some (t, '''')" and "\<And>r. stops r \<Longrightarrow> parse_number (t @ r) = Some (t, r)"
    and "t \<noteq> ''''" and "hd t = CHR ''-'' \<or> is_digit (hd t)"
  shows "parses d t (JNumber t)"
proof -
  obtain c cs where t: "t = c # cs" using assms(3) by (cases t) auto
  have "c \<noteq> dquote" "c \<noteq> CHR ''n''" "c \<noteq> CHR ''t''" "c \<noteq> CHR ''f''" "c \<noteq> CHR ''[''" "c \<noteq> CHR 0x7B" "\<not> is_ws c"
    using assms(4) by (auto simp: t is_digit_def dquote_def is_ws_def less_eq_char_def)
  then show ?thesis
    using assms(2) by (simp add: parses_def t parse_value.simps [of d "c # _"] parse_atom_def)
qed

text \<open>Texts the encoder writes as they are.\<close>

definition plain :: "char \<Rightarrow> bool" where
  "plain c \<longleftrightarrow> byte c < 128 \<and> escape_ascii c = [c]"

lemma quote_plain: "list_all plain s \<Longrightarrow> quote s = dquote # s @ [dquote]"
proof -
  have "list_all plain s \<Longrightarrow> escape s = s"
    by (induction s) (simp_all add: plain_def)
  then show "list_all plain s \<Longrightarrow> quote s = dquote # s @ [dquote]" by (simp add: quote_def)
qed

lemma plain_words: "list_all plain ''jsonrpc''" "list_all plain ''id''" "list_all plain ''result''" "list_all plain ''2.0''"
  by (simp_all add: plain_def escape_ascii_def short_escape_def dquote_def bslash_def)

section \<open>Arrays and objects\<close>

lemma parse_key_quote:
  assumes "valid_utf8 k" and "parses d t v"
  shows "parse_key (quote k @ CHR '':'' # t @ r) = Some (k, t @ r)"
  unfolding quote_append using assms by (simp add: parse_key_def read_string_escape)

lemma parse_elems_print:
  assumes "list_all2 (parses d) ts vs" and "ts \<noteq> []"
  shows "parse_elems d (intercalate '','' ts @ CHR '']'' # r) = Some (vs, r)"
  using assms
proof (induction ts vs rule: list_all2_induct)
  case (Cons t ts v vs)
  show ?case
  proof (cases ts)
    case Nil
    then show ?thesis
      using Cons.hyps parses_value [OF Cons.hyps(1), of "CHR '']'' # r"] by (simp add: parse_elems.simps)
  next
    case ts: (Cons t' ts')
    then obtain v' vs' where vs: "parses d t' v'" "vs = v' # vs'" using Cons.hyps(2) by (auto simp: list_all2_Cons1)
    let ?rest = "intercalate '','' ts @ CHR '']'' # r"
    have hd: "?rest \<noteq> ''''" "\<not> is_ws (hd ?rest)"
      using vs(1) by (auto simp: ts parses_def neq_Nil_conv hd_append elim!: intercalate.elims)
    have "skip ?rest = ?rest" using skip_nows [OF hd, of "''''"] by simp
    moreover have "parse_value d (t @ CHR '','' # ?rest) = Some (v, CHR '','' # ?rest)"
      by (rule parses_value [OF Cons.hyps(1)]) simp
    moreover have "t \<noteq> ''''" using Cons.hyps(1) by (simp add: parses_def)
    ultimately show ?thesis
      using Cons.IH ts by (simp add: parse_elems.simps [of d "t @ _"])
  qed
qed simp

lemma json_member_pair: "json_member (k, t) = quote k @ CHR '':'' # t"
  by (simp add: json_member_def)

lemma parse_members_print:
  assumes "list_all2 (\<lambda>(k, t) v. valid_utf8 k \<and> parses d t v) kvs vs" and "kvs \<noteq> []"
  shows "parse_members d (intercalate '','' (map json_member kvs) @ CHR 0x7D # r) =
    Some (map2 (\<lambda>(k, t) v. (k, t, v)) kvs vs, r)"
  using assms
proof (induction kvs vs rule: list_all2_induct)
  case (Cons kt kvs v vs)
  obtain k t where kt: "kt = (k, t)" by fastforce
  have k: "valid_utf8 k" and t: "parses d t v" using Cons.hyps(1) by (simp_all add: kt)
  show ?case
  proof (cases kvs)
    case Nil
    then show ?thesis
      using Cons.hyps parse_key_quote [OF k t, of "CHR 0x7D # r"] parses_value [OF t, of "CHR 0x7D # r"]
      by (simp add: parse_members.simps kt json_member_pair Let_def)
  next
    case kvs: (Cons kt' kvs')
    let ?rest = "intercalate '','' (map json_member kvs) @ CHR 0x7D # r"
    have "\<exists>u. ?rest = dquote # u"
      by (cases kvs') (simp_all add: kvs json_member_def quote_append)
    then have "skip ?rest = ?rest" by (auto simp: skip_def)
    moreover have "parse_key (quote k @ CHR '':'' # t @ CHR '','' # ?rest) = Some (k, t @ CHR '','' # ?rest)"
      by (rule parse_key_quote [OF k t])
    moreover have "parse_value d (t @ CHR '','' # ?rest) = Some (v, CHR '','' # ?rest)"
      by (rule parses_value [OF t]) simp
    moreover have "t \<noteq> ''''" using t by (simp add: parses_def)
    ultimately show ?thesis
      using Cons.IH kvs by (simp add: parse_members.simps [of d "quote k @ _"] kt json_member_pair Let_def)
  qed
qed simp

lemma hd_intercalate:
  "t \<noteq> '''' \<Longrightarrow> intercalate sep (t # ts) \<noteq> '''' \<and> hd (intercalate sep (t # ts)) = hd t"
  by (cases ts) simp_all

lemma parses_hd: "parses d t v \<Longrightarrow> t \<noteq> '''' \<and> \<not> is_ws (hd t) \<and> hd t \<noteq> CHR '']'' \<and> hd t \<noteq> CHR 0x7D"
proof -
  assume p: "parses d t v"
  then obtain c cs where t: "t = c # cs" by (cases t) (auto simp: parses_def)
  have "parse_value d (c # cs) = Some (v, '''')" using parses_value [OF p, of "''''"] by (simp add: t)
  moreover have "int_part (CHR '']'' # cs) = None" "int_part (CHR 0x7D # cs) = None"
    by (simp_all add: int_part_def is_digit_def)
  then have "parse_atom (CHR '']'' # cs) = None" "parse_atom (CHR 0x7D # cs) = None"
    by (simp_all add: parse_atom_def parse_number_def dquote_def)
  then have "parse_value d (CHR '']'' # cs) = None" "parse_value d (CHR 0x7D # cs) = None"
    by (simp_all add: parse_value.simps [of d "_ # cs"])
  ultimately show ?thesis using p by (auto simp: t parses_def)
qed

lemma parses_array:
  assumes "list_all2 (parses d) ts vs"
  shows "parses (Suc d) (json_array ts) (JArray vs)"
proof (cases ts)
  case Nil
  then show ?thesis using assms
    by (simp add: parses_def json_array_def is_ws_def parse_value.simps [of "Suc d" "CHR ''['' # _"])
next
  case (Cons t ts')
  then obtain v where "parses d t v" using assms by (auto simp: list_all2_Cons1)
  note hd = parses_hd [OF this]
  define body where "body = intercalate '','' ts"
  have b: "body \<noteq> ''''" "hd body = hd t"
    using hd_intercalate [of t "'',''" ts'] hd by (simp_all add: body_def Cons)
  have e: "parse_elems d (body @ CHR '']'' # r) = Some (vs, r)" for r
    using parse_elems_print [OF assms] by (simp add: body_def Cons)
  have "skip (body @ r) = body @ r" and "take 1 (body @ r) \<noteq> '']''" for r
    using b hd by (simp_all, cases body) auto
  then show ?thesis
    using e by (simp add: parses_def json_array_def body_def [symmetric] is_ws_def parse_value.simps [of "Suc d" "CHR ''['' # _"])
qed

lemma parses_object:
  assumes "list_all2 (\<lambda>(k, t) v. valid_utf8 k \<and> parses d t v) kvs vs"
  shows "parses (Suc d) (json_object kvs) (JObject (map2 (\<lambda>(k, t) v. (k, t, v)) kvs vs))"
proof (cases kvs)
  case Nil
  then show ?thesis using assms
    by (simp add: parses_def json_object_def is_ws_def parse_value.simps [of "Suc d" "CHR 0x7B # _"])
next
  case (Cons kt kvs')
  define body where "body = intercalate '','' (map json_member kvs)"
  obtain c cs where b: "body = c # cs" "c = dquote"
    using hd_intercalate [of "json_member kt" "'',''" "map json_member kvs'"]
    by (cases body) (auto simp: body_def Cons json_member_def quote_append)
  have e: "parse_members d (body @ CHR 0x7D # r) = Some (map2 (\<lambda>(k, t) v. (k, t, v)) kvs vs, r)" for r
    using parse_members_print [OF assms] by (simp add: body_def Cons)
  have "skip (body @ r) = body @ r" and "take 1 (body @ r) \<noteq> [CHR 0x7D]" for r
    by (simp_all add: b skip_def dquote_def is_ws_def)
  then show ?thesis
    using e by (simp add: parses_def json_object_def body_def [symmetric] is_ws_def parse_value.simps [of "Suc d" "CHR 0x7B # _"])
qed

section \<open>Numbers\<close>

text \<open>A text that is one whole number literal is read as such before any delimiter.\<close>

definition number_text :: "string \<Rightarrow> bool" where
  "number_text t \<longleftrightarrow> parse_number t = Some (t, '''')"

definition no_digit :: "string \<Rightarrow> bool" where
  "no_digit r \<longleftrightarrow> r = '''' \<or> \<not> is_digit (hd r)"

lemma span_digits_append:
  "no_digit r \<Longrightarrow> span_digits s = (ds, s1) \<Longrightarrow> span_digits (s @ r) = (ds, s1 @ r)"
proof (induction s arbitrary: ds)
  case Nil
  then show ?case by (cases r) (auto simp: span_digits_def no_digit_def)
qed (auto simp: span_digits_def split: if_splits)

lemma int_part_append: "no_digit r \<Longrightarrow> int_part s = Some (a, s1) \<Longrightarrow> int_part (s @ r) = Some (a, s1 @ r)"
  using span_digits_append [of r s a s1] by (auto simp: int_part_def split: list.splits if_splits)

definition stops_number :: "string \<Rightarrow> bool" where
  "stops_number r \<longleftrightarrow> r = '''' \<or> \<not> is_digit (hd r) \<and> hd r \<noteq> CHR ''.'' \<and> hd r \<noteq> CHR ''e'' \<and> hd r \<noteq> CHR ''E''"

lemma frac_part_append:
  assumes "stops_number r" and "frac_part s = Some (a, s1)"
  shows "frac_part (s @ r) = Some (a, s1 @ r)"
proof (cases s)
  case Nil
  then show ?thesis using assms by (cases r) (auto simp: frac_part_def stops_number_def)
next
  case (Cons c cs)
  have "no_digit r" using assms(1) by (auto simp: stops_number_def no_digit_def)
  then show ?thesis
    using assms(2) span_digits_append [of r cs "fst (span_digits cs)" "snd (span_digits cs)"]
    by (auto simp: frac_part_def Cons split: if_splits prod.splits)
qed

lemma exp_part_append:
  assumes "stops_number r" and "exp_part s = Some (a, s1)"
  shows "exp_part (s @ r) = Some (a, s1 @ r)"
proof (cases s)
  case Nil
  then show ?thesis using assms by (cases r) (auto simp: exp_part_def stops_number_def)
next
  case (Cons c cs)
  have nd: "no_digit r" using assms(1) by (auto simp: stops_number_def no_digit_def)
  show ?thesis
  proof (cases "c = CHR ''e'' \<or> c = CHR ''E''")
    case False
    then show ?thesis using assms(2) by (auto simp: exp_part_def Cons)
  next
    case True
    let ?sg = "takeWhile (\<lambda>d. d = CHR ''+'' \<or> d = CHR ''-'') (take 1 cs)"
    have ne: "cs \<noteq> []" using assms(2) True by (auto simp: exp_part_def Cons span_digits_def)
    then have sg: "takeWhile (\<lambda>d. d = CHR ''+'' \<or> d = CHR ''-'') (take 1 (cs @ r)) = ?sg" and len: "length ?sg \<le> length cs"
      by (cases cs; simp)+
    show ?thesis
      using assms(2) True sg len
        span_digits_append [OF nd, of "drop (length ?sg) cs" "fst (span_digits (drop (length ?sg) cs))"
          "snd (span_digits (drop (length ?sg) cs))"]
      by (auto simp: exp_part_def Cons Let_def split: if_splits prod.splits)
  qed
qed

lemma number_text_append:
  assumes "number_text t" and "stops r"
  shows "parse_number (t @ r) = Some (t, r)"
proof -
  let ?sg = "if take 1 t = ''-'' then ''-'' else ''''"
  obtain a s1 b s2 c where p: "int_part (drop (length ?sg) t) = Some (a, s1)" "frac_part s1 = Some (b, s2)"
    "exp_part s2 = Some (c, '''')" "t = ?sg @ a @ b @ c"
    using assms(1) by (auto simp: number_text_def parse_number_def Let_def split: option.splits if_splits)
  have r: "stops_number r" "no_digit r"
    using assms(2) by (auto simp: stops_def stops_number_def no_digit_def is_digit_def)
  have "t \<noteq> ''''" using p(1) by (auto simp: int_part_def split: list.splits)
  then have t1: "take 1 (t @ r) = take 1 t" by (cases t) simp_all
  have "drop (length ?sg) (t @ r) = drop (length ?sg) t @ r" using \<open>t \<noteq> ''''\<close> by (cases t) auto
  then show ?thesis
    using int_part_append [OF r(2) p(1)] frac_part_append [OF r(1) p(2)] exp_part_append [OF r(1) p(3)] p(4)
    unfolding parse_number_def t1 by (simp add: Let_def)
qed

lemma number_text_hd:
  "number_text t \<Longrightarrow> t \<noteq> '''' \<and> (hd t = CHR ''-'' \<or> is_digit (hd t))"
  by (auto simp: number_text_def parse_number_def Let_def int_part_def is_digit_def
      split: option.splits list.splits if_splits)

lemma parses_number_text: "number_text t \<Longrightarrow> parses d t (JNumber t)"
  using number_text_hd [of t] number_text_append [of t]
  by (intro parses_number) (auto simp: number_text_def)

lemma digit_char_eq: "digit_char c = is_digit c"
  by (cases "CHR ''0'' \<le> c") (auto simp: digit_char_def is_digit_def less_eq_char_def)

lemma number_text_show_nat: "int_part (show_nat n) = Some (show_nat n, '''')"
proof -
  have d: "list_all is_digit (show_nat n)"
    using show_nat_digits [of n] by (simp add: digit_char_eq [abs_def])
  have zero: "hd (show_nat n) = CHR ''0'' \<Longrightarrow> show_nat n = ''0''"
  proof (induction n rule: show_nat.induct)
    case (1 n)
    show ?case
    proof (cases "n < 10")
      case True
      then show ?thesis using 1(2) by (subst (asm) show_nat.simps, subst show_nat.simps) simp
    next
      case False
      then have "show_nat (n div 10) = ''0''"
        using 1 show_nat_nonempty [of "n div 10"] by (subst (asm) (3) show_nat.simps) simp
      then have "dec_value (show_nat (n div 10)) = 0" by (simp add: dec_value_def)
      then show ?thesis using False by simp
    qed
  qed
  obtain c cs where s: "show_nat n = c # cs" using show_nat_nonempty [of n] by (cases "show_nat n") auto
  show ?thesis
  proof (cases "c = CHR ''0''")
    case True
    then have "cs = ''''" using zero by (simp add: s)
    then show ?thesis by (simp add: s True int_part_def)
  next
    case False
    then show ?thesis using d
      by (auto simp: s int_part_def span_digits_def takeWhile_eq_all_conv list_all_iff)
  qed
qed

lemma number_text_show_int [simp]: "number_text (show_int i)"
proof -
  have rest: "frac_part '''' = Some ('''', '''')" "exp_part '''' = Some ('''', '''')"
    by (simp_all add: frac_part_def exp_part_def)
  have d: "list_all is_digit (show_nat n)" for n
    using show_nat_digits [of n] by (simp add: digit_char_eq [abs_def])
  have nm: "take 1 (show_nat n) \<noteq> ''-''" for n
    using d [of n] show_nat_nonempty [of n] by (cases "show_nat n") (auto simp: is_digit_def less_eq_char_def)
  then show ?thesis
    by (simp add: number_text_def show_int_def parse_number_def number_text_show_nat rest nm [simplified] Let_def)
qed

section \<open>Values of type any\<close>

text \<open>The value the encoder's text stands for, its nesting depth, and when it can be written.\<close>

primrec json_of :: "any \<Rightarrow> json" and
  json_list :: "any list \<Rightarrow> json list" and
  json_pairs :: "(string \<times> any) list \<Rightarrow> (string \<times> string \<times> json) list" and
  json_pair :: "string \<times> any \<Rightarrow> string \<times> string \<times> json" where
  "json_of ANil = JNull"
| "json_of (ABool b) = JBool b"
| "json_of (ANumber t) = JNumber t"
| "json_of (AString s) = JString s"
| "json_of (ASlice xs) = JArray (json_list xs)"
| "json_of (AMap m) = JObject (sort_key fst (json_pairs m))"
| "json_list [] = []"
| "json_list (x # xs) = json_of x # json_list xs"
| "json_pairs [] = []"
| "json_pairs (p # ps) = json_pair p # json_pairs ps"
| "json_pair (k, v) = (k, marshal_any v, json_of v)"

primrec depth :: "any \<Rightarrow> nat" and
  depth_list :: "any list \<Rightarrow> nat" and
  depth_pairs :: "(string \<times> any) list \<Rightarrow> nat" and
  depth_pair :: "string \<times> any \<Rightarrow> nat" where
  "depth ANil = 0"
| "depth (ABool b) = 0"
| "depth (ANumber t) = 0"
| "depth (AString s) = 0"
| "depth (ASlice xs) = Suc (depth_list xs)"
| "depth (AMap m) = Suc (depth_pairs m)"
| "depth_list [] = 0"
| "depth_list (x # xs) = max (depth x) (depth_list xs)"
| "depth_pairs [] = 0"
| "depth_pairs (p # ps) = max (depth_pair p) (depth_pairs ps)"
| "depth_pair (k, v) = depth v"

text \<open>The numbers are the texts the encoder prints for a \<open>float64\<close>: reading one gives it back.\<close>

primrec any_ok :: "num_fn \<Rightarrow> any \<Rightarrow> bool" and
  list_ok :: "num_fn \<Rightarrow> any list \<Rightarrow> bool" and
  pairs_ok :: "num_fn \<Rightarrow> (string \<times> any) list \<Rightarrow> bool" and
  pair_ok :: "num_fn \<Rightarrow> string \<times> any \<Rightarrow> bool" where
  "any_ok num ANil = True"
| "any_ok num (ABool b) = True"
| "any_ok num (ANumber t) = (number_text t \<and> num t = Some t)"
| "any_ok num (AString s) = valid_utf8 s"
| "any_ok num (ASlice xs) = list_ok num xs"
| "any_ok num (AMap m) = (is_map m \<and> pairs_ok num m)"
| "list_ok num [] = True"
| "list_ok num (x # xs) = (any_ok num x \<and> list_ok num xs)"
| "pairs_ok num [] = True"
| "pairs_ok num (p # ps) = (pair_ok num p \<and> pairs_ok num ps)"
| "pair_ok num (k, v) = (valid_utf8 k \<and> any_ok num v)"

text \<open>The same value with every map in key order.\<close>

primrec canon :: "any \<Rightarrow> any" and
  canon_list :: "any list \<Rightarrow> any list" and
  canon_pairs :: "(string \<times> any) list \<Rightarrow> (string \<times> any) list" and
  canon_pair :: "string \<times> any \<Rightarrow> string \<times> any" where
  "canon ANil = ANil"
| "canon (ABool b) = ABool b"
| "canon (ANumber t) = ANumber t"
| "canon (AString s) = AString s"
| "canon (ASlice xs) = ASlice (canon_list xs)"
| "canon (AMap m) = AMap (sort_key fst (canon_pairs m))"
| "canon_list [] = []"
| "canon_list (x # xs) = canon x # canon_list xs"
| "canon_pairs [] = []"
| "canon_pairs (p # ps) = canon_pair p # canon_pairs ps"
| "canon_pair (k, v) = (k, canon v)"

lemma pairs_maps:
  "json_pairs m = map (\<lambda>kv. (fst kv, marshal_any (snd kv), json_of (snd kv))) m"
  "canon_pairs m = map (\<lambda>kv. (fst kv, canon (snd kv))) m"
  "pairs_ok num m = list_all (\<lambda>kv. valid_utf8 (fst kv) \<and> any_ok num (snd kv)) m"
  by (induction m) auto

lemma list_maps:
  "json_list xs = map json_of xs" "canon_list xs = map canon xs" "list_ok num xs = list_all (any_ok num) xs"
  "marshal_list xs = map marshal_any xs"
  by (induction xs) auto

lemma depth_list_le: "depth_list xs \<le> d \<longleftrightarrow> (\<forall>x \<in> set xs. depth x \<le> d)"
  by (induction xs) auto

lemma depth_pairs_le: "depth_pairs m \<le> d \<longleftrightarrow> (\<forall>kv \<in> set m. depth (snd kv) \<le> d)"
  by (induction m) auto

lemma parses_any: "any_ok num a \<Longrightarrow> depth a \<le> d \<Longrightarrow> parses d (marshal_any a) (json_of a)"
proof (induction a arbitrary: d)
  case (ASlice xs)
  then obtain d' where d: "d = Suc d'" by (cases d) auto
  have "list_all2 (parses d') (marshal_list xs) (json_list xs)"
    unfolding list_maps by (rule list_all2I) (use ASlice d in \<open>auto simp: list_maps depth_list_le list_all_iff set_zip\<close>)
  then show ?case by (simp add: d parses_array)
next
  case (AMap m)
  then obtain d' where d: "d = Suc d'" by (cases d) auto
  define s where "s = sort_key fst m"
  have s: "set s = set m" by (simp add: s_def)
  have p: "sort_key fst (marshal_pairs m) = map (\<lambda>kv. (fst kv, marshal_any (snd kv))) s"
    "sort_key fst (json_pairs m) = map (\<lambda>kv. (fst kv, marshal_any (snd kv), json_of (snd kv))) s"
    by (simp_all add: marshal_pairs_map pairs_maps sort_key_map_comp s_def)
  have ok: "valid_utf8 (fst kv) \<and> parses d' (marshal_any (snd kv)) (json_of (snd kv))" if "kv \<in> set s" for kv
  proof -
    obtain k v where kv: "kv = (k, v)" by fastforce
    have m: "(k, v) \<in> set m" using that by (simp add: s kv)
    then have "valid_utf8 k" "any_ok num v" "depth v \<le> d'"
      using AMap.prems d by (auto simp: pairs_maps depth_pairs_le list_all_iff)
    then show ?thesis using AMap.IH [OF m, of v d'] by (simp add: kv)
  qed
  have "list_all2 (\<lambda>(k, t) v. valid_utf8 k \<and> parses d' t v) (map (\<lambda>kv. (fst kv, marshal_any (snd kv))) s)
      (map (\<lambda>kv. json_of (snd kv)) s)"
    using ok by (simp add: list_all2_map1 list_all2_map2 list_all2_same)
  from parses_object [OF this]
  show ?case by (simp add: d p zip_map1 zip_map2 zip_same_conv_map comp_def split_beta)
qed (simp_all add: parses_word parses_number_text parses_string)

text \<open>Reading members with different keys into an empty map appends them.\<close>

lemma update_append: "k \<notin> fst ` set m \<Longrightarrow> AList.update k v m = m @ [(k, v)]"
  by (induction m) auto

lemma to_members_append:
  assumes "distinct (map fst ms @ map fst acc)"
    and "list_all2 (\<lambda>m a. to_any num (snd (snd m)) = Some a) ms as"
  shows "to_members num acc ms = Some (acc @ zip (map fst ms) as)"
  using assms(2,1)
proof (induction arbitrary: acc rule: list_all2_induct)
  case (Cons m ms a as)
  obtain k raw v where m: "m = (k, raw, v)" by (cases m)
  have "AList.update k a acc = acc @ [(k, a)]"
    using Cons.prems by (intro update_append) (auto simp: m)
  then show ?case using Cons m by simp
qed simp

lemma to_anys_map: "list_all (\<lambda>x. to_any num (f x) = Some (g x)) xs \<Longrightarrow> to_anys num (map f xs) = Some (map g xs)"
  by (induction xs) auto

lemma to_any_canon: "any_ok num a \<Longrightarrow> to_any num (json_of a) = Some (canon a)"
proof (induction a)
  case (ASlice xs)
  then show ?case by (simp add: list_maps to_anys_map list_all_iff)
next
  case (AMap m)
  define s where "s = sort_key fst m"
  have p: "sort_key fst (json_pairs m) = map (\<lambda>kv. (fst kv, marshal_any (snd kv), json_of (snd kv))) s"
    "sort_key fst (canon_pairs m) = map (\<lambda>kv. (fst kv, canon (snd kv))) s"
    by (simp_all add: pairs_maps sort_key_map_comp s_def)
  have a: "to_any num (json_of (snd kv)) = Some (canon (snd kv))" if "kv \<in> set s" for kv
  proof -
    obtain k v where kv: "kv = (k, v)" by fastforce
    have m: "(k, v) \<in> set m" using that by (simp add: s_def kv)
    then have "any_ok num v" using AMap.prems by (auto simp: pairs_maps list_all_iff)
    then show ?thesis using AMap.IH [OF m, of v] by (simp add: kv)
  qed
  have "distinct (map fst s)"
    using AMap.prems is_map_mset [of s m] by (simp add: s_def is_map_def)
  then have "to_members num [] (map (\<lambda>kv. (fst kv, marshal_any (snd kv), json_of (snd kv))) s) =
      Some ([] @ zip (map fst (map (\<lambda>kv. (fst kv, marshal_any (snd kv), json_of (snd kv))) s)) (map (\<lambda>kv. canon (snd kv)) s))"
    by (intro to_members_append) (auto simp: comp_def list_all2_map1 list_all2_map2 list_all2_same a)
  then show ?case by (simp add: p comp_def zip_map1 zip_map2 zip_same_conv_map)
qed simp_all

text \<open>
  Encoding and decoding are inverse.  What \<open>json.Unmarshal\<close> reads back from the text
  \<open>json.Marshal\<close> writes for a value is that value, up to the order of the members of its maps: valid
  strings, numbers as the encoder prints them, distinct keys, and no deeper than the decoder's limit.
\<close>

theorem json_round_trip:
  assumes "any_ok num a" and "depth a \<le> max_nesting"
  shows "Option.bind (parse_document (marshal_any a)) (to_any num) = Some (canon a)"
  using parses_document [OF parses_any [OF assms]] to_any_canon [OF assms(1)] by simp

definition sample_value :: any where
  "sample_value = AMap [(''b'', ASlice [ANumber ''12'', ABool True, ANil]), (''a'', AString ''x'')]"

theorem json_round_trip_witness:
  "Option.bind (parse_document (marshal_any sample_value)) (to_any Some) =
    Some (AMap [(''a'', AString ''x''), (''b'', ASlice [ANumber ''12'', ABool True, ANil])])"
proof -
  have n: "number_text ''12''"
    by (simp add: number_text_def parse_number_def int_part_def span_digits_def is_digit_def frac_part_def exp_part_def)
  have "any_ok Some sample_value" by (simp add: sample_value_def n is_map_def)
  moreover have "depth sample_value \<le> max_nesting" by (simp add: sample_value_def max_nesting_def)
  moreover have "canon sample_value = AMap [(''a'', AString ''x''), (''b'', ASlice [ANumber ''12'', ABool True, ANil])]"
    by (simp add: sample_value_def)
  ultimately show ?thesis using json_round_trip [of Some sample_value] by simp
qed



end
