(* ===== verification/Transport.thy ===== *)
theory Transport
  imports GoTime GoJsonRound Metrics
begin

text \<open>
  \<open>internal/transport\<close>: the JSON-RPC client for one upstream server and the settings of the HTTP
  server.  What the network answers to a request is a function argument; the body of an answer is the
  bytes that arrive and how the stream ends.
\<close>

section \<open>The server's settings\<close>

record HTTPServerConfig =
  hs_ReadTimeout :: duration
  hs_WriteTimeout :: duration
  hs_IdleTimeout :: duration

record http_server =
  srv_Addr :: string
  srv_ReadTimeout :: duration
  srv_WriteTimeout :: duration
  srv_IdleTimeout :: duration

datatype transport_config_error =
    ReadTimeoutNotPositive
  | WriteTimeoutNotPositive
  | IdleTimeoutNotPositive
  | RequestTimeoutNotPositive
  | MaxResponseBytesNotPositive

definition validateHTTPServerConfig :: "HTTPServerConfig \<Rightarrow> transport_config_error option" where
  "validateHTTPServerConfig cfg =
     (if hs_ReadTimeout cfg \<le> 0 then Some ReadTimeoutNotPositive
      else if hs_WriteTimeout cfg \<le> 0 then Some WriteTimeoutNotPositive
      else if hs_IdleTimeout cfg \<le> 0 then Some IdleTimeoutNotPositive
      else None)"

definition NewHTTPServer :: "string \<Rightarrow> HTTPServerConfig \<Rightarrow> transport_config_error + http_server" where
  "NewHTTPServer addr cfg =
     (case validateHTTPServerConfig cfg of
        Some err \<Rightarrow> Inl err
      | None \<Rightarrow> Inr \<lparr>srv_Addr = addr, srv_ReadTimeout = hs_ReadTimeout cfg,
          srv_WriteTimeout = hs_WriteTimeout cfg, srv_IdleTimeout = hs_IdleTimeout cfg\<rparr>)"

section \<open>The client\<close>

record MCPHTTPClientConfig =
  hc_RequestTimeout :: duration
  hc_MaxResponseBytes :: int

record MCPHTTPClient =
  mh_upstreamID :: string
  mh_baseURL :: string
  mh_headers :: "(string \<times> string) list"
  mh_timeout :: duration
  mh_nextID :: int
  mh_maxResponseBytes :: int
  mh_metrics :: "Registry option"

definition validateMCPHTTPClientConfig :: "MCPHTTPClientConfig \<Rightarrow> transport_config_error option" where
  "validateMCPHTTPClientConfig cfg =
     (if hc_RequestTimeout cfg \<le> 0 then Some RequestTimeoutNotPositive
      else if hc_MaxResponseBytes cfg \<le> 0 then Some MaxResponseBytesNotPositive
      else None)"

definition NewMCPHTTPClient ::
  "string \<Rightarrow> string \<Rightarrow> (string \<times> string) list \<Rightarrow> MCPHTTPClientConfig \<Rightarrow> transport_config_error + MCPHTTPClient" where
  "NewMCPHTTPClient upstreamID baseURL headers cfg =
     (case validateMCPHTTPClientConfig cfg of
        Some err \<Rightarrow> Inl err
      | None \<Rightarrow> Inr \<lparr>mh_upstreamID = upstreamID, mh_baseURL = baseURL, mh_headers = headers,
          mh_timeout = hc_RequestTimeout cfg, mh_nextID = 0, mh_maxResponseBytes = hc_MaxResponseBytes cfg,
          mh_metrics = None\<rparr>)"

definition client_SetMetrics :: "Registry \<Rightarrow> MCPHTTPClient \<Rightarrow> MCPHTTPClient" where
  "client_SetMetrics r c = c\<lparr>mh_metrics := Some r\<rparr>"

subsection \<open>Messages\<close>

text \<open>
  The request body.  \<open>params\<close> is text that \<open>json.Marshal\<close> produced, which embedding it as a
  \<open>json.RawMessage\<close> leaves as it is.
\<close>

definition marshal_ToolsCallRequest :: "ToolsCallRequest \<Rightarrow> string" where
  "marshal_ToolsCallRequest q = json_object ((''name'', quote (call_Name q)) #
     (if call_Arguments q = [] then [] else [(''arguments'', marshal_map (call_Arguments q))]))"

definition marshal_envelope :: "int \<Rightarrow> string \<Rightarrow> RawMessage option \<Rightarrow> string" where
  "marshal_envelope n meth params = json_object
     ([(''jsonrpc'', quote ''2.0''), (''id'', show_int n), (''method'', quote meth)] @
      (case params of None \<Rightarrow> [] | Some p \<Rightarrow> if p = '''' then [] else [(''params'', p)]))"

text \<open>The headers are the calls of \<open>Header.Set\<close> in order.\<close>

record http_request =
  hr_Method :: string
  hr_URL :: string
  hr_Headers :: "(string \<times> string) list"
  hr_Body :: string

text \<open>
  The network's answer: the request cannot be built, \<open>Do\<close> fails, or a status with a body.  The body's
  bytes end with \<open>io.EOF\<close> or with a read error; \<open>readahead\<close> is how many bytes the decoder had
  buffered beyond the value when it stopped, or at all when the text is not JSON.
\<close>

datatype http_answer =
    BuildFailed string
  | DoFailed string
  | Answer (ans_status: int) (ans_body: string) (ans_broken: bool) (ans_readahead: nat)

record rpcReply =
  rp_JSONRPC :: string
  rp_ID :: "RawMessage option"
  rp_Result :: "RawMessage option"
  rp_Error :: "(int \<times> string) option"

definition into_int :: "json \<Rightarrow> int \<Rightarrow> int option" where
  "into_int v old = (case v of JNumber t \<Rightarrow> Atoi t | JNull \<Rightarrow> Some old | _ \<Rightarrow> None)"

text \<open>Of \<open>mcp.Error\<close> the client keeps the code and the message; the data must be decodable.\<close>

fun into_rpcError :: "num_fn \<Rightarrow> (string \<times> string \<times> json) list \<Rightarrow> int \<times> string \<Rightarrow> (int \<times> string) option" where
  "into_rpcError num [] e = Some e"
| "into_rpcError num ((k, raw, v) # ms) (c, m) =
     (if field_matches ''code'' k then
        (case into_int v c of None \<Rightarrow> None | Some c' \<Rightarrow> into_rpcError num ms (c', m))
      else if field_matches ''message'' k then
        (case into_string v m of None \<Rightarrow> None | Some m' \<Rightarrow> into_rpcError num ms (c, m'))
      else if field_matches ''data'' k then
        (case to_any num v of None \<Rightarrow> None | Some d \<Rightarrow> into_rpcError num ms (c, m))
      else into_rpcError num ms (c, m))"

fun into_rpcReply :: "num_fn \<Rightarrow> (string \<times> string \<times> json) list \<Rightarrow> rpcReply \<Rightarrow> rpcReply option" where
  "into_rpcReply num [] q = Some q"
| "into_rpcReply num ((k, raw, v) # ms) q =
     (if field_matches ''jsonrpc'' k then
        (case into_string v (rp_JSONRPC q) of
           None \<Rightarrow> None | Some t \<Rightarrow> into_rpcReply num ms (q\<lparr>rp_JSONRPC := t\<rparr>))
      else if field_matches ''id'' k then into_rpcReply num ms (q\<lparr>rp_ID := Some raw\<rparr>)
      else if field_matches ''result'' k then into_rpcReply num ms (q\<lparr>rp_Result := Some raw\<rparr>)
      else if field_matches ''error'' k then
        (case v of
           JNull \<Rightarrow> into_rpcReply num ms (q\<lparr>rp_Error := None\<rparr>)
         | JObject es \<Rightarrow>
             (case into_rpcError num es (case rp_Error q of None \<Rightarrow> (0, '''') | Some e \<Rightarrow> e) of
                None \<Rightarrow> None | Some e \<Rightarrow> into_rpcReply num ms (q\<lparr>rp_Error := Some e\<rparr>))
         | _ \<Rightarrow> None)
      else into_rpcReply num ms q)"

definition no_reply :: rpcReply where
  "no_reply = \<lparr>rp_JSONRPC = '''', rp_ID = None, rp_Result = None, rp_Error = None\<rparr>"

definition decode_rpcReply :: "num_fn \<Rightarrow> json \<Rightarrow> rpcReply option" where
  "decode_rpcReply num v =
     (case v of JObject ms \<Rightarrow> into_rpcReply num ms no_reply | JNull \<Rightarrow> Some no_reply | _ \<Rightarrow> None)"

subsection \<open>One call\<close>

datatype transport_error =
    BuildError string
  | HttpError string
  | BadStatus int
  | TooLarge int
  | DecodeError
  | TrailingData
  | BadVersion string
  | IdMismatch int "RawMessage option"
  | BothResultAndError
  | NeitherResultNorError
  | RpcError int string
  | DecodeResultError

text \<open>
  The body through \<open>io.LimitReader\<close> with limit \<open>maxResponseBytes + 1\<close>, which wraps around as an
  \<open>int64\<close>; a limit that is not positive ends the stream at once.
\<close>

definition limited :: "int \<Rightarrow> string \<Rightarrow> string" where
  "limited mx body = take (nat (int64 (mx + 1))) body"

definition ends_well :: "int \<Rightarrow> string \<Rightarrow> bool \<Rightarrow> bool" where
  "ends_well mx body broken \<longleftrightarrow> \<not> broken \<or> int64 (mx + 1) \<le> int (length body)"

text \<open>A number or a word ends only at the next byte, so the decoder meets the end of the stream.\<close>

definition needs_next :: "json \<Rightarrow> bool" where
  "needs_next v = (case v of JNull \<Rightarrow> True | JBool b \<Rightarrow> True | JNumber t \<Rightarrow> True | _ \<Rightarrow> False)"

definition read_reply :: "num_fn \<Rightarrow> int \<Rightarrow> string \<Rightarrow> bool \<Rightarrow> nat \<Rightarrow> transport_error + rpcReply" where
  "read_reply num mx body broken readahead =
     (let lim = limited mx body; fine = ends_well mx body broken in
      case parse_value max_nesting (skip lim) of
        None \<Rightarrow> if int (min (length lim) readahead) > mx then Inl (TooLarge mx) else Inl DecodeError
      | Some (v, rest) \<Rightarrow>
        if int (min (length lim) (length lim - length rest + readahead)) > mx then Inl (TooLarge mx)
        else if needs_next v \<and> rest = '''' \<and> \<not> fine then Inl DecodeError
        else (case decode_rpcReply num v of
            None \<Rightarrow> Inl DecodeError
          | Some reply \<Rightarrow> if skip rest \<noteq> '''' \<or> \<not> fine then Inl TrailingData else Inr reply))"

text \<open>\<open>json.Unmarshal(reply.ID, &receivedID)\<close>, \<open>None\<close> for an error.\<close>

definition received_id :: "RawMessage option \<Rightarrow> int option" where
  "received_id raw =
     (case raw of
        None \<Rightarrow> None
      | Some t \<Rightarrow> (case parse_document t of None \<Rightarrow> None | Some v \<Rightarrow> into_int v 0))"

text \<open>The protocol checks after decoding, in order.\<close>

definition check_reply :: "int \<Rightarrow> rpcReply \<Rightarrow> transport_error option" where
  "check_reply n reply =
     (if rp_JSONRPC reply \<noteq> ''2.0'' then Some (BadVersion (rp_JSONRPC reply))
      else if received_id (rp_ID reply) \<noteq> Some n then Some (IdMismatch n (rp_ID reply))
      else if rp_Error reply \<noteq> None \<and> rp_Result reply \<noteq> None then Some BothResultAndError
      else if rp_Error reply = None \<and> rp_Result reply = None then Some NeitherResultNorError
      else None)"

definition protocol_error :: "MCPHTTPClient \<Rightarrow> MCPHTTPClient" where
  "protocol_error c = c\<lparr>mh_metrics := if_metrics (IncUpstreamProtocolError (mh_upstreamID c)) (mh_metrics c)\<rparr>"

definition response_too_large :: "MCPHTTPClient \<Rightarrow> MCPHTTPClient" where
  "response_too_large c = c\<lparr>mh_metrics := if_metrics (IncUpstreamResponseTooLarge (mh_upstreamID c)) (mh_metrics c)\<rparr>"

definition request_of :: "MCPHTTPClient \<Rightarrow> int \<Rightarrow> string \<Rightarrow> RawMessage option \<Rightarrow> http_request" where
  "request_of c n meth params =
     \<lparr>hr_Method = ''POST'', hr_URL = mh_baseURL c,
      hr_Headers = (''Content-Type'', ''application/json'') # mh_headers c,
      hr_Body = marshal_envelope n meth params\<rparr>"

text \<open>What becomes of a reply that passed the checks; \<open>dec\<close> decodes the result into \<open>out\<close>.\<close>

definition finish_reply :: "(json \<Rightarrow> 'a option) \<Rightarrow> rpcReply \<Rightarrow> transport_error + 'a" where
  "finish_reply dec reply =
     (case rp_Error reply of
        Some (code, msg) \<Rightarrow> Inl (RpcError code msg)
      | None \<Rightarrow>
        (case Option.bind (parse_document (the (rp_Result reply))) dec of
           None \<Rightarrow> Inl DecodeResultError
         | Some r \<Rightarrow> Inr r))"

definition call ::
  "num_fn \<Rightarrow> (http_request \<Rightarrow> http_answer) \<Rightarrow> string \<Rightarrow> RawMessage option \<Rightarrow> (json \<Rightarrow> 'a option)
   \<Rightarrow> MCPHTTPClient \<Rightarrow> (transport_error + 'a) \<times> MCPHTTPClient" where
  "call num net meth params dec c =
     (let n = int64 (mh_nextID c + 1); c1 = c\<lparr>mh_nextID := n\<rparr> in
      case net (request_of c n meth params) of
        BuildFailed e \<Rightarrow> (Inl (BuildError e), c1)
      | DoFailed e \<Rightarrow> (Inl (HttpError e), c1)
      | Answer status body broken readahead \<Rightarrow>
        if status < 200 \<or> status \<ge> 300 then (Inl (BadStatus status), protocol_error c1)
        else (case read_reply num (mh_maxResponseBytes c) body broken readahead of
            Inl (TooLarge mx) \<Rightarrow> (Inl (TooLarge mx), response_too_large c1)
          | Inl err \<Rightarrow> (Inl err, protocol_error c1)
          | Inr reply \<Rightarrow>
            (case check_reply n reply of
               Some err \<Rightarrow> (Inl err, protocol_error c1)
             | None \<Rightarrow> (finish_reply dec reply, c1))))"

subsection \<open>The two methods\<close>

text \<open>
  Decoding \<open>[]Tool\<close> and \<open>[]Content\<close>.  \<open>encoding/json\<close> decodes an array into the slice it finds: the
  elements of an earlier member of the same name are the starting values.
\<close>

fun into_Tool :: "num_fn \<Rightarrow> (string \<times> string \<times> json) list \<Rightarrow> Tool \<Rightarrow> Tool option" where
  "into_Tool num [] t = Some t"
| "into_Tool num ((k, raw, v) # ms) t =
     (if field_matches ''name'' k then
        (case into_string v (tool_Name t) of
           None \<Rightarrow> None | Some s \<Rightarrow> into_Tool num ms (t\<lparr>tool_Name := s\<rparr>))
      else if field_matches ''description'' k then
        (case into_string v (tool_Description t) of
           None \<Rightarrow> None | Some s \<Rightarrow> into_Tool num ms (t\<lparr>tool_Description := s\<rparr>))
      else if field_matches ''inputSchema'' k then
        (case v of
           JNull \<Rightarrow> into_Tool num ms (t\<lparr>tool_InputSchema := None\<rparr>)
         | JObject sch \<Rightarrow>
             (case to_members num (case tool_InputSchema t of None \<Rightarrow> [] | Some m \<Rightarrow> m) sch of
                None \<Rightarrow> None | Some m \<Rightarrow> into_Tool num ms (t\<lparr>tool_InputSchema := Some m\<rparr>))
         | _ \<Rightarrow> None)
      else into_Tool num ms t)"

fun into_Content :: "(string \<times> string \<times> json) list \<Rightarrow> Content \<Rightarrow> Content option" where
  "into_Content [] c = Some c"
| "into_Content ((k, raw, v) # ms) c =
     (if field_matches ''type'' k then
        (case into_string v (content_Type c) of
           None \<Rightarrow> None | Some s \<Rightarrow> into_Content ms (c\<lparr>content_Type := s\<rparr>))
      else if field_matches ''text'' k then
        (case into_string v (content_Text c) of
           None \<Rightarrow> None | Some s \<Rightarrow> into_Content ms (c\<lparr>content_Text := s\<rparr>))
      else into_Content ms c)"

text \<open>An element of a slice of structures; \<open>null\<close> leaves it, another type than object is an error.\<close>

fun into_struct :: "((string \<times> string \<times> json) list \<Rightarrow> 'a \<Rightarrow> 'a option) \<Rightarrow> json \<Rightarrow> 'a \<Rightarrow> 'a option" where
  "into_struct f (JObject ms) x = f ms x"
| "into_struct f JNull x = Some x"
| "into_struct f _ x = None"

fun into_slice :: "(json \<Rightarrow> 'a \<Rightarrow> 'a option) \<Rightarrow> 'a \<Rightarrow> json list \<Rightarrow> 'a list \<Rightarrow> 'a list option" where
  "into_slice f zero [] old = Some []"
| "into_slice f zero (v # vs) old =
     (case f v (case old of [] \<Rightarrow> zero | x # xs \<Rightarrow> x) of
        None \<Rightarrow> None
      | Some x \<Rightarrow> map_option (Cons x) (into_slice f zero vs (drop 1 old)))"

definition slice_member ::
  "(json \<Rightarrow> 'a \<Rightarrow> 'a option) \<Rightarrow> 'a \<Rightarrow> json \<Rightarrow> 'a list option \<Rightarrow> 'a list option option" where
  "slice_member f zero v old =
     (case v of
        JNull \<Rightarrow> Some None
      | JArray vs \<Rightarrow> map_option Some (into_slice f zero vs (case old of None \<Rightarrow> [] | Some xs \<Rightarrow> xs))
      | _ \<Rightarrow> None)"

fun slice_field ::
  "string \<Rightarrow> (json \<Rightarrow> 'a list option \<Rightarrow> 'a list option option) \<Rightarrow> (string \<times> string \<times> json) list
   \<Rightarrow> 'a list option \<Rightarrow> 'a list option option" where
  "slice_field field f [] old = Some old"
| "slice_field field f ((k, raw, v) # ms) old =
     (if field_matches field k then
        (case f v old of None \<Rightarrow> None | Some new \<Rightarrow> slice_field field f ms new)
      else slice_field field f ms old)"

definition no_tool :: Tool where
  "no_tool = \<lparr>tool_Name = '''', tool_Description = '''', tool_InputSchema = None\<rparr>"

definition no_content :: Content where
  "no_content = \<lparr>content_Type = '''', content_Text = ''''\<rparr>"

text \<open>A nil list of tools is an empty list to every user of the result.\<close>

definition decode_ToolsListResult :: "num_fn \<Rightarrow> json \<Rightarrow> Tool list option" where
  "decode_ToolsListResult num v =
     map_option (\<lambda>ts. case ts of None \<Rightarrow> [] | Some ts \<Rightarrow> ts)
       (into_struct (slice_field ''tools'' (slice_member (into_struct (into_Tool num)) no_tool)) v None)"

definition decode_ToolsCallResult :: "json \<Rightarrow> ToolsCallResult option" where
  "decode_ToolsCallResult v =
     map_option (\<lambda>cs. \<lparr>result_Content = cs\<rparr>)
       (into_struct (slice_field ''content'' (slice_member (into_struct into_Content) no_content)) v None)"

definition client_ToolsList ::
  "num_fn \<Rightarrow> (http_request \<Rightarrow> http_answer) \<Rightarrow> MCPHTTPClient \<Rightarrow> (transport_error + Tool list) \<times> MCPHTTPClient" where
  "client_ToolsList num net c = call num net ''tools/list'' None (decode_ToolsListResult num) c"

definition client_ToolsCall ::
  "num_fn \<Rightarrow> (http_request \<Rightarrow> http_answer) \<Rightarrow> ToolsCallRequest \<Rightarrow> MCPHTTPClient
   \<Rightarrow> (transport_error + ToolsCallResult) \<times> MCPHTTPClient" where
  "client_ToolsCall num net req c =
     call num net ''tools/call'' (Some (marshal_ToolsCallRequest req)) decode_ToolsCallResult c"

section \<open>Properties\<close>

lemma protocol_error_simps [simp]:
  "mh_nextID (protocol_error c) = mh_nextID c" "mh_nextID (response_too_large c) = mh_nextID c"
  "mh_maxResponseBytes (protocol_error c) = mh_maxResponseBytes c"
  "mh_maxResponseBytes (response_too_large c) = mh_maxResponseBytes c"
  by (simp_all add: protocol_error_def response_too_large_def)

lemma check_reply_None:
  "check_reply n reply = None \<longleftrightarrow> rp_JSONRPC reply = ''2.0'' \<and> received_id (rp_ID reply) = Some n \<and>
    ((rp_Error reply = None) \<noteq> (rp_Result reply = None))"
  by (auto simp: check_reply_def)

lemma read_reply_Inr:
  assumes "read_reply num mx body broken ra = Inr reply"
  shows "\<exists>v rest. parse_value max_nesting (skip (limited mx body)) = Some (v, rest) \<and>
    decode_rpcReply num v = Some reply \<and> skip rest = '''' \<and> ends_well mx body broken \<and>
    int (length (limited mx body) - length rest) \<le> mx"
  using assms by (auto simp: read_reply_def Let_def split: option.splits if_splits)

lemma read_reply_Inl:
  assumes "read_reply num mx body broken ra = Inl err"
  shows "err = TooLarge mx \<or> err = DecodeError \<or> err = TrailingData"
  using assms by (auto simp: read_reply_def Let_def split: option.splits if_splits)

text \<open>The answer, the reply read from it and the checks it passed, for every call that returns a result.\<close>

lemma call_Inr:
  assumes "fst (call num net meth params dec c) = Inr a"
  defines "n \<equiv> int64 (mh_nextID c + 1)"
  shows "\<exists>status body broken ra reply. net (request_of c n meth params) = Answer status body broken ra \<and>
    200 \<le> status \<and> status < 300 \<and> read_reply num (mh_maxResponseBytes c) body broken ra = Inr reply \<and>
    check_reply n reply = None \<and> finish_reply dec reply = Inr a"
proof -
  obtain status body broken ra where ans: "net (request_of c n meth params) = Answer status body broken ra"
    using assms(1) by (auto simp: call_def n_def Let_def split: http_answer.splits)
  have st: "200 \<le> status \<and> status < 300"
    using assms(1) ans by (auto simp: call_def n_def Let_def split: if_splits)
  show ?thesis
  proof (cases "read_reply num (mh_maxResponseBytes c) body broken ra")
    case (Inl err)
    then show ?thesis
      using assms(1) ans st by (auto simp: call_def n_def Let_def split: transport_error.splits)
  next
    case (Inr reply)
    then show ?thesis
      using assms(1) ans st by (auto simp: call_def n_def Let_def split: option.splits)
  qed
qed

text \<open>
  C32: When a call succeeds.  The upstream answered with a 2xx status and a single JSON value, nothing
  but white space after it, of at most the configured number of bytes; the value is a JSON-RPC 2.0
  reply that carries the identifier this call sent and no error, and the result is the decoding of its
  \<open>result\<close> member.
\<close>

theorem accepted_reply:
  assumes "fst (call num net meth params dec c) = Inr a"
  shows "\<exists>status body broken ra v rest reply raw.
    net (request_of c (int64 (mh_nextID c + 1)) meth params) = Answer status body broken ra \<and>
    200 \<le> status \<and> status < 300 \<and>
    parse_value max_nesting (skip (limited (mh_maxResponseBytes c) body)) = Some (v, rest) \<and> skip rest = '''' \<and>
    int (length (limited (mh_maxResponseBytes c) body) - length rest) \<le> mh_maxResponseBytes c \<and>
    decode_rpcReply num v = Some reply \<and> rp_JSONRPC reply = ''2.0'' \<and>
    received_id (rp_ID reply) = Some (int64 (mh_nextID c + 1)) \<and>
    rp_Error reply = None \<and> rp_Result reply = Some raw \<and> Option.bind (parse_document raw) dec = Some a"
proof -
  obtain status body broken ra reply where c: "net (request_of c (int64 (mh_nextID c + 1)) meth params) = Answer status body broken ra"
    "200 \<le> status" "status < 300" "read_reply num (mh_maxResponseBytes c) body broken ra = Inr reply"
    "check_reply (int64 (mh_nextID c + 1)) reply = None" "finish_reply dec reply = Inr a"
    using call_Inr [OF assms] by blast
  have f: "rp_Error reply = None" "Option.bind (parse_document (the (rp_Result reply))) dec = Some a"
    using c(6) by (auto simp: finish_reply_def split: option.splits)
  obtain raw where raw: "rp_Result reply = Some raw" using c(5) f(1) by (auto simp: check_reply_None)
  obtain v rest where "parse_value max_nesting (skip (limited (mh_maxResponseBytes c) body)) = Some (v, rest)"
    "decode_rpcReply num v = Some reply" "skip rest = ''''"
    "int (length (limited (mh_maxResponseBytes c) body) - length rest) \<le> mh_maxResponseBytes c"
    using read_reply_Inr [OF c(4)] by blast
  then show ?thesis using c f raw by (simp add: check_reply_None)
qed

text \<open>
  What a failed call leaves behind.  Every call consumes one identifier, successful or not.  An
  oversized response is counted as such, every violation of the protocol as a protocol error; a failure to
  reach the upstream, an error it reports and an undecodable result are not counted.
\<close>

theorem call_accounting:
  "snd (call num net meth params dec c) =
    (let c1 = c\<lparr>mh_nextID := int64 (mh_nextID c + 1)\<rparr> in
     case fst (call num net meth params dec c) of
       Inl (TooLarge mx) \<Rightarrow> response_too_large c1
     | Inl (BadStatus s) \<Rightarrow> protocol_error c1
     | Inl DecodeError \<Rightarrow> protocol_error c1
     | Inl TrailingData \<Rightarrow> protocol_error c1
     | Inl (BadVersion v) \<Rightarrow> protocol_error c1
     | Inl (IdMismatch k raw) \<Rightarrow> protocol_error c1
     | Inl BothResultAndError \<Rightarrow> protocol_error c1
     | Inl NeitherResultNorError \<Rightarrow> protocol_error c1
     | _ \<Rightarrow> c1)"
proof -
  have fin: "finish_reply dec reply = Inl err \<Longrightarrow> (\<exists>k m. err = RpcError k m) \<or> err = DecodeResultError" for reply err
    by (auto simp: finish_reply_def split: option.splits)
  have chk: "check_reply n reply = Some err \<Longrightarrow> (\<exists>v. err = BadVersion v) \<or> (\<exists>k r. err = IdMismatch k r) \<or>
      err = BothResultAndError \<or> err = NeitherResultNorError" for n reply err
    by (auto simp: check_reply_def split: if_splits)
  show ?thesis
    by (auto simp: call_def Let_def split: http_answer.splits sum.splits option.splits
        dest!: read_reply_Inl fin chk)
qed

text \<open>
  Replies cannot be mixed up.  A response that one call accepted is refused, for its identifier, by
  every other call of the same client, whatever method that call is for.
\<close>

theorem replay_rejected:
  assumes "fst (call num net meth params dec c) = Inr a"
    and "net' (request_of c' (mh_nextID c' + 1) meth' params') = net (request_of c (mh_nextID c + 1) meth params)"
    and "mh_maxResponseBytes c' = mh_maxResponseBytes c" and "mh_nextID c' \<noteq> mh_nextID c"
    and "0 \<le> mh_nextID c" and "mh_nextID c < max_int64" and "0 \<le> mh_nextID c'" and "mh_nextID c' < max_int64"
  shows "\<exists>raw. fst (call num net' meth' params' dec' c') = Inl (IdMismatch (mh_nextID c' + 1) raw)"
proof -
  have n: "int64 (mh_nextID c + 1) = mh_nextID c + 1" "int64 (mh_nextID c' + 1) = mh_nextID c' + 1"
    using assms(5-8) by (simp_all add: int64_id in_int64_def max_int64_def)
  obtain status body broken ra reply where r: "net (request_of c (mh_nextID c + 1) meth params) = Answer status body broken ra"
    "200 \<le> status" "status < 300" "read_reply num (mh_maxResponseBytes c) body broken ra = Inr reply"
    "check_reply (mh_nextID c + 1) reply = None"
    using call_Inr [OF assms(1)] unfolding n by blast
  have "check_reply (mh_nextID c' + 1) reply = Some (IdMismatch (mh_nextID c' + 1) (rp_ID reply))"
    using r(5) [unfolded check_reply_None] assms(4) by (simp add: check_reply_def)
  then show ?thesis using r assms(2,3) by (simp add: call_def Let_def n)
qed

text \<open>Bytes after the limit have no influence, whatever they are.\<close>

lemma beyond_limit_ignored:
  assumes "int64 (mx + 1) \<le> int (length body)"
  shows "read_reply num mx (body @ late) b ra = read_reply num mx body b' ra"
  using assms by (simp add: read_reply_def limited_def ends_well_def)

section \<open>Replies that are accepted\<close>

lemma digits_value_dec: "list_all is_digit s \<Longrightarrow> digits_value x s = foldl (\<lambda>n c. 10 * n + (byte c - 48)) x s"
  by (induction s arbitrary: x) (simp_all add: digit_val_def mult.commute)

lemma Atoi_show_int:
  assumes "in_int64 n"
  shows "Atoi (show_int n) = Some n"
proof -
  have d: "list_all is_digit (show_nat k)" for k
    using show_nat_digits [of k] by (simp add: digit_char_eq [abs_def])
  have v: "digits_value 0 (show_nat k) = k" for k
    using digits_value_dec [OF d] dec_value_show_nat [of k] by (simp add: dec_value_def)
  have sg: "strip_sign (show_nat k) = (False, show_nat k)" for k
  proof -
    obtain c cs where s: "show_nat k = c # cs" using show_nat_nonempty [of k] by (cases "show_nat k") auto
    then have "is_digit c" using d [of k] by simp
    then have "c \<noteq> CHR ''-''" "c \<noteq> CHR ''+''" by (auto simp: is_digit_def less_eq_char_def)
    then show ?thesis by (simp add: s strip_sign_def)
  qed
  show ?thesis
  proof (cases "n < 0")
    case True
    then show ?thesis using assms d v show_nat_nonempty by (simp add: Atoi_def show_int_def strip_sign_def Let_def)
  next
    case False
    then show ?thesis using assms d v sg show_nat_nonempty by (simp add: Atoi_def show_int_def Let_def)
  qed
qed

text \<open>The reply of a server that follows the protocol, with the encoded result \<open>t\<close>.\<close>

definition honest_reply :: "int \<Rightarrow> string \<Rightarrow> string" where
  "honest_reply n t = json_object [(''jsonrpc'', quote ''2.0''), (''id'', show_int n), (''result'', t)]"

lemma ascii_valid: "list_all (\<lambda>c. byte c < 128) s \<Longrightarrow> valid_utf8 s"
  by (rule valid_utf8_ascii)

lemma parses_honest:
  assumes "parses d t v"
  shows "parses (Suc d) (honest_reply n t)
    (JObject [(''jsonrpc'', quote ''2.0'', JString ''2.0''), (''id'', show_int n, JNumber (show_int n)), (''result'', t, v)])"
proof -
  have "list_all2 (\<lambda>(k, t) v. valid_utf8 k \<and> parses d t v)
      [(''jsonrpc'', quote ''2.0''), (''id'', show_int n), (''result'', t)]
      [JString ''2.0'', JNumber (show_int n), v]"
    using assms by (simp add: parses_string parses_number_text ascii_valid)
  from parses_object [OF this] show ?thesis by (simp add: honest_reply_def)
qed

lemma parses_document_depth: "parses d t v \<Longrightarrow> d = max_nesting \<Longrightarrow> parse_document t = Some v"
  using parses_document by simp

lemma decode_honest:
  "decode_rpcReply num
     (JObject [(''jsonrpc'', quote ''2.0'', JString ''2.0''), (''id'', show_int n, JNumber (show_int n)), (''result'', t, v)]) =
   Some \<lparr>rp_JSONRPC = ''2.0'', rp_ID = Some (show_int n), rp_Result = Some t, rp_Error = None\<rparr>"
  by (simp add: decode_rpcReply_def no_reply_def field_matches_def into_string_def)

text \<open>A reply in a text with nothing but white space after it, from a server that answers at once.\<close>

lemma reply_call:
  assumes "net (request_of c (mh_nextID c + 1) meth params) = Answer 200 (body @ tail) False ra"
    and "parses max_nesting body v" and "stops tail" and "skip tail = ''''" and "\<not> needs_next v"
    and "decode_rpcReply num v = Some reply" and "check_reply (mh_nextID c + 1) reply = None"
    and "int (length (body @ tail)) \<le> mh_maxResponseBytes c" and "mh_maxResponseBytes c < max_int64"
    and "0 \<le> mh_nextID c" and "mh_nextID c < max_int64"
  shows "call num net meth params dec c = (finish_reply dec reply, c\<lparr>mh_nextID := mh_nextID c + 1\<rparr>)"
proof -
  have n: "int64 (mh_nextID c + 1) = mh_nextID c + 1"
    using assms(10,11) by (simp add: int64_id in_int64_def max_int64_def)
  have "int64 (mh_maxResponseBytes c + 1) = mh_maxResponseBytes c + 1"
    using assms(8,9) by (simp add: int64_id in_int64_def max_int64_def)
  then have lim: "limited (mh_maxResponseBytes c) (body @ tail) = body @ tail"
    using assms(8) by (simp add: limited_def)
  have "parse_value max_nesting (skip (body @ tail)) = Some (v, tail)"
    using parses_value [OF assms(2,3)] skip_parses [OF assms(2)] by simp
  then have "read_reply num (mh_maxResponseBytes c) (body @ tail) False ra = Inr reply"
    using assms(4-6,8) by (simp add: read_reply_def lim ends_well_def)
  then show ?thesis using assms(1,7) n by (simp add: call_def)
qed

lemma received_show_int: "in_int64 n \<Longrightarrow> received_id (Some (show_int n)) = Some n"
  using parses_document [OF parses_number_text [OF number_text_show_int [of n]]] Atoi_show_int [of n]
  by (simp add: received_id_def into_int_def)

lemma next_in_int64: "0 \<le> n \<Longrightarrow> n < max_int64 \<Longrightarrow> in_int64 (n + 1)"
  by (simp add: in_int64_def max_int64_def)

lemma honest_call_tail:
  assumes "net (request_of c (mh_nextID c + 1) meth params) = Answer 200 (honest_reply (mh_nextID c + 1) t @ tail) False ra"
    and "parses (max_nesting - 1) t v" and "parses max_nesting t v" and "dec v = Some a" and "stops tail" and "skip tail = ''''"
    and "int (length (honest_reply (mh_nextID c + 1) t @ tail)) \<le> mh_maxResponseBytes c" and "mh_maxResponseBytes c < max_int64"
    and "0 \<le> mh_nextID c" and "mh_nextID c < max_int64"
  shows "call num net meth params dec c = (Inr a, c\<lparr>mh_nextID := mh_nextID c + 1\<rparr>)"
proof -
  have m: "max_nesting = Suc (max_nesting - 1)" by (simp add: max_nesting_def)
  define n where "n = mh_nextID c + 1"
  define reply where "reply = \<lparr>rp_JSONRPC = ''2.0'', rp_ID = Some (show_int n), rp_Result = Some t, rp_Error = None\<rparr>"
  define msg where "msg = JObject [(''jsonrpc'', quote ''2.0'', JString ''2.0''), (''id'', show_int n, JNumber (show_int n)), (''result'', t, v)]"
  have p: "parses max_nesting (honest_reply n t) msg"
    using parses_honest [OF assms(2), of n] m by (simp add: msg_def)
  have "received_id (Some (show_int n)) = Some n"
    unfolding n_def using assms(9,10) by (intro received_show_int next_in_int64)
  then have chk: "check_reply (mh_nextID c + 1) reply = None"
    by (simp add: check_reply_def reply_def n_def)
  have d: "decode_rpcReply num msg = Some reply" unfolding msg_def reply_def by (rule decode_honest)
  have f: "finish_reply dec reply = Inr a"
    using parses_document [OF assms(3)] assms(4) by (simp add: finish_reply_def reply_def)
  have "call num net meth params dec c = (finish_reply dec reply, c\<lparr>mh_nextID := mh_nextID c + 1\<rparr>)"
    using assms(1,5-10) p d chk by (intro reply_call [where v = msg and tail = tail]) (auto simp: n_def needs_next_def msg_def)
  then show ?thesis by (simp add: f)
qed

lemma honest_call:
  assumes "net (request_of c (mh_nextID c + 1) meth params) = Answer 200 (honest_reply (mh_nextID c + 1) t) False ra"
    and "parses (max_nesting - 1) t v" and "parses max_nesting t v" and "dec v = Some a"
    and "int (length (honest_reply (mh_nextID c + 1) t)) \<le> mh_maxResponseBytes c" and "mh_maxResponseBytes c < max_int64"
    and "0 \<le> mh_nextID c" and "mh_nextID c < max_int64"
  shows "call num net meth params dec c = (Inr a, c\<lparr>mh_nextID := mh_nextID c + 1\<rparr>)"
  using honest_call_tail [where tail = "''''" and dec = dec, OF _ assms(2-4)] assms by simp

text \<open>
  The client accepts what it should.  When the server answers a call with a well-formed reply to
  that call, within the size limit, the call returns the decoded result and counts no error,
  however much the decoder had buffered.
\<close>

theorem honest_reply_accepted:
  assumes "net (request_of c (mh_nextID c + 1) meth params) = Answer 200 (honest_reply (mh_nextID c + 1) t) False ra"
    and "parses (max_nesting - 1) t v" and "parses max_nesting t v" and "dec v = Some a"
    and "int (length (honest_reply (mh_nextID c + 1) t)) \<le> mh_maxResponseBytes c" and "mh_maxResponseBytes c < max_int64"
    and "0 \<le> mh_nextID c" and "mh_nextID c < max_int64"
  shows "call num net meth params dec c = (Inr a, c\<lparr>mh_nextID := mh_nextID c + 1\<rparr>)"
  using assms by (rule honest_call)

text \<open>A client, and a server that answers every call with the reply to the first.\<close>

definition sample_client :: MCPHTTPClient where
  "sample_client = \<lparr>mh_upstreamID = ''u'', mh_baseURL = ''http://u'', mh_headers = [], mh_timeout = 1, mh_nextID = 0,
     mh_maxResponseBytes = 100, mh_metrics = None\<rparr>"

definition sample_net :: "http_request \<Rightarrow> http_answer" where
  "sample_net req = Answer 200 (honest_reply 1 (json_object [])) False 0"

lemma parses_empty: "parses (Suc d) (json_object []) (JObject [])"
  using parses_object [of d "[]" "[]"] by simp

lemma length_honest: "length (honest_reply 1 (json_object [])) \<le> 100"
proof -
  have "length (show_int 1) = 1" by (simp add: show_int_def show_nat.simps [of "Suc 0"])
  then show ?thesis
    by (simp add: honest_reply_def json_object_def json_member_pair plain_words [THEN quote_plain])
qed

lemma sample_call:
  "call Some sample_net meth params decode_ToolsCallResult sample_client =
    (Inr \<lparr>result_Content = None\<rparr>, sample_client\<lparr>mh_nextID := 1\<rparr>)"
proof -
  let ?t = "json_object []"
  have p: "parses (max_nesting - 1) ?t (JObject [])" "parses max_nesting ?t (JObject [])"
    using parses_empty [of 9998] parses_empty [of 9999] by (simp_all add: max_nesting_def)
  have n: "sample_net (request_of sample_client (mh_nextID sample_client + 1) meth params) =
      Answer 200 (honest_reply (mh_nextID sample_client + 1) ?t) False 0"
    by (simp add: sample_net_def sample_client_def)
  have d: "decode_ToolsCallResult (JObject []) = Some \<lparr>result_Content = None\<rparr>"
    by (simp add: decode_ToolsCallResult_def)
  show ?thesis
    using honest_call [where net = sample_net and dec = decode_ToolsCallResult, OF n p d] length_honest by (simp add: sample_client_def max_int64_def)
qed

theorem honest_reply_accepted_witness:
  "call Some sample_net ''tools/call'' None decode_ToolsCallResult sample_client =
    (Inr \<lparr>result_Content = None\<rparr>, sample_client\<lparr>mh_nextID := 1\<rparr>)"
proof -
  let ?t = "json_object []"
  have p: "parses (max_nesting - 1) ?t (JObject [])" "parses max_nesting ?t (JObject [])"
    using parses_empty [of 9998] parses_empty [of 9999] by (simp_all add: max_nesting_def)
  have n: "sample_net (request_of sample_client (mh_nextID sample_client + 1) ''tools/call'' None) =
      Answer 200 (honest_reply (mh_nextID sample_client + 1) ?t) False 0"
    by (simp add: sample_net_def sample_client_def)
  have d: "decode_ToolsCallResult (JObject []) = Some \<lparr>result_Content = None\<rparr>"
    by (simp add: decode_ToolsCallResult_def)
  show ?thesis
    using honest_reply_accepted [where net = sample_net and dec = decode_ToolsCallResult, OF n p d] length_honest by (simp add: sample_client_def max_int64_def)
qed

theorem accepted_reply_witness:
  "\<exists>status body broken ra reply raw.
    sample_net (request_of sample_client 1 ''tools/call'' None) = Answer status body broken ra \<and> 200 \<le> status \<and>
    received_id (rp_ID (reply :: rpcReply)) = Some 1 \<and> rp_JSONRPC reply = ''2.0'' \<and> rp_Error reply = None \<and>
    Option.bind (parse_document raw) decode_ToolsCallResult = Some \<lparr>result_Content = None\<rparr>"
proof -
  have n: "int64 (mh_nextID sample_client + 1) = 1" by (simp add: sample_client_def int64_def)
  have "fst (call Some sample_net ''tools/call'' None decode_ToolsCallResult sample_client) = Inr \<lparr>result_Content = None\<rparr>"
    by (simp add: sample_call)
  from accepted_reply [OF this] show ?thesis unfolding n by blast
qed

theorem replay_rejected_witness:
  "\<exists>raw. fst (call Some sample_net ''tools/list'' None (decode_ToolsListResult Some) (sample_client\<lparr>mh_nextID := 1\<rparr>)) =
    Inl (IdMismatch 2 raw)"
proof -
  let ?c = "sample_client\<lparr>mh_nextID := 1\<rparr>"
  have 1: "fst (call Some sample_net ''tools/call'' None decode_ToolsCallResult sample_client) = Inr \<lparr>result_Content = None\<rparr>"
    by (simp add: sample_call)
  have 2: "sample_net (request_of ?c (mh_nextID ?c + 1) ''tools/list'' None) =
      sample_net (request_of sample_client (mh_nextID sample_client + 1) ''tools/call'' None)"
    by (simp add: sample_net_def)
  show ?thesis
    using replay_rejected [where net = sample_net and net' = sample_net, OF 1 2, of "decode_ToolsListResult Some"] by (simp add: sample_client_def max_int64_def)
qed

end
