(* ===== verification/Gateway.thy ===== *)
theory Gateway
  imports Sessions AuditLogger PolicyEngine GoJsonRead Upstream Auth
begin

text \<open>
  \<open>internal/gateway/gateway.go\<close>: the HTTP handler that puts authentication, sessions, policy, audit and
  the upstream manager together.  The components are reached through their Go interfaces, here the
  record \<open>deps\<close> of operations on a shared state; the gateway's own state is its settings and its session
  table.  A ghost trace records, in order, the calls the gateway makes on its components: on the
  authenticator, and those that can change a component's state.  The two read-only queries, \<open>Ready\<close> of the
  upstream manager (for \<open>GET /readyz\<close>) and \<open>IsToolAllowed\<close> of the policy engine (for each listed tool),
  leave no entry in it.
\<close>

section \<open>The components\<close>

text \<open>
  An upstream error is \<open>ErrNotReady\<close>, or another error given by its text; the error of a tool call comes
  with the \<open>UpstreamID\<close> of the returned \<open>CallResult\<close>, \<open>None\<close> when that is nil.
\<close>

datatype upstream_failure = NotReady | UpstreamError string

record 's deps =
  dp_Authenticate :: "string \<Rightarrow> auth_error + string"
  dp_IsToolAllowed :: "'s \<Rightarrow> string \<Rightarrow> bool"
  dp_Evaluate :: "string \<Rightarrow> ToolsCallRequest \<Rightarrow> 's \<Rightarrow> Decision \<times> 's"
  dp_ToolsList :: "'s \<Rightarrow> (upstream_failure + Tool list) \<times> 's"
  dp_ToolsCall :: "ToolsCallRequest \<Rightarrow> 's \<Rightarrow> (upstream_failure \<times> string option + CallResult) \<times> 's"
  dp_Ready :: "'s \<Rightarrow> bool"
  dp_Log :: "Event \<Rightarrow> 's \<Rightarrow> audit_error option \<times> 's"

datatype effect =
    Authenticated string "auth_error + string"
  | Evaluated string ToolsCallRequest Decision
  | ListedTools "upstream_failure + Tool list"
  | CalledTool ToolsCallRequest "upstream_failure \<times> string option + CallResult"
  | Logged Event "audit_error option"

record 's Gateway =
  gw_requestTimeout :: duration
  gw_maxRequestBytes :: int
  gw_table :: SessionTable
  gw_state :: 's
  gw_trace :: "effect list"

definition note_effect :: "effect \<Rightarrow> 's \<Rightarrow> 's Gateway \<Rightarrow> 's Gateway" where
  "note_effect x s g = g\<lparr>gw_state := s, gw_trace := gw_trace g @ [x]\<rparr>"

definition log_event :: "'s deps \<Rightarrow> Event \<Rightarrow> 's Gateway \<Rightarrow> audit_error option \<times> 's Gateway" where
  "log_event deps e g = (case dp_Log deps e (gw_state g) of (r, s) \<Rightarrow> (r, note_effect (Logged e r) s g))"

definition list_tools :: "'s deps \<Rightarrow> 's Gateway \<Rightarrow> (upstream_failure + Tool list) \<times> 's Gateway" where
  "list_tools deps g = (case dp_ToolsList deps (gw_state g) of (r, s) \<Rightarrow> (r, note_effect (ListedTools r) s g))"

definition call_tool ::
  "'s deps \<Rightarrow> ToolsCallRequest \<Rightarrow> 's Gateway \<Rightarrow> (upstream_failure \<times> string option + CallResult) \<times> 's Gateway" where
  "call_tool deps req g =
     (case dp_ToolsCall deps req (gw_state g) of (r, s) \<Rightarrow> (r, note_effect (CalledTool req r) s g))"

definition evaluate_policy ::
  "'s deps \<Rightarrow> string \<Rightarrow> ToolsCallRequest \<Rightarrow> 's Gateway \<Rightarrow> Decision \<times> 's Gateway" where
  "evaluate_policy deps clientID req g =
     (case dp_Evaluate deps clientID req (gw_state g) of (d, s) \<Rightarrow> (d, note_effect (Evaluated clientID req d) s g))"

definition authenticate :: "'s deps \<Rightarrow> string \<Rightarrow> 's Gateway \<Rightarrow> (auth_error + string) \<times> 's Gateway" where
  "authenticate deps header g =
     (let r = dp_Authenticate deps header in (r, note_effect (Authenticated header r) (gw_state g) g))"

text \<open>What one request reads from the clock, the random generator and Go's map iteration.\<close>

record readings =
  rd_event :: instant
  rd_resolve :: instant
  rd_evict :: instant
  rd_bind :: instant
  rd_since :: duration
  rd_uuid :: string
  rd_order :: "nat \<Rightarrow> ord_fn"

section \<open>Construction\<close>

record gateway_config =
  gc_RequestTimeout :: duration
  gc_MaxRequestBytes :: int
  gc_SessionTTL :: duration
  gc_SessionMaxEntries :: int

datatype gateway_config_error =
    GwRequestTimeoutNotPositive
  | GwMaxRequestBytesNotPositive
  | GwSessionTTLNotPositive
  | GwSessionMaxEntriesNotPositive

definition validateConfig :: "gateway_config \<Rightarrow> gateway_config_error option" where
  "validateConfig cfg =
     (if gc_RequestTimeout cfg \<le> 0 then Some GwRequestTimeoutNotPositive
      else if gc_MaxRequestBytes cfg \<le> 0 then Some GwMaxRequestBytesNotPositive
      else if gc_SessionTTL cfg \<le> 0 then Some GwSessionTTLNotPositive
      else if gc_SessionMaxEntries cfg \<le> 0 then Some GwSessionMaxEntriesNotPositive
      else None)"

definition NewGateway :: "'s \<Rightarrow> gateway_config \<Rightarrow> gateway_config_error + 's Gateway" where
  "NewGateway s cfg =
     (case validateConfig cfg of
        Some err \<Rightarrow> Inl err
      | None \<Rightarrow> Inr \<lparr>gw_requestTimeout = gc_RequestTimeout cfg, gw_maxRequestBytes = gc_MaxRequestBytes cfg,
          gw_table = \<lparr>st_clients = [], st_ttl = gc_SessionTTL cfg, st_max = gc_SessionMaxEntries cfg, st_metrics = None\<rparr>,
          gw_state = s, gw_trace = []\<rparr>)"

definition gateway_SetMetrics :: "Registry option \<Rightarrow> 's Gateway \<Rightarrow> 's Gateway" where
  "gateway_SetMetrics r g =
     g\<lparr>gw_table := (gw_table g)\<lparr>st_metrics :=
        map_option (SetActiveSessions (length (st_clients (gw_table g)))) r\<rparr>\<rparr>"

definition SetMaxRequestBytes :: "int \<Rightarrow> 's Gateway \<Rightarrow> 's Gateway" where
  "SetMaxRequestBytes n g = (if n > 0 then g\<lparr>gw_maxRequestBytes := n\<rparr> else g)"

definition gateway_SetSessionConfig :: "duration \<Rightarrow> int \<Rightarrow> 's Gateway \<Rightarrow> 's Gateway" where
  "gateway_SetSessionConfig ttl maxEntries g = g\<lparr>gw_table := SetSessionConfig ttl maxEntries (gw_table g)\<rparr>"

text \<open>A metric of the gateway, when metrics are wired.\<close>

definition count :: "(Registry \<Rightarrow> Registry) \<Rightarrow> 's Gateway \<Rightarrow> 's Gateway" where
  "count f g = g\<lparr>gw_table := (gw_table g)\<lparr>st_metrics := if_metrics f (st_metrics (gw_table g))\<rparr>\<rparr>"

definition resolve :: "readings \<Rightarrow> string \<Rightarrow> string \<Rightarrow> 's Gateway \<Rightarrow> (sessionError + string) \<times> 's Gateway" where
  "resolve rd sid clientID g =
     (case resolveSession (rd_resolve rd) sid clientID (gw_table g) of (r, t) \<Rightarrow> (r, g\<lparr>gw_table := t\<rparr>))"

section \<open>Responses\<close>

datatype response_body = NoBody | JsonBody Response | MetricsBody | NotFoundBody

text \<open>A status of 200 is written with the body when the handler does not write one.\<close>

record http_response =
  hr_status :: int
  hr_session :: "string option"
  hr_body :: response_body

definition httpStatusForCode :: "int \<Rightarrow> int" where
  "httpStatusForCode code =
     (if code = CodeParseError \<or> code = CodeInvalidRequest \<or> code = CodeInvalidParams then 400
      else if code = CodeMethodNotFound then 404
      else if code = CodeUnauthorized then 401
      else if code = CodeRateLimited then 429
      else if code = CodeServerError then 500
      else 200)"

definition id_text :: "RawMessage option \<Rightarrow> RawMessage" where
  "id_text i = (case i of None \<Rightarrow> ''null'' | Some t \<Rightarrow> t)"

text \<open>\<open>hdr\<close> is the session header that has been set before.\<close>

definition writeResult :: "string option \<Rightarrow> RawMessage option \<Rightarrow> payload \<Rightarrow> http_response" where
  "writeResult hdr i result = \<lparr>hr_status = 200, hr_session = hdr,
     hr_body = JsonBody \<lparr>resp_JSONRPC = ''2.0'', resp_ID = id_text i, resp_Result = Some result, resp_Error = None\<rparr>\<rparr>"

definition writeErrorStatus :: "string option \<Rightarrow> RawMessage option \<Rightarrow> int \<Rightarrow> int \<Rightarrow> string \<Rightarrow> http_response" where
  "writeErrorStatus hdr i status code msg = \<lparr>hr_status = status, hr_session = hdr,
     hr_body = JsonBody \<lparr>resp_JSONRPC = ''2.0'', resp_ID = id_text i, resp_Result = None,
       resp_Error = Some \<lparr>err_Code = code, err_Message = msg, err_Data = None\<rparr>\<rparr>\<rparr>"

definition writeError :: "string option \<Rightarrow> RawMessage option \<Rightarrow> int \<Rightarrow> string \<Rightarrow> http_response" where
  "writeError hdr i code msg = writeErrorStatus hdr i (httpStatusForCode code) code msg"

definition writeErrorWithData ::
  "string option \<Rightarrow> RawMessage option \<Rightarrow> int \<Rightarrow> string \<Rightarrow> (string \<times> any) list \<Rightarrow> http_response" where
  "writeErrorWithData hdr i code msg data = \<lparr>hr_status = httpStatusForCode code, hr_session = hdr,
     hr_body = JsonBody \<lparr>resp_JSONRPC = ''2.0'', resp_ID = id_text i, resp_Result = None,
       resp_Error = Some \<lparr>err_Code = code, err_Message = msg, err_Data = Some data\<rparr>\<rparr>\<rparr>"

definition status_only :: "int \<Rightarrow> http_response" where
  "status_only status = \<lparr>hr_status = status, hr_session = None, hr_body = NoBody\<rparr>"

definition normalizedError :: "int \<Rightarrow> string \<Rightarrow> (string \<times> any) list \<Rightarrow> AuditError" where
  "normalizedError code msg data = \<lparr>ae_Code = code, ae_Message = msg, ae_Data = Some (AMap data)\<rparr>"

definition audit_failed :: "string option \<Rightarrow> RawMessage option \<Rightarrow> http_response" where
  "audit_failed hdr i = writeError hdr i CodeServerError ''audit logging failed''"

section \<open>Audit events\<close>

text \<open>The fields every event of the gateway sets; the rest are zero values.\<close>

definition new_event :: "instant \<Rightarrow> string \<Rightarrow> string \<Rightarrow> string \<Rightarrow> string \<Rightarrow> string \<Rightarrow> Event" where
  "new_event now action decision clientID requestID sessionID =
     \<lparr>ev_Timestamp = Some now, ev_Action = action, ev_Tool = '''', ev_Decision = decision, ev_Reason = '''',
      ev_PolicyRule = '''', ev_ClientID = clientID, ev_RequestID = requestID, ev_Duration = 0, ev_Error = None,
      ev_EventID = None, ev_TraceID = '''', ev_SpanID = '''', ev_SessionID = sessionID, ev_UpstreamID = ''gateway'',
      ev_Arguments = [], ev_Response = None\<rparr>"

text \<open>\<open>string(req.ID)\<close>, empty for a nil id.\<close>

definition request_id :: "Request \<Rightarrow> string" where
  "request_id req = (case req_ID req of None \<Rightarrow> '''' | Some t \<Rightarrow> t)"

definition logSessionReject ::
  "'s deps \<Rightarrow> readings \<Rightarrow> Request \<Rightarrow> string \<Rightarrow> string \<Rightarrow> sessionError \<Rightarrow> 's Gateway \<Rightarrow> audit_error option \<times> 's Gateway" where
  "logSessionReject deps rd req clientID sid err g =
     log_event deps
       ((new_event (rd_event rd) (req_Method req) ''deny'' clientID (request_id req) sid)
        \<lparr>ev_Error := Some (normalizedError (sessErr_code err) (sessErr_message err)
           [(''requested_session_id'', AString sid)])\<rparr>) g"

section \<open>The handlers\<close>

definition gateway_result :: InitializeResult where
  "gateway_result = \<lparr>ir_ProtocolVersion = ''2024-11-05'',
     ir_ServerInfo = \<lparr>si_Name = ''mcpshield'', si_Version = ''0.1.0''\<rparr>\<rparr>"

definition handleInitialize ::
  "'s deps \<Rightarrow> readings \<Rightarrow> Request \<Rightarrow> string \<Rightarrow> string \<Rightarrow> 's Gateway \<Rightarrow> http_response \<times> 's Gateway" where
  "handleInitialize deps rd req clientID sessionID g =
     (case log_event deps
         ((new_event (rd_event rd) ''initialize'' ''allow'' clientID (request_id req) sessionID)
          \<lparr>ev_Response := Some (PInitialize gateway_result)\<rparr>) g of
        (Some err, g1) \<Rightarrow> (audit_failed None (req_ID req), g1)
      | (None, g1) \<Rightarrow>
          (writeResult (Some sessionID) (req_ID req) (PInitialize gateway_result),
           g1\<lparr>gw_table := bindSession (rd_order rd) (rd_evict rd) (rd_bind rd) sessionID clientID (gw_table g1)\<rparr>))"

text \<open>The message, status and audit data of an upstream failure, for both methods.\<close>

definition failure_parts :: "upstream_failure \<Rightarrow> string \<times> int \<times> (string \<times> any) list" where
  "failure_parts err =
     (case err of
        NotReady \<Rightarrow> (''gateway not ready'', 503, [(''reason'', AString ''not_ready'')])
      | UpstreamError cause \<Rightarrow> (''upstream error'', 500, [(''cause'', AString cause)]))"

definition handleToolsList ::
  "'s deps \<Rightarrow> readings \<Rightarrow> Request \<Rightarrow> string \<Rightarrow> string \<Rightarrow> 's Gateway \<Rightarrow> http_response \<times> 's Gateway" where
  "handleToolsList deps rd req clientID sessionID g =
     (let event = (new_event (rd_event rd) ''tools/list'' ''allow'' clientID (request_id req) sessionID)
            \<lparr>ev_Duration := rd_since rd\<rparr>;
          hdr = Some sessionID in
      case list_tools deps g of
        (Inl err, g1) \<Rightarrow>
          (case failure_parts err of (msg, status, errData) \<Rightarrow>
             (case log_event deps (event\<lparr>ev_Error := Some (normalizedError CodeServerError msg errData)\<rparr>) g1 of
                (Some x, g2) \<Rightarrow> (audit_failed hdr (req_ID req), g2)
              | (None, g2) \<Rightarrow> (writeErrorStatus hdr (req_ID req) status CodeServerError msg, g2)))
      | (Inr tools, g1) \<Rightarrow>
          (let allowed = filter (\<lambda>t. dp_IsToolAllowed deps (gw_state g1) (tool_Name t)) tools in
           case log_event deps (event\<lparr>ev_Response := Some (PToolsList allowed)\<rparr>) g1 of
             (Some x, g2) \<Rightarrow> (audit_failed hdr (req_ID req), g2)
           | (None, g2) \<Rightarrow> (writeResult hdr (req_ID req) (PToolsList allowed),
               count (IncRequest (req_Method req) '''' ''allow'') g2)))"

text \<open>Phases of \<open>handleToolsCall\<close>: the parameters, a denied call, a permitted call.\<close>

definition call_params :: "num_fn \<Rightarrow> Request \<Rightarrow> ToolsCallRequest option" where
  "call_params num req =
     (case req_Params req of
        None \<Rightarrow> Some \<lparr>call_Name = '''', call_Arguments = []\<rparr>
      | Some raw \<Rightarrow>
        if length raw > 0 then Option.bind (parse_document raw) (decode_ToolsCallRequest num)
        else Some \<lparr>call_Name = '''', call_Arguments = []\<rparr>)"

definition call_event :: "readings \<Rightarrow> Request \<Rightarrow> string \<Rightarrow> string \<Rightarrow> ToolsCallRequest \<Rightarrow> Decision \<Rightarrow> Event" where
  "call_event rd req clientID sessionID callReq d =
     (new_event (rd_event rd) ''tools/call'' (dec_Action d) clientID (request_id req) sessionID)
     \<lparr>ev_Tool := call_Name callReq, ev_Reason := dec_Reason d, ev_PolicyRule := dec_Rule d,
      ev_Arguments := call_Arguments callReq\<rparr>"

definition limit_data :: "Decision \<Rightarrow> (string \<times> any) list" where
  "limit_data d = [(''rule'', AString (dec_Rule d)), (''reason'', AString (dec_Reason d)),
     (''retry_after_ms'', ANumber (show_int (dec_RetryAfterMs d)))]"

definition deny_data :: "Decision \<Rightarrow> (string \<times> any) list" where
  "deny_data d = [(''rule'', AString (dec_Rule d)), (''reason'', AString (dec_Reason d))]"

definition denied_call ::
  "'s deps \<Rightarrow> readings \<Rightarrow> Request \<Rightarrow> string \<Rightarrow> string \<Rightarrow> ToolsCallRequest \<Rightarrow> Decision \<Rightarrow> 's Gateway
   \<Rightarrow> http_response \<times> 's Gateway" where
  "denied_call deps rd req clientID sessionID callReq d g =
     (let event = (call_event rd req clientID sessionID callReq d)\<lparr>ev_Duration := rd_since rd\<rparr>; hdr = Some sessionID in
      if dec_RateLimited d then
        (case log_event deps (event\<lparr>ev_Error := Some (normalizedError CodeRateLimited ''rate limited'' (limit_data d))\<rparr>) g of
           (Some x, g1) \<Rightarrow> (audit_failed hdr (req_ID req), g1)
         | (None, g1) \<Rightarrow> (writeErrorWithData hdr (req_ID req) CodeRateLimited ''rate limited'' (limit_data d),
             count (IncRequest (req_Method req) (call_Name callReq) ''deny'')
               (count (IncRateLimitHit (call_Name callReq) clientID) g1)))
      else
        (case log_event deps (event\<lparr>ev_Error := Some (normalizedError CodePolicyDenied ''policy denied'' (deny_data d))\<rparr>) g of
           (Some x, g1) \<Rightarrow> (audit_failed hdr (req_ID req), g1)
         | (None, g1) \<Rightarrow> (writeErrorWithData hdr (req_ID req) CodePolicyDenied ''policy denied'' (deny_data d),
             count (IncRequest (req_Method req) (call_Name callReq) ''deny'') (count (IncPolicyDeny (dec_Rule d)) g1))))"

definition permitted_call ::
  "'s deps \<Rightarrow> readings \<Rightarrow> Request \<Rightarrow> string \<Rightarrow> string \<Rightarrow> ToolsCallRequest \<Rightarrow> Decision \<Rightarrow> 's Gateway
   \<Rightarrow> http_response \<times> 's Gateway" where
  "permitted_call deps rd req clientID sessionID callReq d g =
     (let event = (call_event rd req clientID sessionID callReq d)\<lparr>ev_Duration := rd_since rd\<rparr>; hdr = Some sessionID in
      case call_tool deps callReq g of
        (Inl (err, up), g1) \<Rightarrow>
          (let event1 = (case up of Some u \<Rightarrow> if u \<noteq> '''' then event\<lparr>ev_UpstreamID := u\<rparr> else event | None \<Rightarrow> event) in
           case failure_parts err of (msg, status, errData) \<Rightarrow>
             (case log_event deps (event1\<lparr>ev_Error := Some (normalizedError CodeServerError msg errData)\<rparr>) g1 of
                (Some x, g2) \<Rightarrow> (audit_failed hdr (req_ID req), g2)
              | (None, g2) \<Rightarrow> (writeErrorStatus hdr (req_ID req) status CodeServerError msg, g2)))
      | (Inr r, g1) \<Rightarrow>
          (case log_event deps (event\<lparr>ev_UpstreamID := cr_UpstreamID r, ev_Response := Some (PToolsCall (cr_Result r))\<rparr>) g1 of
             (Some x, g2) \<Rightarrow> (audit_failed hdr (req_ID req), g2)
           | (None, g2) \<Rightarrow> (writeResult hdr (req_ID req) (PToolsCall (cr_Result r)),
               count (IncRequest (req_Method req) (call_Name callReq) ''allow'') g2)))"

definition handleToolsCall ::
  "num_fn \<Rightarrow> 's deps \<Rightarrow> readings \<Rightarrow> Request \<Rightarrow> string \<Rightarrow> string \<Rightarrow> 's Gateway \<Rightarrow> http_response \<times> 's Gateway" where
  "handleToolsCall num deps rd req clientID sessionID g =
     (let hdr = Some sessionID in
      case call_params num req of
        None \<Rightarrow> (writeError hdr (req_ID req) CodeInvalidParams ''invalid params'', g)
      | Some callReq \<Rightarrow>
        if call_Name callReq = '''' then
          (writeError hdr (req_ID req) CodeInvalidParams ''invalid params: name required'', g)
        else (case evaluate_policy deps clientID callReq g of (d, g1) \<Rightarrow>
            if dec_Action d = ''deny'' then denied_call deps rd req clientID sessionID callReq d g1
            else permitted_call deps rd req clientID sessionID callReq d g1))"

section \<open>ServeHTTP\<close>

record http_in =
  hi_Method :: string
  hi_Path :: string
  hi_Authorization :: string
  hi_Session :: string
  hi_Body :: string
  hi_broken :: bool

definition firstNonSpace :: "string \<Rightarrow> char" where
  "firstNonSpace b = (case dropWhile is_ws b of [] \<Rightarrow> CHR 0x00 | c # cs \<Rightarrow> c)"

definition valid_id :: "RawMessage option \<Rightarrow> bool" where
  "valid_id i =
     (case i of
        None \<Rightarrow> True
      | Some raw \<Rightarrow> let first = firstNonSpace raw
          in first = dquote \<or> first = CHR ''n'' \<or> first = CHR ''-'' \<or> is_digit first)"

definition too_large_response :: http_response where
  "too_large_response = writeErrorStatus None (Some NullID) 413 CodeInvalidRequest ''request body too large''"

definition null_error :: "int \<Rightarrow> string \<Rightarrow> http_response" where
  "null_error code msg = writeError None (Some NullID) code msg"

text \<open>Reading the body and the three phases of decoding: the response of a refusal, or the request.\<close>

definition parse_body :: "string \<Rightarrow> http_response + Request" where
  "parse_body body =
     (if body = '''' then Inl (null_error CodeParseError ''empty body'')
      else case parse_value max_nesting (skip body) of
        None \<Rightarrow> Inl (null_error CodeParseError ''parse error'')
      | Some (v, rest) \<Rightarrow>
        if skip rest \<noteq> '''' then Inl (null_error CodeParseError ''trailing data after JSON object'')
        else (case v of
            JArray vs \<Rightarrow> Inl (null_error CodeInvalidRequest ''batch not supported'')
          | JObject ms \<Rightarrow>
              (case decode_Request v of
                 None \<Rightarrow> Inl (null_error CodeParseError ''parse error'')
               | Some req \<Rightarrow>
                 if req_JSONRPC req \<noteq> ''2.0'' \<or> req_Method req = '''' then
                   Inl (writeError None (req_ID req) CodeInvalidRequest ''invalid request'')
                 else if \<not> valid_id (req_ID req) then Inl (null_error CodeInvalidRequest ''invalid id type'')
                 else Inr req)
          | _ \<Rightarrow> Inl (null_error CodeInvalidRequest ''invalid request'')))"

definition read_request :: "int \<Rightarrow> http_in \<Rightarrow> http_response + Request" where
  "read_request limit r =
     (if int (length (hi_Body r)) > limit then Inl too_large_response
      else if hi_broken r then Inl (null_error CodeParseError ''read error'')
      else parse_body (TrimSpace (hi_Body r)))"

text \<open>A notification of an authenticated client; it never has a body.\<close>

definition serve_notification ::
  "'s deps \<Rightarrow> readings \<Rightarrow> http_in \<Rightarrow> Request \<Rightarrow> string \<Rightarrow> 's Gateway \<Rightarrow> http_response \<times> 's Gateway" where
  "serve_notification deps rd r req clientID g =
     (if req_Method req = ''notifications/initialized'' \<and> hi_Session r \<noteq> '''' then
        (case resolve rd (hi_Session r) clientID g of
           (Inl err, g1) \<Rightarrow>
             (case logSessionReject deps rd req clientID (hi_Session r) err g1 of
                (Some x, g2) \<Rightarrow> (status_only 500, g2)
              | (None, g2) \<Rightarrow> (status_only (httpStatusForCode (sessErr_code err)), g2))
         | (Inr sid, g1) \<Rightarrow>
             (case log_event deps (new_event (rd_event rd) (req_Method req) ''allow'' clientID '''' sid) g1 of
                (Some x, g2) \<Rightarrow> (status_only 500, g2)
              | (None, g2) \<Rightarrow> (status_only 204, g2)))
      else (status_only 204, g))"

text \<open>The session of a request, then the handler.\<close>

definition with_session ::
  "'s deps \<Rightarrow> readings \<Rightarrow> http_in \<Rightarrow> Request \<Rightarrow> string \<Rightarrow> (string \<Rightarrow> 's Gateway \<Rightarrow> http_response \<times> 's Gateway)
   \<Rightarrow> 's Gateway \<Rightarrow> http_response \<times> 's Gateway" where
  "with_session deps rd r req clientID handler g =
     (case resolve rd (hi_Session r) clientID g of
        (Inl err, g1) \<Rightarrow>
          (case logSessionReject deps rd req clientID (hi_Session r) err g1 of
             (Some x, g2) \<Rightarrow> (audit_failed None (req_ID req), g2)
           | (None, g2) \<Rightarrow> (writeError None (req_ID req) (sessErr_code err) (sessErr_message err), g2))
      | (Inr sid, g1) \<Rightarrow> handler sid g1)"

definition dispatch ::
  "num_fn \<Rightarrow> 's deps \<Rightarrow> readings \<Rightarrow> http_in \<Rightarrow> Request \<Rightarrow> string \<Rightarrow> 's Gateway \<Rightarrow> http_response \<times> 's Gateway" where
  "dispatch num deps rd r req clientID g =
     (if req_Method req = ''initialize'' then handleInitialize deps rd req clientID (rd_uuid rd) g
      else if req_Method req = ''tools/list'' then
        with_session deps rd r req clientID (handleToolsList deps rd req clientID) g
      else if req_Method req = ''tools/call'' then
        with_session deps rd r req clientID (handleToolsCall num deps rd req clientID) g
      else (writeError None (req_ID req) CodeMethodNotFound ''method not found'', g))"

definition serve_rpc ::
  "num_fn \<Rightarrow> 's deps \<Rightarrow> readings \<Rightarrow> http_in \<Rightarrow> 's Gateway \<Rightarrow> http_response \<times> 's Gateway" where
  "serve_rpc num deps rd r g =
     (case read_request (gw_maxRequestBytes g) r of
        Inl resp \<Rightarrow> (resp, g)
      | Inr req \<Rightarrow>
        (case authenticate deps (hi_Authorization r) g of
           (Inl err, g1) \<Rightarrow>
             (if req_ID req = None then status_only 401
              else writeError None (req_ID req) CodeUnauthorized ''unauthorized'', g1)
         | (Inr clientID, g1) \<Rightarrow>
             if req_ID req = None then serve_notification deps rd r req clientID g1
             else dispatch num deps rd r req clientID g1))"

definition ServeHTTP ::
  "num_fn \<Rightarrow> 's deps \<Rightarrow> readings \<Rightarrow> http_in \<Rightarrow> 's Gateway \<Rightarrow> http_response \<times> 's Gateway" where
  "ServeHTTP num deps rd r g =
     (if hi_Method r = ''GET'' \<and> hi_Path r = ''/metrics'' then
        (if st_metrics (gw_table g) \<noteq> None
         then (\<lparr>hr_status = 200, hr_session = None, hr_body = MetricsBody\<rparr>, g)
         else (\<lparr>hr_status = 404, hr_session = None, hr_body = NotFoundBody\<rparr>, g))
      else if hi_Method r = ''GET'' \<and> hi_Path r = ''/readyz'' then
        (status_only (if dp_Ready deps (gw_state g) then 200 else 503), g)
      else serve_rpc num deps rd r g)"

end
