(* ===== verification/GatewayParse.thy ===== *)
theory GatewayParse
  imports Gateway Transport
begin

text \<open>
  What the parsing phases of \<open>internal/gateway/gateway.go\<close> accept: the request text that a client of
  the protocol, such as \<open>transport.MCPHTTPClient\<close>, sends is read as the request it encodes.
\<close>

section \<open>White space around a request\<close>

lemma cut_any_None: "cut_any ps s = None \<longleftrightarrow> (\<forall>p \<in> set ps. CutPrefix s p = None)"
  by (induction ps) (auto split: option.splits)

lemma CutPrefix_hd: "p \<noteq> '''' \<Longrightarrow> hd p \<noteq> c \<Longrightarrow> CutPrefix (c # s) p = None"
  by (cases p) auto

lemma trim_left_hd: "\<forall>p \<in> set ps. p \<noteq> '''' \<and> hd p \<noteq> c \<Longrightarrow> trim_left ps (c # s) = c # s"
  using cut_any_None [of ps "c # s"] CutPrefix_hd by (simp add: trim_left.simps [of ps "c # s"])

lemma upt_11: "[0..<11] = [0, 1, 2, 3, 4, 5, 6, 7, 8, 9, 10]"
  by (simp add: upt_rec numeral_eq_Suc)

lemma space_runes_left: "\<forall>p \<in> set space_runes. p \<noteq> '''' \<and> hd p \<noteq> CHR 0x7B"
  unfolding space_runes_def by (simp add: image_iff)

lemma space_runes_right: "\<forall>p \<in> set (map rev space_runes). p \<noteq> '''' \<and> hd p \<noteq> CHR 0x7D"
  unfolding space_runes_def upt_11 by (simp add: char_of_def bit_numeral_rec)

lemma TrimSpace_object: "TrimSpace (json_object kvs) = json_object kvs"
proof -
  have l: "trim_left space_runes (json_object kvs) = json_object kvs"
    using trim_left_hd [OF space_runes_left] by (simp add: json_object_def)
  have "trim_left (map rev space_runes) (rev (json_object kvs)) = rev (json_object kvs)"
    using trim_left_hd [OF space_runes_right] by (simp add: json_object_def)
  then show ?thesis by (simp add: TrimSpace_def l)
qed

section \<open>The text of a request\<close>

definition params_ok :: "RawMessage option \<Rightarrow> bool" where
  "params_ok params \<longleftrightarrow> (case params of None \<Rightarrow> True | Some p \<Rightarrow> p \<noteq> '''' \<and> (\<exists>v. parses (max_nesting - 1) p v))"

definition request_json :: "int \<Rightarrow> string \<Rightarrow> (string \<times> json) option \<Rightarrow> json" where
  "request_json n meth params = JObject
     ([(''jsonrpc'', quote ''2.0'', JString ''2.0''), (''id'', show_int n, JNumber (show_int n)),
       (''method'', quote meth, JString meth)] @
      (case params of None \<Rightarrow> [] | Some (p, v) \<Rightarrow> [(''params'', p, v)]))"

lemma parses_envelope:
  assumes "valid_utf8 meth" and "case params of None \<Rightarrow> pv = None | Some p \<Rightarrow> p \<noteq> '''' \<and> (\<exists>v. pv = Some (p, v) \<and> parses d p v)"
  shows "parses (Suc d) (marshal_envelope n meth params) (request_json n meth pv)"
proof (cases params)
  case None
  have "list_all2 (\<lambda>(k, t) v. valid_utf8 k \<and> parses d t v)
      [(''jsonrpc'', quote ''2.0''), (''id'', show_int n), (''method'', quote meth)]
      [JString ''2.0'', JNumber (show_int n), JString meth]"
    using assms(1) by (simp add: parses_string parses_number_text ascii_valid)
  from parses_object [OF this] None assms(2) show ?thesis by (simp add: marshal_envelope_def request_json_def)
next
  case (Some p)
  then obtain v where v: "pv = Some (p, v)" "parses d p v" and "p \<noteq> ''''" using assms(2) by auto
  have "list_all2 (\<lambda>(k, t) v. valid_utf8 k \<and> parses d t v)
      [(''jsonrpc'', quote ''2.0''), (''id'', show_int n), (''method'', quote meth), (''params'', p)]
      [JString ''2.0'', JNumber (show_int n), JString meth, v]"
    using assms(1) v by (simp add: parses_string parses_number_text ascii_valid)
  from parses_object [OF this] Some v \<open>p \<noteq> ''''\<close> show ?thesis by (simp add: marshal_envelope_def request_json_def)
qed

lemma decode_request_json:
  "decode_Request (request_json n meth pv) =
    Some \<lparr>req_JSONRPC = ''2.0'', req_ID = Some (show_int n), req_Method = meth, req_Params = map_option fst pv\<rparr>"
  by (cases pv) (auto simp: decode_Request_def request_json_def field_matches_def into_string_def)

lemma number_first: "number_text t \<Longrightarrow> valid_id (Some t)"
proof -
  assume "number_text t"
  from number_text_hd [OF this] obtain c cs where t: "t = c # cs" and c: "c = CHR ''-'' \<or> is_digit c" by (cases t) auto
  then have "\<not> is_ws c" by (auto simp: is_ws_def is_digit_def less_eq_char_def)
  then show ?thesis using c by (auto simp: t valid_id_def firstNonSpace_def Let_def)
qed

lemma read_envelope:
  assumes "valid_utf8 meth" and "meth \<noteq> ''''" and "params_ok params"
    and "hi_Body r = marshal_envelope n meth params" and "\<not> hi_broken r" and "int (length (hi_Body r)) \<le> limit"
  shows "read_request limit r =
    Inr \<lparr>req_JSONRPC = ''2.0'', req_ID = Some (show_int n), req_Method = meth, req_Params = params\<rparr>"
proof -
  obtain pv where pv: "case params of None \<Rightarrow> pv = None
      | Some p \<Rightarrow> p \<noteq> '''' \<and> (\<exists>v. pv = Some (p, v) \<and> parses (max_nesting - 1) p v)"
    using assms(3) by (auto simp: params_ok_def split: option.splits)
  then have fst: "map_option fst pv = params" by (auto split: option.splits)
  let ?t = "marshal_envelope n meth params"
  have p: "parses max_nesting ?t (request_json n meth pv)"
    using parses_envelope [OF assms(1) pv] by (simp add: max_nesting_def flip: numeral_eq_Suc)
  have t: "TrimSpace ?t = ?t" by (simp add: marshal_envelope_def TrimSpace_object)
  have "?t \<noteq> ''''" by (simp add: marshal_envelope_def json_object_def)
  moreover have "parse_value max_nesting (skip ?t) = Some (request_json n meth pv, '''')"
    using parses_value [OF p, of "''''"] skip_parses [OF p, of "''''"] by simp
  moreover have "request_json n meth pv = JObject ms \<Longrightarrow> decode_Request (JObject ms) =
      Some \<lparr>req_JSONRPC = ''2.0'', req_ID = Some (show_int n), req_Method = meth, req_Params = params\<rparr>" for ms
    using decode_request_json [of n meth pv] fst by simp
  moreover have "valid_id (Some (show_int n))" by (intro number_first) simp
  ultimately show ?thesis
    using assms(2,4-6) t
    by (simp add: read_request_def parse_body_def) (simp add: request_json_def skip_def)
qed

section \<open>The parameters of a call\<close>

definition canon_call :: "ToolsCallRequest \<Rightarrow> ToolsCallRequest" where
  "canon_call q = q\<lparr>call_Arguments := sort_key fst (canon_pairs (call_Arguments q))\<rparr>"

definition call_ok :: "num_fn \<Rightarrow> ToolsCallRequest \<Rightarrow> bool" where
  "call_ok num q \<longleftrightarrow> valid_utf8 (call_Name q) \<and> any_ok num (AMap (call_Arguments q)) \<and>
     depth (AMap (call_Arguments q)) < max_nesting - 1"

definition call_json :: "ToolsCallRequest \<Rightarrow> json" where
  "call_json q = JObject ((''name'', quote (call_Name q), JString (call_Name q)) #
     (if call_Arguments q = [] then []
      else [(''arguments'', marshal_any (AMap (call_Arguments q)), json_of (AMap (call_Arguments q)))]))"

lemma parses_call:
  assumes "call_ok num q" and "max_nesting - 1 \<le> d"
  shows "parses d (marshal_ToolsCallRequest q) (call_json q)"
proof -
  obtain d' where d: "d = Suc d'" "depth (AMap (call_Arguments q)) \<le> d'"
    using assms by (cases d) (auto simp: call_ok_def max_nesting_def)
  show ?thesis
  proof (cases "call_Arguments q = []")
    case True
    have "list_all2 (\<lambda>(k, t) v. valid_utf8 k \<and> parses d' t v) [(''name'', quote (call_Name q))] [JString (call_Name q)]"
      using assms(1) by (simp add: parses_string ascii_valid call_ok_def)
    from parses_object [OF this] show ?thesis by (simp add: True d marshal_ToolsCallRequest_def call_json_def)
  next
    case False
    have "parses d' (marshal_any (AMap (call_Arguments q))) (json_of (AMap (call_Arguments q)))"
      using assms(1) d(2) by (intro parses_any) (auto simp: call_ok_def)
    then have "list_all2 (\<lambda>(k, t) v. valid_utf8 k \<and> parses d' t v)
        [(''name'', quote (call_Name q)), (''arguments'', marshal_any (AMap (call_Arguments q)))]
        [JString (call_Name q), json_of (AMap (call_Arguments q))]"
      using assms(1) by (simp add: parses_string ascii_valid call_ok_def)
    from parses_object [OF this] False show ?thesis
      by (simp add: d marshal_ToolsCallRequest_def call_json_def marshal_map_def)
  qed
qed

lemma decode_call:
  assumes "call_ok num q"
  shows "decode_ToolsCallRequest num (call_json q) = Some (canon_call q)"
proof -
  have "to_any num (json_of (AMap (call_Arguments q))) = Some (canon (AMap (call_Arguments q)))"
    using assms by (intro to_any_canon) (simp add: call_ok_def)
  then show ?thesis
    by (auto simp: decode_ToolsCallRequest_def call_json_def field_matches_def into_string_def into_map_def canon_call_def)
qed

lemma call_params_round:
  assumes "call_ok num q" and "req_Params req = Some (marshal_ToolsCallRequest q)"
  shows "call_params num req = Some (canon_call q)"
proof -
  have p: "parses max_nesting (marshal_ToolsCallRequest q) (call_json q)"
    using assms(1) by (rule parses_call) simp
  then have "marshal_ToolsCallRequest q \<noteq> ''''" by (simp add: parses_def)
  then show ?thesis
    using assms(2) parses_document [OF p] decode_call [OF assms(1)] by (simp add: call_params_def)
qed

section \<open>Property\<close>

lemma call_request_read:
  assumes "call_ok num q" and "hi_Body r = marshal_envelope n ''tools/call'' (Some (marshal_ToolsCallRequest q))"
    and "\<not> hi_broken r" and "int (length (hi_Body r)) \<le> limit"
  shows "read_request limit r = Inr \<lparr>req_JSONRPC = ''2.0'', req_ID = Some (show_int n), req_Method = ''tools/call'',
    req_Params = Some (marshal_ToolsCallRequest q)\<rparr>"
proof -
  have p: "parses (max_nesting - 1) (marshal_ToolsCallRequest q) (call_json q)"
    using assms(1) by (rule parses_call) simp
  then have "marshal_ToolsCallRequest q \<noteq> ''''" by (simp add: parses_def)
  with p show ?thesis
    by (intro read_envelope [OF _ _ _ assms(2-4)]) (auto simp: params_ok_def intro!: ascii_valid)
qed

text \<open>
  C14: The gateway understands its clients.  The text that \<open>MCPHTTPClient\<close> sends for a tool call (the
  program's own client of the protocol, so a gateway can be the upstream of another) is read, within
  the body limit, as a valid request with that call's identifier, and its parameters decode to the
  call, with the members of argument maps in key order.  The conditions on the call are valid UTF-8,
  numbers as the encoder prints them, and nesting within the decoder's limit.
\<close>

theorem call_understood:
  assumes "call_ok num q" and "hi_Body r = marshal_envelope n ''tools/call'' (Some (marshal_ToolsCallRequest q))"
    and "\<not> hi_broken r" and "int (length (hi_Body r)) \<le> limit"
  shows "\<exists>req. read_request limit r = Inr req \<and> req_ID req = Some (show_int n) \<and> req_Method req = ''tools/call'' \<and>
    call_params num req = Some (canon_call q)"
  using call_request_read [OF assms] call_params_round [OF assms(1)] by simp

definition sample_call_req :: ToolsCallRequest where
  "sample_call_req = \<lparr>call_Name = ''u.t'', call_Arguments = [(''b'', ABool True), (''a'', ANil)]\<rparr>"

definition post :: "string \<Rightarrow> string \<Rightarrow> string \<Rightarrow> http_in" where
  "post auth sid body = \<lparr>hi_Method = ''POST'', hi_Path = ''/'', hi_Authorization = auth, hi_Session = sid,
     hi_Body = body, hi_broken = False\<rparr>"

lemma post_simps [simp]:
  "hi_Method (post a s b) = ''POST''" "hi_Path (post a s b) = ''/''" "hi_Authorization (post a s b) = a"
  "hi_Session (post a s b) = s" "hi_Body (post a s b) = b" "\<not> hi_broken (post a s b)"
  by (simp_all add: post_def)

lemma sample_call_ok: "call_ok Some sample_call_req"
  by (simp add: call_ok_def sample_call_req_def ascii_valid is_map_def max_nesting_def)

lemma canon_sample: "canon_call sample_call_req = sample_call_req\<lparr>call_Arguments := [(''a'', ANil), (''b'', ABool True)]\<rparr>"
  by (simp add: canon_call_def sample_call_req_def)

theorem call_understood_witness:
  "\<exists>req. read_request (int (length (marshal_envelope 7 ''tools/call'' (Some (marshal_ToolsCallRequest sample_call_req)))))
      (post '''' '''' (marshal_envelope 7 ''tools/call'' (Some (marshal_ToolsCallRequest sample_call_req)))) = Inr req \<and>
    call_params Some req = Some (sample_call_req\<lparr>call_Arguments := [(''a'', ANil), (''b'', ABool True)]\<rparr>)"
  using call_understood [OF sample_call_ok, of "post '''' '''' _"] canon_sample by fastforce

end
