(* ===== verification/GatewayThread.thy ===== *)
theory GatewayThread
  imports Gateway
begin

text \<open>
  The handler of \<open>internal/gateway/gateway.go\<close> at the granularity at which requests interleave: \<open>net/http\<close>
  serves every request in its own goroutine, and what the goroutines share is changed in atomic
  actions, the calls on the components, the critical sections of \<open>sessionMu\<close> and the metric counters.  A
  request in progress is a \<open>thread\<close>, the rest of its actions; running one without interruption is
  \<open>ServeHTTP\<close>.
\<close>

section \<open>Threads\<close>

datatype 's thread =
    Done http_response
  | Atomic "'s Gateway \<Rightarrow> 's thread \<times> 's Gateway"

text \<open>One atomic action; the rest of the thread gets its answer.\<close>

definition atomically :: "('s Gateway \<Rightarrow> 'x \<times> 's Gateway) \<Rightarrow> ('x \<Rightarrow> 's thread) \<Rightarrow> 's thread" where
  "atomically f k = Atomic (\<lambda>g. case f g of (x, g') \<Rightarrow> (k x, g'))"

definition look :: "('s Gateway \<Rightarrow> 'x) \<Rightarrow> ('x \<Rightarrow> 's thread) \<Rightarrow> 's thread" where
  "look f k = atomically (\<lambda>g. (f g, g)) k"

definition tally :: "(Registry \<Rightarrow> Registry) \<Rightarrow> 's thread \<Rightarrow> 's thread" where
  "tally f t = atomically (\<lambda>g. ((), count f g)) (\<lambda>_. t)"

section \<open>The handlers\<close>

text \<open>The end of every handler: an audit record, then the answer.\<close>

definition conclude ::
  "'s deps \<Rightarrow> string option \<Rightarrow> Request \<Rightarrow> Event \<Rightarrow> 's thread \<Rightarrow> 's thread" where
  "conclude deps hdr req event answer =
     atomically (log_event deps event) (\<lambda>logErr. case logErr of
        Some err \<Rightarrow> Done (audit_failed hdr (req_ID req))
      | None \<Rightarrow> answer)"

definition initialize_thread :: "'s deps \<Rightarrow> readings \<Rightarrow> Request \<Rightarrow> string \<Rightarrow> string \<Rightarrow> 's thread" where
  "initialize_thread deps rd req clientID sessionID =
     conclude deps None req
       ((new_event (rd_event rd) ''initialize'' ''allow'' clientID (request_id req) sessionID)
        \<lparr>ev_Response := Some (PInitialize gateway_result)\<rparr>)
       (atomically (\<lambda>g. ((), g\<lparr>gw_table := bindSession (rd_order rd) (rd_evict rd) (rd_bind rd) sessionID clientID (gw_table g)\<rparr>))
         (\<lambda>_. Done (writeResult (Some sessionID) (req_ID req) (PInitialize gateway_result))))"

text \<open>The loop over the listed tools asks the policy for each of them.\<close>

fun allowed_tools :: "'s deps \<Rightarrow> Tool list \<Rightarrow> Tool list \<Rightarrow> (Tool list \<Rightarrow> 's thread) \<Rightarrow> 's thread" where
  "allowed_tools deps [] allowed k = k allowed"
| "allowed_tools deps (t # tools) allowed k =
     look (\<lambda>g. dp_IsToolAllowed deps (gw_state g) (tool_Name t))
       (\<lambda>ok. allowed_tools deps tools (if ok then allowed @ [t] else allowed) k)"

definition list_thread :: "'s deps \<Rightarrow> readings \<Rightarrow> Request \<Rightarrow> string \<Rightarrow> string \<Rightarrow> 's thread" where
  "list_thread deps rd req clientID sessionID =
     atomically (list_tools deps) (\<lambda>listing.
       let event = (new_event (rd_event rd) ''tools/list'' ''allow'' clientID (request_id req) sessionID)
              \<lparr>ev_Duration := rd_since rd\<rparr>;
           hdr = Some sessionID in
       case listing of
         Inl err \<Rightarrow>
           (case failure_parts err of (msg, status, errData) \<Rightarrow>
              conclude deps hdr req (event\<lparr>ev_Error := Some (normalizedError CodeServerError msg errData)\<rparr>)
                (Done (writeErrorStatus hdr (req_ID req) status CodeServerError msg)))
       | Inr tools \<Rightarrow> allowed_tools deps tools [] (\<lambda>allowed.
           conclude deps hdr req (event\<lparr>ev_Response := Some (PToolsList allowed)\<rparr>)
             (tally (IncRequest (req_Method req) '''' ''allow'')
               (Done (writeResult hdr (req_ID req) (PToolsList allowed))))))"

definition denied_thread ::
  "'s deps \<Rightarrow> readings \<Rightarrow> Request \<Rightarrow> string \<Rightarrow> string \<Rightarrow> ToolsCallRequest \<Rightarrow> Decision \<Rightarrow> 's thread" where
  "denied_thread deps rd req clientID sessionID callReq d =
     (let event = (call_event rd req clientID sessionID callReq d)\<lparr>ev_Duration := rd_since rd\<rparr>; hdr = Some sessionID in
      if dec_RateLimited d then
        conclude deps hdr req (event\<lparr>ev_Error := Some (normalizedError CodeRateLimited ''rate limited'' (limit_data d))\<rparr>)
          (tally (IncRateLimitHit (call_Name callReq) clientID)
            (tally (IncRequest (req_Method req) (call_Name callReq) ''deny'')
              (Done (writeErrorWithData hdr (req_ID req) CodeRateLimited ''rate limited'' (limit_data d)))))
      else
        conclude deps hdr req (event\<lparr>ev_Error := Some (normalizedError CodePolicyDenied ''policy denied'' (deny_data d))\<rparr>)
          (tally (IncPolicyDeny (dec_Rule d))
            (tally (IncRequest (req_Method req) (call_Name callReq) ''deny'')
              (Done (writeErrorWithData hdr (req_ID req) CodePolicyDenied ''policy denied'' (deny_data d))))))"

definition permitted_thread ::
  "'s deps \<Rightarrow> readings \<Rightarrow> Request \<Rightarrow> string \<Rightarrow> string \<Rightarrow> ToolsCallRequest \<Rightarrow> Decision \<Rightarrow> 's thread" where
  "permitted_thread deps rd req clientID sessionID callReq d =
     atomically (call_tool deps callReq) (\<lambda>outcome.
       let event = (call_event rd req clientID sessionID callReq d)\<lparr>ev_Duration := rd_since rd\<rparr>; hdr = Some sessionID in
       case outcome of
         Inl (err, up) \<Rightarrow>
           (let event1 = (case up of Some u \<Rightarrow> if u \<noteq> '''' then event\<lparr>ev_UpstreamID := u\<rparr> else event | None \<Rightarrow> event) in
            case failure_parts err of (msg, status, errData) \<Rightarrow>
              conclude deps hdr req (event1\<lparr>ev_Error := Some (normalizedError CodeServerError msg errData)\<rparr>)
                (Done (writeErrorStatus hdr (req_ID req) status CodeServerError msg)))
       | Inr r \<Rightarrow>
           conclude deps hdr req (event\<lparr>ev_UpstreamID := cr_UpstreamID r, ev_Response := Some (PToolsCall (cr_Result r))\<rparr>)
             (tally (IncRequest (req_Method req) (call_Name callReq) ''allow'')
               (Done (writeResult hdr (req_ID req) (PToolsCall (cr_Result r))))))"

definition call_thread ::
  "num_fn \<Rightarrow> 's deps \<Rightarrow> readings \<Rightarrow> Request \<Rightarrow> string \<Rightarrow> string \<Rightarrow> 's thread" where
  "call_thread num deps rd req clientID sessionID =
     (let hdr = Some sessionID in
      case call_params num req of
        None \<Rightarrow> Done (writeError hdr (req_ID req) CodeInvalidParams ''invalid params'')
      | Some callReq \<Rightarrow>
        if call_Name callReq = '''' then Done (writeError hdr (req_ID req) CodeInvalidParams ''invalid params: name required'')
        else atomically (evaluate_policy deps clientID callReq) (\<lambda>d.
          if dec_Action d = ''deny'' then denied_thread deps rd req clientID sessionID callReq d
          else permitted_thread deps rd req clientID sessionID callReq d))"

section \<open>ServeHTTP\<close>

definition notification_thread :: "'s deps \<Rightarrow> readings \<Rightarrow> http_in \<Rightarrow> Request \<Rightarrow> string \<Rightarrow> 's thread" where
  "notification_thread deps rd r req clientID =
     (if req_Method req = ''notifications/initialized'' \<and> hi_Session r \<noteq> '''' then
        atomically (resolve rd (hi_Session r) clientID) (\<lambda>resolved. case resolved of
          Inl err \<Rightarrow>
            atomically (logSessionReject deps rd req clientID (hi_Session r) err) (\<lambda>logErr. case logErr of
              Some x \<Rightarrow> Done (status_only 500)
            | None \<Rightarrow> Done (status_only (httpStatusForCode (sessErr_code err))))
        | Inr sid \<Rightarrow>
            atomically (log_event deps (new_event (rd_event rd) (req_Method req) ''allow'' clientID '''' sid)) (\<lambda>logErr.
              case logErr of Some x \<Rightarrow> Done (status_only 500) | None \<Rightarrow> Done (status_only 204)))
      else Done (status_only 204))"

definition session_thread ::
  "'s deps \<Rightarrow> readings \<Rightarrow> http_in \<Rightarrow> Request \<Rightarrow> string \<Rightarrow> (string \<Rightarrow> 's thread) \<Rightarrow> 's thread" where
  "session_thread deps rd r req clientID handler =
     atomically (resolve rd (hi_Session r) clientID) (\<lambda>resolved. case resolved of
       Inl err \<Rightarrow>
         atomically (logSessionReject deps rd req clientID (hi_Session r) err) (\<lambda>logErr. case logErr of
           Some x \<Rightarrow> Done (audit_failed None (req_ID req))
         | None \<Rightarrow> Done (writeError None (req_ID req) (sessErr_code err) (sessErr_message err)))
     | Inr sid \<Rightarrow> handler sid)"

definition dispatch_thread ::
  "num_fn \<Rightarrow> 's deps \<Rightarrow> readings \<Rightarrow> http_in \<Rightarrow> Request \<Rightarrow> string \<Rightarrow> 's thread" where
  "dispatch_thread num deps rd r req clientID =
     (if req_Method req = ''initialize'' then initialize_thread deps rd req clientID (rd_uuid rd)
      else if req_Method req = ''tools/list'' then
        session_thread deps rd r req clientID (list_thread deps rd req clientID)
      else if req_Method req = ''tools/call'' then
        session_thread deps rd r req clientID (call_thread num deps rd req clientID)
      else Done (writeError None (req_ID req) CodeMethodNotFound ''method not found''))"

definition rpc_thread :: "num_fn \<Rightarrow> 's deps \<Rightarrow> readings \<Rightarrow> http_in \<Rightarrow> 's thread" where
  "rpc_thread num deps rd r =
     look gw_maxRequestBytes (\<lambda>limit. case read_request limit r of
       Inl resp \<Rightarrow> Done resp
     | Inr req \<Rightarrow> atomically (authenticate deps (hi_Authorization r)) (\<lambda>auth. case auth of
         Inl err \<Rightarrow> Done (if req_ID req = None then status_only 401
           else writeError None (req_ID req) CodeUnauthorized ''unauthorized'')
       | Inr clientID \<Rightarrow>
           if req_ID req = None then notification_thread deps rd r req clientID
           else dispatch_thread num deps rd r req clientID))"

definition serve_thread :: "num_fn \<Rightarrow> 's deps \<Rightarrow> readings \<Rightarrow> http_in \<Rightarrow> 's thread" where
  "serve_thread num deps rd r =
     (if hi_Method r = ''GET'' \<and> hi_Path r = ''/metrics'' then
        look (\<lambda>g. st_metrics (gw_table g)) (\<lambda>m.
          Done (if m \<noteq> None then \<lparr>hr_status = 200, hr_session = None, hr_body = MetricsBody\<rparr>
            else \<lparr>hr_status = 404, hr_session = None, hr_body = NotFoundBody\<rparr>))
      else if hi_Method r = ''GET'' \<and> hi_Path r = ''/readyz'' then
        look (\<lambda>g. dp_Ready deps (gw_state g)) (\<lambda>ready. Done (status_only (if ready then 200 else 503)))
      else rpc_thread num deps rd r)"

section \<open>Running a thread without interruption\<close>

primrec run_thread :: "'s thread \<Rightarrow> 's Gateway \<Rightarrow> http_response \<times> 's Gateway" where
  "run_thread (Done resp) = (\<lambda>g. (resp, g))"
| "run_thread (Atomic f) = (\<lambda>g. case map_prod run_thread id (f g) of (rest, g') \<Rightarrow> rest g')"

lemma run_simps [simp]:
  "run_thread (atomically f k) g = (case f g of (x, g') \<Rightarrow> run_thread (k x) g')"
  "run_thread (look h k') g = run_thread (k' (h g)) g"
  "run_thread (tally i t) g = run_thread t (count i g)"
  by (simp_all add: atomically_def look_def tally_def split: prod.splits)

lemma run_conclude [simp]:
  "run_thread (conclude deps hdr req e answer) g =
    (case log_event deps e g of
       (Some x, g1) \<Rightarrow> (audit_failed hdr (req_ID req), g1)
     | (None, g1) \<Rightarrow> run_thread answer g1)"
  by (auto simp: conclude_def split: prod.splits option.splits)

lemma run_allowed [simp]:
  "run_thread (allowed_tools deps tools allowed k) g =
    run_thread (k (allowed @ filter (\<lambda>t. dp_IsToolAllowed deps (gw_state g) (tool_Name t)) tools)) g"
  by (induction tools arbitrary: allowed) simp_all

lemma run_initialize: "run_thread (initialize_thread deps rd req c sid) g = handleInitialize deps rd req c sid g"
  by (simp add: initialize_thread_def handleInitialize_def split: prod.splits option.splits)

lemma run_list: "run_thread (list_thread deps rd req c sid) g = handleToolsList deps rd req c sid g"
  by (simp add: list_thread_def handleToolsList_def Let_def split: prod.splits option.splits sum.splits)

lemma run_denied: "run_thread (denied_thread deps rd req c sid q d) g = denied_call deps rd req c sid q d g"
  by (simp add: denied_thread_def denied_call_def Let_def split: prod.splits option.splits)

lemma run_permitted: "run_thread (permitted_thread deps rd req c sid q d) g = permitted_call deps rd req c sid q d g"
  by (simp add: permitted_thread_def permitted_call_def Let_def split: prod.splits option.splits sum.splits)

lemma run_call: "run_thread (call_thread num deps rd req c sid) g = handleToolsCall num deps rd req c sid g"
  by (simp add: call_thread_def handleToolsCall_def run_denied run_permitted Let_def split: prod.splits option.splits)

lemma run_notification: "run_thread (notification_thread deps rd r req c) g = serve_notification deps rd r req c g"
  by (simp add: notification_thread_def serve_notification_def split: prod.splits option.splits sum.splits)

lemma run_session:
  "(\<And>sid g. run_thread (t sid) g = handler sid g) \<Longrightarrow>
   run_thread (session_thread deps rd r req c t) g = with_session deps rd r req c handler g"
  by (simp add: session_thread_def with_session_def split: prod.splits option.splits sum.splits)

lemma run_dispatch: "run_thread (dispatch_thread num deps rd r req c) g = dispatch num deps rd r req c g"
  by (simp add: dispatch_thread_def dispatch_def run_initialize run_session [OF run_list] run_session [OF run_call])

lemma run_rpc: "run_thread (rpc_thread num deps rd r) g = serve_rpc num deps rd r g"
  by (auto simp: rpc_thread_def serve_rpc_def run_notification run_dispatch split: prod.splits sum.splits)

lemma run_serve: "run_thread (serve_thread num deps rd r) g = ServeHTTP num deps rd r g"
  by (simp add: serve_thread_def ServeHTTP_def run_rpc)

section \<open>Histories\<close>

text \<open>
  The history of a thread: the gateway before and after each of its actions.  Between two of them other
  threads may have changed the gateway in any way.  \<open>plays t h u\<close>: after \<open>h\<close>, \<open>u\<close> is left of \<open>t\<close>.
\<close>

type_synonym 's history = "('s Gateway \<times> 's Gateway) list"

inductive plays :: "'s thread \<Rightarrow> 's history \<Rightarrow> 's thread \<Rightarrow> bool" where
  start: "plays t [] t"
| step: "f g = (t, g') \<Longrightarrow> plays t h u \<Longrightarrow> plays (Atomic f) ((g, g') # h) u"

inductive_cases plays_DoneE: "plays (Done resp) h u"

lemma plays_Done: "plays (Done resp) h u \<longleftrightarrow> h = [] \<and> u = Done resp"
  by (auto intro: plays.start elim: plays_DoneE)

inductive_cases plays_AtomicE: "plays (Atomic f) h u"

lemma plays_Atomic:
  "plays (Atomic f) h u \<longleftrightarrow> (h = [] \<and> u = Atomic f) \<or>
     (\<exists>g t g' h'. h = (g, g') # h' \<and> f g = (t, g') \<and> plays t h' u)"
  by (auto intro: plays.intros elim: plays_AtomicE)

lemma answer_eq: "(case p of (x, y) \<Rightarrow> (k x, y)) = (t, g') \<longleftrightarrow> (\<exists>x. p = (x, g') \<and> t = k x)"
  by (cases p) auto

lemma plays_atomically:
  "plays (atomically f k) h u \<longleftrightarrow> (h = [] \<and> u = atomically f k) \<or>
     (\<exists>g x g' h'. h = (g, g') # h' \<and> f g = (x, g') \<and> plays (k x) h' u)"
  unfolding atomically_def plays_Atomic answer_eq by blast

lemma plays_snoc: "plays t h (Atomic f) \<Longrightarrow> f g = (u, g') \<Longrightarrow> plays t (h @ [(g, g')]) u"
  by (induction t h "Atomic f" rule: plays.induct) (auto intro: plays.intros)

text \<open>The whole history of a thread that has answered.\<close>

definition completes :: "'s thread \<Rightarrow> 's history \<Rightarrow> http_response \<Rightarrow> bool" where
  "completes t h resp \<longleftrightarrow> plays t h (Done resp)"

lemma atomically_not_Done [simp]: "atomically f k \<noteq> Done resp" "Done resp \<noteq> atomically f k"
  by (simp_all add: atomically_def)

lemma completes_Done [simp]: "completes (Done r) h resp \<longleftrightarrow> h = [] \<and> resp = r"
  by (auto simp: completes_def plays_Done)

lemma completes_atomically:
  "completes (atomically f k) h resp \<longleftrightarrow> (\<exists>g x g' h'. h = (g, g') # h' \<and> f g = (x, g') \<and> completes (k x) h' resp)"
  by (simp add: completes_def plays_atomically)

lemma completes_cases [simp]:
  "completes (atomically f (case_option a b)) h resp \<longleftrightarrow>
    (\<exists>g g' h'. h = (g, g') # h' \<and>
       (f g = (None, g') \<and> completes a h' resp \<or> (\<exists>y. f g = (Some y, g') \<and> completes (b y) h' resp)))"
  "completes (atomically fs (case_sum l r)) h resp \<longleftrightarrow>
    (\<exists>g g' h'. h = (g, g') # h' \<and>
       ((\<exists>y. fs g = (Inl y, g') \<and> completes (l y) h' resp) \<or> (\<exists>y. fs g = (Inr y, g') \<and> completes (r y) h' resp)))"
  unfolding completes_atomically split_option_ex split_sum_ex by (simp_all, blast+)

lemma completes_look [simp]:
  "completes (look f k) h resp \<longleftrightarrow> (\<exists>g h'. h = (g, g) # h' \<and> completes (k (f g)) h' resp)"
  by (simp add: look_def completes_atomically)

lemma completes_tally [simp]:
  "completes (tally f t) h resp \<longleftrightarrow> (\<exists>g h'. h = (g, count f g) # h' \<and> completes t h' resp)"
  by (simp add: tally_def completes_atomically)

text \<open>A history in which each action starts where the one before has ended: nothing came between.\<close>

fun linked :: "'s Gateway \<Rightarrow> 's history \<Rightarrow> 's Gateway \<Rightarrow> bool" where
  "linked g [] g' \<longleftrightarrow> g' = g"
| "linked g ((g1, g2) # h) g' \<longleftrightarrow> g1 = g \<and> linked g2 h g'"

lemma run_completes:
  "run_thread t g = (resp, g') \<longleftrightarrow> (\<exists>h. completes t h resp \<and> linked g h g')"
proof (induction t arbitrary: g)
  case (Atomic f)
  obtain t1 g1 where f: "f g = (t1, g1)" by fastforce
  have "t1 \<in> Basic_BNFs.fsts (f g)" by (simp add: f)
  then have IH: "run_thread t1 g1 = (resp, g') \<longleftrightarrow> (\<exists>h. completes t1 h resp \<and> linked g1 h g')"
    using Atomic by blast
  have "completes (Atomic f) h resp \<and> linked g h g' \<longleftrightarrow>
      (\<exists>h'. h = (g, g1) # h' \<and> completes t1 h' resp \<and> linked g1 h' g')" for h
    unfolding completes_def plays_Atomic by (auto simp: f)
  then show ?case using IH by (auto simp: f)
qed auto

lemma ServeHTTP_completes:
  "ServeHTTP num deps rd r g = (resp, g') \<longleftrightarrow>
    (\<exists>h. completes (serve_thread num deps rd r) h resp \<and> linked g h g')"
  using run_completes [of "serve_thread num deps rd r" g resp g'] by (simp add: run_serve)

text \<open>Every action of a thread is in a relation.\<close>

primrec every_action :: "('s Gateway \<Rightarrow> 's Gateway \<Rightarrow> bool) \<Rightarrow> 's thread \<Rightarrow> bool" where
  "every_action R (Done resp) \<longleftrightarrow> True"
| "every_action R (Atomic f) \<longleftrightarrow> (\<forall>g. case map_prod (every_action R) id (f g) of (rest, g') \<Rightarrow> R g g' \<and> rest)"

lemma every_Atomic: "every_action R (Atomic f) \<longleftrightarrow> (\<forall>g t g'. f g = (t, g') \<longrightarrow> R g g' \<and> every_action R t)"
proof -
  have "(case map_prod (every_action R) id (f g) of (rest, g') \<Rightarrow> R g g' \<and> rest) \<longleftrightarrow>
      (\<forall>t g'. f g = (t, g') \<longrightarrow> R g g' \<and> every_action R t)" for g
    by (cases "f g") simp
  then show ?thesis by simp
qed

declare every_action.simps(2) [simp del]

lemma every_atomically [simp]:
  "every_action R (atomically f k) \<longleftrightarrow> (\<forall>g x g'. f g = (x, g') \<longrightarrow> R g g' \<and> every_action R (k x))"
  unfolding atomically_def every_Atomic answer_eq by blast

lemma every_look [simp]: "every_action R (look f k) \<longleftrightarrow> (\<forall>g. R g g \<and> every_action R (k (f g)))"
  by (simp add: look_def)

lemma every_tally [simp]: "every_action R (tally f t) \<longleftrightarrow> (\<forall>g. R g (count f g)) \<and> every_action R t"
  by (simp add: tally_def)

lemma every_plays: "plays t h u \<Longrightarrow> every_action R t \<Longrightarrow> list_all (\<lambda>(g, g'). R g g') h \<and> every_action R u"
  by (induction rule: plays.induct) (auto simp: every_Atomic)

lemma linked_relation:
  assumes "linked g h g'" and "list_all (\<lambda>(g, g'). R g g') h" and "\<And>g. R g g"
    and "\<And>g1 g2 g3. R g1 g2 \<Longrightarrow> R g2 g3 \<Longrightarrow> R g1 g3"
  shows "R g g'"
  using assms(1,2) by (induction g h g' rule: linked.induct) (auto intro: assms(3,4))

section \<open>The property\<close>

text \<open>
  The threads are the handler.  Running the thread of a request without interruption is \<open>ServeHTTP\<close>,
  for every method, session and failure of a component; and \<open>ServeHTTP\<close> answers \<open>resp\<close> and leaves \<open>g'\<close>
  exactly when the thread has a history with that answer in which nothing comes between its actions.  An
  interleaving of requests therefore has every sequential execution among its histories, and what holds
  of all histories of the threads holds of the handler.
\<close>

theorem threads_are_the_handler:
  "run_thread (serve_thread num deps rd r) g = ServeHTTP num deps rd r g
   \<and> (ServeHTTP num deps rd r g = (resp, g') \<longleftrightarrow>
        (\<exists>h. completes (serve_thread num deps rd r) h resp \<and> linked g h g'))"
  using run_serve ServeHTTP_completes by blast

end
