(* ===== verification/GatewayFlow.thy ===== *)
theory GatewayFlow
  imports GatewayParse GatewayThread
begin

text \<open>
  What the handler of \<open>internal/gateway/gateway.go\<close> promises.  The abstract specification is the protocol
  of one request, an inductive relation between the response and the calls on the components; the
  handler refines it for every implementation of the components.  The safety properties of the
  gateway are consequences of the protocol, obtained by case analysis of the relation.
\<close>

section \<open>Frame facts\<close>

text \<open>The calls that \<open>g'\<close> has seen after \<open>g\<close>.\<close>

definition since :: "'s Gateway \<Rightarrow> 's Gateway \<Rightarrow> effect list" where
  "since g g' = drop (length (gw_trace g)) (gw_trace g')"

definition result_of :: "http_response \<Rightarrow> payload option" where
  "result_of resp = (case hr_body resp of JsonBody b \<Rightarrow> resp_Result b | _ \<Rightarrow> None)"

definition error_of :: "http_response \<Rightarrow> Error option" where
  "error_of resp = (case hr_body resp of JsonBody b \<Rightarrow> resp_Error b | _ \<Rightarrow> None)"

named_theorems frame

lemma note_effect_simps [simp, frame]:
  "gw_trace (note_effect x s g) = gw_trace g @ [x]" "gw_table (note_effect x s g) = gw_table g"
  "gw_state (note_effect x s g) = s" "gw_maxRequestBytes (note_effect x s g) = gw_maxRequestBytes g"
  "gw_requestTimeout (note_effect x s g) = gw_requestTimeout g"
  by (simp_all add: note_effect_def)

lemma count_simps [simp, frame]:
  "gw_trace (count f g) = gw_trace g" "gw_state (count f g) = gw_state g"
  "gw_maxRequestBytes (count f g) = gw_maxRequestBytes g"
  "st_clients (gw_table (count f g)) = st_clients (gw_table g)" "st_ttl (gw_table (count f g)) = st_ttl (gw_table g)"
  "st_max (gw_table (count f g)) = st_max (gw_table g)"
  by (simp_all add: count_def)

lemma component_calls:
  "log_event deps e g = (r, g1) \<Longrightarrow>
    gw_trace g1 = gw_trace g @ [Logged e r] \<and> gw_table g1 = gw_table g \<and> dp_Log deps e (gw_state g) = (r, gw_state g1)"
  "list_tools deps g = (l, g1) \<Longrightarrow>
    gw_trace g1 = gw_trace g @ [ListedTools l] \<and> gw_table g1 = gw_table g \<and> dp_ToolsList deps (gw_state g) = (l, gw_state g1)"
  "call_tool deps q g = (x, g1) \<Longrightarrow>
    gw_trace g1 = gw_trace g @ [CalledTool q x] \<and> gw_table g1 = gw_table g \<and>
    dp_ToolsCall deps q (gw_state g) = (x, gw_state g1)"
  "evaluate_policy deps c q g = (d, g1) \<Longrightarrow>
    gw_trace g1 = gw_trace g @ [Evaluated c q d] \<and> gw_table g1 = gw_table g \<and>
    dp_Evaluate deps c q (gw_state g) = (d, gw_state g1)"
  "authenticate deps h g = (a, g1) \<Longrightarrow>
    a = dp_Authenticate deps h \<and> gw_trace g1 = gw_trace g @ [Authenticated h a] \<and> gw_table g1 = gw_table g \<and>
    gw_state g1 = gw_state g"
  by (auto simp: log_event_def list_tools_def call_tool_def evaluate_policy_def authenticate_def Let_def split: prod.splits)

lemma resolve_frame:
  "resolve rd sid c g = (r, g1) \<Longrightarrow>
    gw_trace g1 = gw_trace g \<and> gw_state g1 = gw_state g \<and>
    resolveSession (rd_resolve rd) sid c (gw_table g) = (r, gw_table g1)"
  by (auto simp: resolve_def split: prod.splits)

lemma response_simps [simp]:
  "result_of (writeResult h i p) = Some p" "result_of (writeErrorStatus h i st c m) = None"
  "result_of (writeError h i c m) = None" "result_of (writeErrorWithData h i c m dt) = None"
  "result_of (status_only st) = None" "result_of (audit_failed h i) = None"
  "hr_status (writeResult h i p) = 200" "hr_status (writeErrorStatus h i st c m) = st"
  "hr_status (writeError h i c m) = httpStatusForCode c" "hr_status (writeErrorWithData h i c m dt) = httpStatusForCode c"
  "hr_status (status_only st) = st" "hr_status (audit_failed h i) = 500"
  by (simp_all add: result_of_def writeResult_def writeErrorStatus_def writeError_def writeErrorWithData_def
      status_only_def audit_failed_def httpStatusForCode_def code_defs)

section \<open>The protocol of a request\<close>

text \<open>
  The last audit call decides the answer: when it fails the answer is an error 500, otherwise its result
  is the response recorded in the event.
\<close>

definition closing :: "string \<Rightarrow> http_response \<Rightarrow> Event \<Rightarrow> audit_error option \<Rightarrow> bool" where
  "closing c resp e r \<longleftrightarrow> ev_ClientID e = c \<and>
     (case r of None \<Rightarrow> result_of resp = ev_Response e | Some x \<Rightarrow> hr_status resp = 500 \<and> result_of resp = None)"

text \<open>What an authenticated client's request can do.\<close>

inductive script :: "string \<Rightarrow> http_response \<Rightarrow> effect list \<Rightarrow> bool" for c where
  silent: "result_of resp = None \<Longrightarrow> script c resp []"
| own: "closing c resp e r \<Longrightarrow> ev_Response e \<in> {None, Some (PInitialize gateway_result)} \<Longrightarrow> script c resp [Logged e r]"
| unlisted: "closing c resp e r \<Longrightarrow> ev_Action e = ''tools/list'' \<Longrightarrow> ev_Response e = None \<Longrightarrow>
    script c resp [ListedTools (Inl err), Logged e r]"
| listed: "closing c resp e r \<Longrightarrow> ev_Action e = ''tools/list'' \<Longrightarrow> ev_Response e = Some (PToolsList shown) \<Longrightarrow> subseq shown tools \<Longrightarrow>
    script c resp [ListedTools (Inr tools), Logged e r]"
| denied: "closing c resp e r \<Longrightarrow> ev_Action e = ''tools/call'' \<Longrightarrow> ev_Tool e = call_Name q \<Longrightarrow> ev_Decision e = ''deny'' \<Longrightarrow>
    ev_Response e = None \<Longrightarrow> dec_Action d = ''deny'' \<Longrightarrow> script c resp [Evaluated c q d, Logged e r]"
| failed: "closing c resp e r \<Longrightarrow> ev_Action e = ''tools/call'' \<Longrightarrow> ev_Tool e = call_Name q \<Longrightarrow> ev_Decision e = dec_Action d \<Longrightarrow>
    ev_Response e = None \<Longrightarrow> dec_Action d \<noteq> ''deny'' \<Longrightarrow>
    script c resp [Evaluated c q d, CalledTool q (Inl err), Logged e r]"
| called: "closing c resp e r \<Longrightarrow> ev_Action e = ''tools/call'' \<Longrightarrow> ev_Tool e = call_Name q \<Longrightarrow> ev_Decision e = dec_Action d \<Longrightarrow>
    ev_Response e = Some (PToolsCall (cr_Result cr)) \<Longrightarrow> dec_Action d \<noteq> ''deny'' \<Longrightarrow>
    script c resp [Evaluated c q d, CalledTool q (Inr cr), Logged e r]"

text \<open>A request with the authorization header \<open>h\<close>, for which \<open>a\<close> is the authenticator's answer.\<close>

inductive served :: "string \<Rightarrow> auth_error + string \<Rightarrow> http_response \<Rightarrow> effect list \<Rightarrow> bool" for h a where
  refused: "result_of resp = None \<Longrightarrow> served h a resp []"
| unauthenticated: "a = Inl err \<Longrightarrow> hr_status resp = 401 \<Longrightarrow> result_of resp = None \<Longrightarrow>
    served h a resp [Authenticated h (Inl err)]"
| authenticated: "a = Inr c \<Longrightarrow> script c resp xs \<Longrightarrow> served h a resp (Authenticated h (Inr c) # xs)"

inductive_cases servedE: "served h a resp xs"

lemma event_simps [simp]:
  "ev_ClientID (new_event now a d c i s) = c" "ev_Response (new_event now a d c i s) = None"
  "ev_Action (new_event now a d c i s) = a" "ev_Decision (new_event now a d c i s) = d"
  "ev_ClientID (call_event rd req c s q dc) = c" "ev_Response (call_event rd req c s q dc) = None"
  "ev_Action (call_event rd req c s q dc) = ''tools/call''" "ev_Decision (call_event rd req c s q dc) = dec_Action dc"
  "ev_Tool (call_event rd req c s q dc) = call_Name q" "ev_SessionID (call_event rd req c s q dc) = s"
  "ev_SessionID (new_event now a d c i s) = s"
  by (simp_all add: new_event_def call_event_def)

section \<open>The calls of a history\<close>

text \<open>The calls on the components that a thread itself has made.\<close>

definition effects :: "'s history \<Rightarrow> effect list" where
  "effects h = concat (map (\<lambda>(g, g'). since g g') h)"

lemma effects_simps [simp]:
  "effects [] = []" "effects ((g, g') # h) = since g g' @ effects h" "effects (h @ h') = effects h @ effects h'"
  by (simp_all add: effects_def)

lemma since_simps [simp]: "since g g = []" "since g (count f g) = []" "since g (g\<lparr>gw_table := t\<rparr>) = []"
  by (simp_all add: since_def)

lemma since_calls:
  "log_event deps e g = (x, g1) \<Longrightarrow> since g g1 = [Logged e x]"
  "list_tools deps g = (l, g1) \<Longrightarrow> since g g1 = [ListedTools l]"
  "call_tool deps q g = (y, g1) \<Longrightarrow> since g g1 = [CalledTool q y]"
  "evaluate_policy deps c q g = (d, g1) \<Longrightarrow> since g g1 = [Evaluated c q d]"
  "authenticate deps h g = (a, g1) \<Longrightarrow> since g g1 = [Authenticated h a]"
  "resolve rd sid c g = (z, g1) \<Longrightarrow> since g g1 = []"
  using component_calls [of deps] resolve_frame [of rd sid c g z g1] by (auto simp: since_def)

text \<open>The actions of a thread only append to the trace, so that the parts of a linked history add up.\<close>

definition appends :: "'s Gateway \<Rightarrow> 's Gateway \<Rightarrow> bool" where
  "appends g g' \<longleftrightarrow> gw_trace g' = gw_trace g @ since g g'"

lemma linked_effects:
  "linked g h g' \<Longrightarrow> list_all (\<lambda>(g, g'). appends g g') h \<Longrightarrow> gw_trace g' = gw_trace g @ effects h"
  by (induction g h g' rule: linked.induct) (auto simp: appends_def)

lemma linked_since:
  "linked g h g' \<Longrightarrow> list_all (\<lambda>(g, g'). appends g g') h \<Longrightarrow> since g g' = effects h"
  by (simp add: since_def linked_effects)

section \<open>Threads follow the protocol\<close>

text \<open>\<open>silently P t\<close>: the thread makes no further call and its answer satisfies \<open>P\<close>.\<close>

definition silently :: "(http_response \<Rightarrow> bool) \<Rightarrow> 's thread \<Rightarrow> bool" where
  "silently P t \<longleftrightarrow> (\<forall>h resp. completes t h resp \<longrightarrow> effects h = [] \<and> P resp)"

lemma silently_atomically:
  assumes "\<And>g. since g (u g) = []"
  shows "silently P (atomically (\<lambda>g. ((), u g)) (\<lambda>_. t)) \<longleftrightarrow> silently P t"
proof -
  have c: "completes (atomically (\<lambda>g. ((), u g)) (\<lambda>_. t)) h resp \<longleftrightarrow> (\<exists>g h'. h = (g, u g) # h' \<and> completes t h' resp)" for h resp
    by (auto simp: completes_atomically)
  show ?thesis
  proof
    assume a: "silently P (atomically (\<lambda>g. ((), u g)) (\<lambda>_. t))"
    show "silently P t"
      unfolding silently_def
    proof (intro allI impI)
      fix h resp
      assume "completes t h resp"
      then have "completes (atomically (\<lambda>g. ((), u g)) (\<lambda>_. t)) ((undefined, u undefined) # h) resp" unfolding c by blast
      with a show "effects h = [] \<and> P resp" unfolding silently_def by fastforce
    qed
  qed (use assms c in \<open>auto simp: silently_def\<close>)
qed

lemma silently_simps [simp]:
  "silently P (Done resp) \<longleftrightarrow> P resp" "silently P (tally f t) \<longleftrightarrow> silently P t"
  "silently P (atomically (\<lambda>g. ((), g\<lparr>gw_table := tf g\<rparr>)) (\<lambda>_. t)) \<longleftrightarrow> silently P t"
  unfolding tally_def by (simp_all add: silently_atomically) (auto simp: silently_def)

text \<open>The pattern that ends every handler.\<close>

lemma conclude_script:
  assumes "completes (conclude deps hdr req e answer) h resp"
    and "silently (\<lambda>resp. result_of resp = ev_Response e) answer" and "ev_ClientID e = c"
  shows "\<exists>r. effects h = [Logged e r] \<and> closing c resp e r"
  using assms by (auto simp: conclude_def silently_def closing_def since_calls)

lemma reject_script:
  assumes "logSessionReject deps rd req c sid err g = (r, g1)"
  shows "\<exists>e. since g g1 = [Logged e r] \<and> ev_ClientID e = c \<and> ev_Response e = None"
  using since_calls(1) [OF assms [unfolded logSessionReject_def]] by simp

lemma initialize_script:
  "completes (initialize_thread deps rd req c sid) h resp \<Longrightarrow> script c resp (effects h)"
  unfolding initialize_thread_def
  by (drule conclude_script [where c = c]) (auto intro!: script.own)

lemma allowed_tools_completes:
  "completes (allowed_tools deps tools allowed k) h resp \<Longrightarrow>
   \<exists>shown h'. subseq shown tools \<and> completes (k (allowed @ shown)) h' resp \<and> effects h = effects h'"
proof (induction tools arbitrary: allowed h)
  case (Cons t tools)
  then obtain ok h1 where h1: "completes (allowed_tools deps tools (if ok then allowed @ [t] else allowed) k) h1 resp"
    "effects h = effects h1" by auto
  from Cons.IH [OF h1(1)] obtain shown h' where
    "subseq shown tools" "completes (k ((if ok then allowed @ [t] else allowed) @ shown)) h' resp" "effects h1 = effects h'"
    by blast
  then show ?case using h1(2)
    by (intro exI [of _ "if ok then t # shown else shown"] exI [of _ h']) auto
next
  case Nil
  then show ?case by (intro exI [of _ "[]"] exI [of _ h]) simp
qed

lemma list_script:
  assumes "completes (list_thread deps rd req c sid) h resp"
  shows "script c resp (effects h)"
proof -
  obtain g l g1 h1 where h: "h = (g, g1) # h1" "list_tools deps g = (l, g1)" using assms by (auto simp: list_thread_def completes_atomically)
  note u = assms [unfolded list_thread_def h(1) Let_def completes_atomically, simplified h(2)]
  show ?thesis
  proof (cases l)
    case (Inl err)
    obtain m st dt where f: "failure_parts err = (m, st, dt)" by (metis prod_cases3)
    from u Inl f h(2) show ?thesis
      by (auto simp: h(1) since_calls dest!: conclude_script [where c = c] intro!: script.unlisted)
  next
    case (Inr tools)
    from u Inr h(2) show ?thesis
      by (auto simp: h(1) since_calls dest!: allowed_tools_completes conclude_script [where c = c] intro!: script.listed)
  qed
qed

lemma denied_script:
  assumes "completes (denied_thread deps rd req c sid q d) h resp"
  shows "\<exists>e r. effects h = [Logged e r] \<and> closing c resp e r \<and> ev_Action e = ''tools/call'' \<and>
    ev_Tool e = call_Name q \<and> ev_Decision e = dec_Action d \<and> ev_Response e = None"
  using assms unfolding denied_thread_def Let_def
  by (auto split: if_splits dest!: conclude_script [where c = c])

lemma permitted_script:
  assumes "completes (permitted_thread deps rd req c sid q d) h resp"
  shows "\<exists>x e r. effects h = [CalledTool q x, Logged e r] \<and> closing c resp e r \<and>
    ev_Action e = ''tools/call'' \<and> ev_Tool e = call_Name q \<and> ev_Decision e = dec_Action d \<and>
    ev_Response e = (case x of Inl err \<Rightarrow> None | Inr cr \<Rightarrow> Some (PToolsCall (cr_Result cr)))"
proof -
  obtain g x g1 h1 where h: "h = (g, g1) # h1" "call_tool deps q g = (x, g1)" using assms by (auto simp: permitted_thread_def completes_atomically)
  note u = assms [unfolded permitted_thread_def h(1) Let_def completes_atomically, simplified h(2)]
  show ?thesis
  proof (cases x)
    case (Inl eu)
    obtain err up where eu: "eu = (err, up)" by fastforce
    obtain m st dt where f: "failure_parts err = (m, st, dt)" by (metis prod_cases3)
    from u Inl eu f h(2) show ?thesis
      by (auto simp: h(1) since_calls dest!: conclude_script [where c = c] split: option.splits if_splits)
  next
    case (Inr cr)
    from u Inr h(2) show ?thesis by (auto simp: h(1) since_calls dest!: conclude_script [where c = c])
  qed
qed

lemma call_script:
  assumes "completes (call_thread num deps rd req c sid) h resp"
  shows "script c resp (effects h)"
proof (cases "call_params num req")
  case None
  then show ?thesis using assms by (auto simp: call_thread_def intro: script.silent)
next
  case (Some q)
  show ?thesis
  proof (cases "call_Name q = ''''")
    case True
    then show ?thesis using assms Some by (auto simp: call_thread_def intro: script.silent)
  next
    case named: False
    then obtain g d g1 h1 where h: "h = (g, g1) # h1" "evaluate_policy deps c q g = (d, g1)"
      using assms Some by (auto simp: call_thread_def completes_atomically)
    note u = assms [unfolded call_thread_def h(1) Let_def completes_atomically]
    show ?thesis
    proof (cases "dec_Action d = ''deny''")
      case True
      then have "completes (denied_thread deps rd req c sid q d) h1 resp" using u Some named h(2) by (simp add: completes_atomically)
      from denied_script [OF this] True show ?thesis by (auto simp: h(1) since_calls(4) [OF h(2)] intro: script.denied)
    next
      case False
      then have "completes (permitted_thread deps rd req c sid q d) h1 resp" using u Some named h(2) by (simp add: completes_atomically)
      from permitted_script [OF this] obtain x e r where p:
        "effects h1 = [CalledTool q x, Logged e r]" "closing c resp e r" "ev_Action e = ''tools/call''"
        "ev_Tool e = call_Name q" "ev_Decision e = dec_Action d"
        "ev_Response e = (case x of Inl err \<Rightarrow> None | Inr cr \<Rightarrow> Some (PToolsCall (cr_Result cr)))" by blast
      show ?thesis
        using p False by (cases x) (auto simp: h(1) since_calls(4) [OF h(2)] intro: script.failed script.called)
    qed
  qed
qed

lemma session_script:
  assumes "completes (session_thread deps rd r req c handler) h resp"
    and "\<And>sid h. completes (handler sid) h resp \<Longrightarrow> script c resp (effects h)"
  shows "script c resp (effects h)"
  using assms
  by (auto simp: session_thread_def since_calls closing_def dest!: reject_script intro!: script.own)

lemma notification_script:
  assumes "completes (notification_thread deps rd r req c) h resp"
  shows "script c resp (effects h)"
  using assms
  by (auto simp: notification_thread_def since_calls closing_def split: if_splits
      dest!: reject_script intro!: script.own script.silent)

lemma dispatch_script:
  assumes "completes (dispatch_thread num deps rd r req c) h resp"
  shows "script c resp (effects h)"
  using assms
  by (auto simp: dispatch_thread_def split: if_splits intro: script.silent initialize_script
      session_script [OF _ list_script] session_script [OF _ call_script])

lemma parse_body_result: "parse_body b = Inl resp \<Longrightarrow> result_of resp = None"
  by (auto simp: parse_body_def null_error_def Let_def split: if_splits option.splits prod.splits json.splits)

lemma read_request_result: "read_request n r = Inl resp \<Longrightarrow> result_of resp = None"
  by (auto simp: read_request_def null_error_def too_large_response_def split: if_splits dest: parse_body_result)

lemma rpc_script:
  assumes "completes (rpc_thread num deps rd r) h resp"
  shows "served (hi_Authorization r) (dp_Authenticate deps (hi_Authorization r)) resp (effects h)"
proof -
  obtain g h1 where h: "h = (g, g) # h1" using assms by (auto simp: rpc_thread_def)
  note u = assms [unfolded rpc_thread_def h]
  show ?thesis
  proof (cases "read_request (gw_maxRequestBytes g) r")
    case (Inl refusal)
    then show ?thesis using u read_request_result [OF Inl] by (auto simp: h intro: served.refused)
  next
    case (Inr req)
    with u obtain g2 a g3 h2 where h2: "h1 = (g2, g3) # h2" "authenticate deps (hi_Authorization r) g2 = (a, g3)"
      by auto
    note e = since_calls(5) [OF h2(2)] component_calls(5) [OF h2(2)]
    show ?thesis
    proof (cases a)
      case (Inl err)
      then show ?thesis
        using u Inr h2 e by (auto simp: h httpStatusForCode_def code_defs intro!: served.unauthenticated)
    next
      case c: (Inr c)
      then have "script c resp (effects h2)"
        using u Inr h2 by (auto split: if_splits intro: notification_script dispatch_script)
      then show ?thesis using c h2 e by (auto simp: h intro: served.authenticated)
    qed
  qed
qed

text \<open>The whole history of a request, whatever happened between its actions.\<close>

lemma serve_script:
  assumes "completes (serve_thread num deps rd r) h resp"
  shows "served (hi_Authorization r) (dp_Authenticate deps (hi_Authorization r)) resp (effects h)"
  using assms rpc_script [of num deps rd r h resp]
  by (auto simp: serve_thread_def status_only_def result_of_def split: if_splits intro!: served.refused)

section \<open>Consequences of the protocol\<close>

lemma script_call:
  assumes "script c resp xs" and "CalledTool q x \<in> set xs"
  shows "\<exists>d e r. xs = [Evaluated c q d, CalledTool q x, Logged e r] \<and> dec_Action d \<noteq> ''deny'' \<and>
    ev_Action e = ''tools/call'' \<and> ev_Tool e = call_Name q \<and> ev_ClientID e = c"
  using assms by cases (auto simp: closing_def)



lemma script_result:
  assumes "script c resp xs" and "result_of resp = Some p"
  shows "\<exists>ys e. xs = ys @ [Logged e None] \<and> ev_Response e = Some p \<and> ev_ClientID e = c"
  using assms by cases (auto simp: closing_def split: option.splits)

lemma script_log_failure:
  assumes "script c resp xs" and "Logged e (Some x) \<in> set xs"
  shows "hr_status resp = 500 \<and> result_of resp = None"
  using assms by cases (auto simp: closing_def)

lemma script_work:
  assumes "script c resp xs" and "x \<in> set xs" and "\<nexists>e r. x = Logged e r"
  shows "\<exists>ys e r. xs = ys @ [Logged e r] \<and> ev_ClientID e = c"
  using assms by cases (auto simp: closing_def)

section \<open>The session gate\<close>

definition session_work :: "effect \<Rightarrow> bool" where
  "session_work x \<longleftrightarrow> (case x of Evaluated c q d \<Rightarrow> True | ListedTools l \<Rightarrow> True | CalledTool q y \<Rightarrow> True | _ \<Rightarrow> False)"

definition valid_session :: "instant \<Rightarrow> string \<Rightarrow> string \<Rightarrow> SessionTable \<Rightarrow> bool" where
  "valid_session now sid c t \<longleftrightarrow> sid \<noteq> '''' \<and>
     (case map_of (st_clients t) sid of None \<Rightarrow> False | Some b \<Rightarrow> After (sb_expiresAt b) now \<and> sb_clientID b = c)"

lemma resolve_valid: "fst (resolveSession now sid c t) = Inr s \<longleftrightarrow> s = sid \<and> valid_session now sid c t"
  by (auto simp: resolveSession_def lookupSessionClient_def valid_session_def split: option.splits)

lemma session_work_simps [simp]:
  "\<not> session_work (Logged e x)" "\<not> session_work (Authenticated h a)" "session_work (Evaluated c q d)"
  "session_work (ListedTools l)" "session_work (CalledTool q y)"
  by (simp_all add: session_work_def)

text \<open>
  A history is gated when it does no work for a session, or found the session valid in the table before:
  in an action of its own, with the table as it was then; until then it has not touched the table.
\<close>

definition gated :: "readings \<Rightarrow> string \<Rightarrow> string \<Rightarrow> 's history \<Rightarrow> bool" where
  "gated rd sid c h \<longleftrightarrow> list_all (\<lambda>x. \<not> session_work x) (effects h) \<or>
     (\<exists>h1 g g' h2. h = h1 @ (g, g') # h2 \<and> list_all (\<lambda>x. \<not> session_work x) (effects (h1 @ [(g, g')])) \<and>
        list_all (\<lambda>(g, g'). gw_table g' = gw_table g) h1 \<and> valid_session (rd_resolve rd) sid c (gw_table g))"

lemma gated_idle: "list_all (\<lambda>x. \<not> session_work x) (effects h) \<Longrightarrow> gated rd sid c h"
  by (simp add: gated_def)

lemma gated_Cons:
  assumes "gated rd sid c h" and "list_all (\<lambda>x. \<not> session_work x) (since g g')" and "gw_table g' = gw_table g"
  shows "gated rd sid c ((g, g') # h)"
proof (cases "list_all (\<lambda>x. \<not> session_work x) (effects h)")
  case True
  then show ?thesis using assms(2) by (simp add: gated_def)
next
  case False
  then obtain h1 g1 g1' h2 where h: "h = h1 @ (g1, g1') # h2" "list_all (\<lambda>x. \<not> session_work x) (effects (h1 @ [(g1, g1')]))"
    "list_all (\<lambda>(g, g'). gw_table g' = gw_table g) h1" "valid_session (rd_resolve rd) sid c (gw_table g1)"
    using assms(1) by (auto simp: gated_def)
  then show ?thesis
    unfolding gated_def using assms(2,3) by (intro disjI2 exI [of _ "(g, g') # h1"] exI conjI) auto
qed

lemma gated_session:
  assumes "completes (session_thread deps rd r req c handler) h resp"
  shows "gated rd (hi_Session r) c h"
proof -
  obtain g g' h' z where h: "h = (g, g') # h'" "resolve rd (hi_Session r) c g = (z, g')"
    using assms by (auto simp: session_thread_def)
  show ?thesis
  proof (cases z)
    case (Inl err)
    then show ?thesis
      using assms h by (auto simp: session_thread_def since_calls(6) intro!: gated_idle dest!: reject_script)
  next
    case (Inr sid)
    then have "valid_session (rd_resolve rd) (hi_Session r) c (gw_table g)"
      using resolve_valid [of "rd_resolve rd" "hi_Session r" c "gw_table g" sid] resolve_frame [OF h(2)] by simp
    then show ?thesis
      unfolding gated_def using h(1) since_calls(6) [OF h(2)] by (intro disjI2 exI [of _ "[]"] exI conjI) auto
  qed
qed

lemma gated_initialize: "completes (initialize_thread deps rd req c sid) h resp \<Longrightarrow> gated rd s c h"
  unfolding initialize_thread_def
  by (drule conclude_script [where c = c]) (auto intro!: gated_idle)

lemma gated_notification: "completes (notification_thread deps rd r req c) h resp \<Longrightarrow> gated rd s c h"
  by (auto simp: notification_thread_def since_calls split: if_splits dest!: reject_script intro!: gated_idle)

lemma gated_dispatch: "completes (dispatch_thread num deps rd r req c) h resp \<Longrightarrow> gated rd (hi_Session r) c h"
  by (auto simp: dispatch_thread_def split: if_splits intro: gated_initialize gated_session gated_idle)

text \<open>The gate of a request: work only for an authenticated client with a valid session.\<close>

lemma serve_gated:
  assumes "completes (serve_thread num deps rd r) h resp" and "x \<in> set (effects h)" and "session_work x"
  shows "\<exists>c. dp_Authenticate deps (hi_Authorization r) = Inr c \<and> gated rd (hi_Session r) c h"
proof -
  have s: "completes (rpc_thread num deps rd r) h resp"
    using assms by (auto simp: serve_thread_def split: if_splits)
  then obtain g h1 where h: "h = (g, g) # h1" by (auto simp: rpc_thread_def)
  note u = s [unfolded rpc_thread_def h]
  from u assms(2,3) obtain req where req: "read_request (gw_maxRequestBytes g) r = Inr req"
    by (cases "read_request (gw_maxRequestBytes g) r") (auto simp: h)
  with u obtain g2 a g3 h2 where h2: "h1 = (g2, g3) # h2" "authenticate deps (hi_Authorization r) g2 = (a, g3)" by auto
  note e = since_calls(5) [OF h2(2)] component_calls(5) [OF h2(2)]
  from u req h2 e assms(2,3) obtain c where c: "a = Inr c" by (cases a) (auto simp: h)
  then have "gated rd (hi_Session r) c h2"
    using u req h2 by (auto split: if_splits intro: gated_notification gated_dispatch)
  then have "gated rd (hi_Session r) c h" unfolding h h2(1) by (intro gated_Cons) (simp_all add: e)
  then show ?thesis using c e by auto
qed

section \<open>The form of the responses\<close>

text \<open>A JSON-RPC response to the identifier \<open>i\<close>: a result with status 200, or an error with its status.\<close>

definition rpc_form :: "RawMessage \<Rightarrow> http_response \<Rightarrow> bool" where
  "rpc_form i resp \<longleftrightarrow> (case hr_body resp of
     JsonBody b \<Rightarrow> resp_JSONRPC b = ''2.0'' \<and> resp_ID b = i \<and>
       (case resp_Result b of
          Some p \<Rightarrow> resp_Error b = None \<and> hr_status resp = 200
        | None \<Rightarrow> (case resp_Error b of
            None \<Rightarrow> False
          | Some e \<Rightarrow> hr_status resp = httpStatusForCode (err_Code e) \<or>
              (err_Code e = CodeServerError \<and> hr_status resp = 503) \<or>
              (err_Code e = CodeInvalidRequest \<and> hr_status resp = 413)))
   | _ \<Rightarrow> False)"

lemma form_simps [simp]:
  "rpc_form j (writeResult h i p) \<longleftrightarrow> j = id_text i" "rpc_form j (writeError h i c m) \<longleftrightarrow> j = id_text i"
  "rpc_form j (writeErrorWithData h i c m dt) \<longleftrightarrow> j = id_text i" "rpc_form j (audit_failed h i) \<longleftrightarrow> j = id_text i"
  by (auto simp: rpc_form_def writeResult_def writeError_def writeErrorStatus_def writeErrorWithData_def audit_failed_def)

lemma form_failure: "failure_parts err = (m, st, dt) \<Longrightarrow> rpc_form (id_text i) (writeErrorStatus h i st CodeServerError m)"
  by (auto simp: failure_parts_def rpc_form_def writeErrorStatus_def httpStatusForCode_def code_defs
      split: upstream_failure.splits)

lemma form_failure2:
  "rpc_form (id_text i) (writeErrorStatus h i (fst (snd (failure_parts err))) CodeServerError (fst (failure_parts err)))"
  using form_failure [of err "fst (failure_parts err)" "fst (snd (failure_parts err))" "snd (snd (failure_parts err))"]
  by simp

lemma form_silently:
  assumes "completes (conclude deps hdr req e answer) h resp" and "silently (rpc_form (id_text (req_ID req))) answer"
  shows "rpc_form (id_text (req_ID req)) resp"
  using assms by (auto simp: conclude_def silently_def)

lemma initialize_form:
  "completes (initialize_thread deps rd req c sid) h resp \<Longrightarrow> rpc_form (id_text (req_ID req)) resp"
  unfolding initialize_thread_def by (erule form_silently) simp

lemma list_form:
  assumes "completes (list_thread deps rd req c sid) h resp"
  shows "rpc_form (id_text (req_ID req)) resp"
  using assms
  by (auto simp: list_thread_def Let_def form_failure2 prod.case_eq_if
      dest!: allowed_tools_completes form_silently)

lemma denied_form:
  "completes (denied_thread deps rd req c sid q d) h resp \<Longrightarrow> rpc_form (id_text (req_ID req)) resp"
  by (auto simp: denied_thread_def Let_def split: if_splits dest!: form_silently)

lemma permitted_form:
  "completes (permitted_thread deps rd req c sid q d) h resp \<Longrightarrow> rpc_form (id_text (req_ID req)) resp"
  by (auto simp: permitted_thread_def Let_def form_failure2 prod.case_eq_if dest!: form_silently)

lemma call_form:
  "completes (call_thread num deps rd req c sid) h resp \<Longrightarrow> rpc_form (id_text (req_ID req)) resp"
  by (auto simp: call_thread_def Let_def completes_atomically split: option.splits if_splits dest: denied_form permitted_form)

lemma session_form:
  assumes "completes (session_thread deps rd r req c handler) h resp"
    and "\<And>sid h. completes (handler sid) h resp \<Longrightarrow> rpc_form (id_text (req_ID req)) resp"
  shows "rpc_form (id_text (req_ID req)) resp"
  using assms by (auto simp: session_thread_def)

lemma dispatch_form:
  "completes (dispatch_thread num deps rd r req c) h resp \<Longrightarrow> rpc_form (id_text (req_ID req)) resp"
  by (auto simp: dispatch_thread_def split: if_splits intro: initialize_form
      session_form [OF _ list_form] session_form [OF _ call_form])

lemma refusal_form:
  assumes "read_request n r = Inl resp"
  shows "\<exists>i. rpc_form i resp"
proof -
  have w: "\<exists>i. rpc_form i (writeError h j c m)" for h j c m by simp
  have "\<exists>i. rpc_form i too_large_response"
    by (simp add: rpc_form_def too_large_response_def writeErrorStatus_def)
  then show ?thesis
    using assms w unfolding read_request_def parse_body_def null_error_def
    by (auto simp: Let_def split: if_splits option.splits prod.splits json.splits)
qed

lemma notification_answer:
  assumes "completes (notification_thread deps rd r req c) h resp"
  shows "hr_body resp = NoBody \<and> hr_status resp \<in> {204, 400, 401, 500}"
proof -
  have e: "httpStatusForCode (sessErr_code err) \<in> {400, 401}" if "resolve rd sid c g = (Inl err, g1)" for err sid g g1
    using resolve_frame [OF that]
    by (auto simp: resolveSession_def lookupSessionClient_def httpStatusForCode_def code_defs split: if_splits option.splits)
  show ?thesis
    using assms by (auto simp: notification_thread_def status_only_def split: if_splits dest!: e)
qed

text \<open>The answer of a request that is not for a probe, in every interleaving.\<close>

lemma serve_form:
  assumes "\<not> (hi_Method r = ''GET'' \<and> hi_Path r \<in> {''/metrics'', ''/readyz''})" and "completes (serve_thread num deps rd r) h resp"
  shows "\<exists>g h'. h = (g, g) # h' \<and> (case read_request (gw_maxRequestBytes g) r of
      Inl refusal \<Rightarrow> resp = refusal \<and> h' = [] \<and> (\<exists>i. rpc_form i resp)
    | Inr req \<Rightarrow> (case req_ID req of
        None \<Rightarrow> hr_body resp = NoBody \<and> hr_status resp \<in> {204, 400, 401, 500}
      | Some i \<Rightarrow> rpc_form i resp))"
proof -
  have s: "completes (rpc_thread num deps rd r) h resp" using assms by (auto simp: serve_thread_def split: if_splits)
  then obtain g h' where h: "h = (g, g) # h'" by (auto simp: rpc_thread_def)
  note u = s [unfolded rpc_thread_def h]
  show ?thesis
  proof (cases "read_request (gw_maxRequestBytes g) r")
    case (Inl refusal)
    then show ?thesis using u refusal_form [OF Inl] by (auto simp: h)
  next
    case (Inr req)
    show ?thesis
      using u Inr
      by (cases "req_ID req") (auto simp: h status_only_def id_text_def dest: notification_answer dispatch_form)
  qed
qed

text \<open>A request without a valid credential changes no component's state and not the table.\<close>

lemma serve_inert:
  assumes "completes (serve_thread num deps rd r) h resp" and "dp_Authenticate deps (hi_Authorization r) = Inl err"
  shows "list_all (\<lambda>(g, g'). gw_table g' = gw_table g \<and> gw_state g' = gw_state g) h"
proof (cases "completes (rpc_thread num deps rd r) h resp")
  case True
  then obtain g h1 where h: "h = (g, g) # h1" by (auto simp: rpc_thread_def)
  note u = True [unfolded rpc_thread_def h]
  show ?thesis
  proof (cases "read_request (gw_maxRequestBytes g) r")
    case (Inr req)
    with u obtain g2 a g3 h2 where h2: "h1 = (g2, g3) # h2" "authenticate deps (hi_Authorization r) g2 = (a, g3)" by auto
    then have "a = Inl err" using component_calls(5) [OF h2(2)] assms(2) by simp
    then show ?thesis using u Inr h2 component_calls(5) [OF h2(2)] by (auto simp: h)
  qed (use u in \<open>auto simp: h\<close>)
qed (use assms in \<open>auto simp: serve_thread_def split: if_splits\<close>)

end
