(* ===== verification/GatewayTrace.thy ===== *)
theory GatewayTrace
  imports GatewayFlow
begin

text \<open>
  Induction over the code of \<open>internal/gateway/gateway.go\<close>: a relation between gateways that holds for
  every primitive action holds for every action of a thread, in any interleaving; when it is reflexive
  and transitive it holds for \<open>ServeHTTP\<close>.  Two instances: the trace is a faithful record of what the
  components did, and no request changes the settings.
\<close>

section \<open>The primitive actions\<close>

text \<open>The session table is only touched on behalf of the client the request authenticates.\<close>

locale gateway_step =
  fixes deps :: "'s deps" and rd :: readings and r :: http_in and R :: "'s Gateway \<Rightarrow> 's Gateway \<Rightarrow> bool"
  assumes refl: "R g g"
    and logs: "log_event deps e g = (x, g1) \<Longrightarrow> R g g1"
    and lists: "list_tools deps g = (l, g1) \<Longrightarrow> R g g1"
    and calls: "call_tool deps q g = (y, g1) \<Longrightarrow> R g g1"
    and evaluates: "evaluate_policy deps c q g = (d, g1) \<Longrightarrow> R g g1"
    and authenticates: "authenticate deps h g = (a, g1) \<Longrightarrow> R g g1"
    and counts: "R g (count f g)"
    and resolves: "dp_Authenticate deps (hi_Authorization r) = Inr c \<Longrightarrow> resolve rd (hi_Session r) c g = (z, g1) \<Longrightarrow> R g g1"
    and binds: "dp_Authenticate deps (hi_Authorization r) = Inr c \<Longrightarrow>
      R g (g\<lparr>gw_table := bindSession (rd_order rd) (rd_evict rd) (rd_bind rd) (rd_uuid rd) c (gw_table g)\<rparr>)"
begin

lemma rejects: "logSessionReject deps rd req c sid err g = (x, g1) \<Longrightarrow> R g g1"
  unfolding logSessionReject_def by (rule logs)

lemmas actions = refl logs lists calls evaluates authenticates counts resolves binds rejects

lemma conclude_every: "every_action R answer \<Longrightarrow> every_action R (conclude deps hdr req e answer)"
  by (auto simp: conclude_def actions split: option.splits)

lemma allowed_tools_every: "(\<And>allowed. every_action R (k allowed)) \<Longrightarrow> every_action R (allowed_tools deps tools allowed k)"
  by (induction tools arbitrary: allowed) (auto simp: refl)

lemma list_every: "every_action R (list_thread deps rd req c sid)"
  by (auto simp: list_thread_def Let_def actions split: sum.splits prod.splits
      intro!: conclude_every allowed_tools_every)

lemma denied_every: "every_action R (denied_thread deps rd req c sid q d)"
  by (auto simp: denied_thread_def Let_def actions intro!: conclude_every)

lemma permitted_every: "every_action R (permitted_thread deps rd req c sid q d)"
  by (auto simp: permitted_thread_def Let_def actions split: sum.splits prod.splits intro!: conclude_every)

lemma call_every: "every_action R (call_thread num deps rd req c sid)"
  by (auto simp: call_thread_def Let_def actions denied_every permitted_every split: option.splits)

lemma session_every:
  "dp_Authenticate deps (hi_Authorization r) = Inr c \<Longrightarrow> (\<And>sid. every_action R (handler sid)) \<Longrightarrow>
   every_action R (session_thread deps rd r req c handler)"
  by (auto simp: session_thread_def split: sum.splits option.splits intro: actions)

lemma notification_every:
  "dp_Authenticate deps (hi_Authorization r) = Inr c \<Longrightarrow> every_action R (notification_thread deps rd r req c)"
  by (auto simp: notification_thread_def split: sum.splits option.splits intro: actions)

lemma initialize_every:
  "dp_Authenticate deps (hi_Authorization r) = Inr c \<Longrightarrow> every_action R (initialize_thread deps rd req c (rd_uuid rd))"
  by (auto simp: initialize_thread_def intro!: conclude_every binds)

lemma dispatch_every:
  "dp_Authenticate deps (hi_Authorization r) = Inr c \<Longrightarrow> every_action R (dispatch_thread num deps rd r req c)"
  by (auto simp: dispatch_thread_def intro: initialize_every session_every list_every call_every)

lemma authenticated: "authenticate deps h g = (Inr c, g1) \<Longrightarrow> dp_Authenticate deps h = Inr c"
  using component_calls(5) [of deps h g "Inr c" g1] by simp

lemma serve_every: "every_action R (serve_thread num deps rd r)"
  by (auto simp: serve_thread_def rpc_thread_def refl authenticates split: sum.splits
      dest!: authenticated intro: notification_every dispatch_every)

end

locale gateway_relation = gateway_step +
  assumes trans: "R g g1 \<Longrightarrow> R g1 g2 \<Longrightarrow> R g g2"
begin

lemma ServeHTTP:
  assumes "ServeHTTP num deps rd r g = (resp, g')"
  shows "R g g'"
proof -
  from assms obtain h where h: "completes (serve_thread num deps rd r) h resp" "linked g h g'"
    by (auto simp: ServeHTTP_completes)
  from every_plays [OF h(1) [unfolded completes_def] serve_every]
  show ?thesis by (intro linked_relation [where R = R, OF h(2) _ refl trans]) auto
qed

end

section \<open>The trace\<close>

text \<open>Performing the calls of a trace on the components takes the state \<open>s\<close> to \<open>s'\<close> with these answers.\<close>

fun perform :: "'s deps \<Rightarrow> effect \<Rightarrow> 's \<Rightarrow> effect \<times> 's" where
  "perform deps (Authenticated h a) s = (Authenticated h (dp_Authenticate deps h), s)"
| "perform deps (Evaluated c q d) s = (case dp_Evaluate deps c q s of (d', s') \<Rightarrow> (Evaluated c q d', s'))"
| "perform deps (ListedTools l) s = (case dp_ToolsList deps s of (l', s') \<Rightarrow> (ListedTools l', s'))"
| "perform deps (CalledTool q x) s = (case dp_ToolsCall deps q s of (x', s') \<Rightarrow> (CalledTool q x', s'))"
| "perform deps (Logged e r) s = (case dp_Log deps e s of (r', s') \<Rightarrow> (Logged e r', s'))"

fun performs :: "'s deps \<Rightarrow> effect list \<Rightarrow> 's \<Rightarrow> 's \<Rightarrow> bool" where
  "performs deps [] s s' \<longleftrightarrow> s' = s"
| "performs deps (x # xs) s s' \<longleftrightarrow> fst (perform deps x s) = x \<and> performs deps xs (snd (perform deps x s)) s'"

lemma performs_append: "performs deps (xs @ ys) s s' \<longleftrightarrow> (\<exists>s1. performs deps xs s s1 \<and> performs deps ys s1 s')"
  by (induction xs arbitrary: s) auto

definition records :: "'s deps \<Rightarrow> 's Gateway \<Rightarrow> 's Gateway \<Rightarrow> bool" where
  "records deps g g' \<longleftrightarrow> (\<exists>xs. gw_trace g' = gw_trace g @ xs \<and> performs deps xs (gw_state g) (gw_state g'))"

lemma records_trans: "records deps g g1 \<Longrightarrow> records deps g1 g2 \<Longrightarrow> records deps g g2"
  by (fastforce simp: records_def performs_append)

lemma records_one:
  "gw_trace g1 = gw_trace g @ [x] \<Longrightarrow> perform deps x (gw_state g) = (x, gw_state g1) \<Longrightarrow> records deps g g1"
  by (auto simp: records_def)

lemma records_same: "gw_trace g1 = gw_trace g \<Longrightarrow> gw_state g1 = gw_state g \<Longrightarrow> records deps g g1"
  by (auto simp: records_def)

interpretation tracing: gateway_relation deps rd r "records deps" for deps :: "'s deps" and rd r
proof
  show "log_event deps e g = (x, g1) \<Longrightarrow> records deps g g1" for e g x g1
    using component_calls(1) [of deps e g x g1] by (auto intro!: records_one)
  show "list_tools deps g = (l, g1) \<Longrightarrow> records deps g g1" for g l g1
    using component_calls(2) [of deps g l g1] by (auto intro!: records_one)
  show "call_tool deps q g = (y, g1) \<Longrightarrow> records deps g g1" for q g y g1
    using component_calls(3) [of deps q g y g1] by (auto intro!: records_one)
  show "evaluate_policy deps c q g = (d, g1) \<Longrightarrow> records deps g g1" for c q g d g1
    using component_calls(4) [of deps c q g d g1] by (auto intro!: records_one)
  show "authenticate deps h g = (a, g1) \<Longrightarrow> records deps g g1" for h g a g1
    using component_calls(5) [of deps h g a g1] by (auto intro!: records_one)
qed (auto intro: records_same records_trans simp: resolve_frame)

text \<open>The settings of the gateway and of its table.\<close>

definition settings :: "'s Gateway \<Rightarrow> duration \<times> int \<times> duration \<times> int" where
  "settings g = (gw_requestTimeout g, gw_maxRequestBytes g, st_ttl (gw_table g), st_max (gw_table g))"

lemma performs_since:
  assumes "ServeHTTP num deps rd r g = (resp, g')"
  shows "performs deps (since g g') (gw_state g) (gw_state g')"
  using tracing.ServeHTTP [OF assms] by (auto simp: records_def since_def)

lemma evictOldest_settings [simp]:
  "st_ttl (evictOldestLocked ord n reason t) = st_ttl t" "st_max (evictOldestLocked ord n reason t) = st_max t"
  by (induction ord n reason t rule: evictOldestLocked.induct) (simp_all add: Let_def)

lemma bind_settings [simp]:
  "st_ttl (bindSession ord n1 n2 sid c t) = st_ttl t" "st_max (bindSession ord n1 n2 sid c t) = st_max t"
  by (simp_all add: bindSession_def Let_def)

interpretation setting: gateway_relation deps rd r "\<lambda>g g'. settings g' = settings g" for deps :: "'s deps" and rd r
proof
  show "resolve rd (hi_Session r) c g = (z, g1) \<Longrightarrow> settings g1 = settings g" for c g z g1
    using resolve_table [of "rd_resolve rd" "hi_Session r" c "gw_table g"]
    by (auto simp: resolve_def settings_def split: prod.splits)
qed (auto simp: settings_def log_event_def list_tools_def call_tool_def evaluate_policy_def authenticate_def Let_def
    note_effect_def count_def split: prod.splits)

section \<open>One request without interruption\<close>

text \<open>What holds of every history of a request's thread holds of \<open>ServeHTTP\<close>.\<close>

lemma records_appends: "records deps g g' \<Longrightarrow> appends g g'"
  by (auto simp: records_def appends_def since_def)

lemma ServeHTTP_history:
  assumes "ServeHTTP num deps rd r g = (resp, g')"
  shows "\<exists>h. completes (serve_thread num deps rd r) h resp \<and> linked g h g' \<and>
    since g g' = effects h \<and> gw_trace g' = gw_trace g @ effects h"
proof -
  from assms obtain h where h: "completes (serve_thread num deps rd r) h resp" "linked g h g'"
    by (auto simp: ServeHTTP_completes)
  have "list_all (\<lambda>(g, g'). appends g g') h"
    using every_plays [OF h(1) [unfolded completes_def] tracing.serve_every [where deps = deps]]
    by (auto simp: list_all_iff records_appends)
  then show ?thesis using h linked_effects linked_since by metis
qed

lemma served_since:
  assumes "ServeHTTP num deps rd r g = (resp, g')"
  shows "served (hi_Authorization r) (dp_Authenticate deps (hi_Authorization r)) resp (since g g')"
  using ServeHTTP_history [OF assms] serve_script by metis

lemma served_trace:
  assumes "ServeHTTP num deps rd r g = (resp, g')"
  shows "gw_trace g' = gw_trace g @ since g g'"
  using ServeHTTP_history [OF assms] by metis


lemma linked_still:
  "linked g (h1 @ (g1, g1') # h2) g' \<Longrightarrow> list_all (\<lambda>(g, g'). gw_table g' = gw_table g) h1 \<Longrightarrow> gw_table g1 = gw_table g"
  by (induction h1 arbitrary: g) auto

lemma gate_ServeHTTP:
  assumes "ServeHTTP num deps rd r g = (resp, g')" and "x \<in> set (since g g')" and "session_work x"
  shows "\<exists>c. dp_Authenticate deps (hi_Authorization r) = Inr c \<and> valid_session (rd_resolve rd) (hi_Session r) c (gw_table g)"
proof -
  obtain h where h: "completes (serve_thread num deps rd r) h resp" "linked g h g'" "since g g' = effects h"
    using ServeHTTP_history [OF assms(1)] by blast
  obtain c where c: "dp_Authenticate deps (hi_Authorization r) = Inr c" "gated rd (hi_Session r) c h"
    using serve_gated [OF h(1)] assms(2,3) h(3) by auto
  moreover have "\<not> list_all (\<lambda>x. \<not> session_work x) (effects h)" using assms(2,3) h(3) by (auto simp: list_all_iff)
  ultimately show ?thesis using linked_still h(2) by (fastforce simp: gated_def)
qed

lemma linked_constant: "linked g h g' \<Longrightarrow> list_all (\<lambda>(g, g'). f g' = f g) h \<Longrightarrow> f g' = f g"
  by (induction g h g' rule: linked.induct) auto

lemma inert_ServeHTTP:
  assumes "ServeHTTP num deps rd r g = (resp, g')" and "dp_Authenticate deps (hi_Authorization r) = Inl err"
  shows "gw_table g' = gw_table g \<and> gw_state g' = gw_state g"
proof -
  obtain h where h: "completes (serve_thread num deps rd r) h resp" "linked g h g'"
    using ServeHTTP_history [OF assms(1)] by blast
  from serve_inert [OF h(1) assms(2)] show ?thesis
    using linked_constant [OF h(2), of "\<lambda>g. (gw_table g, gw_state g)"] by simp
qed

end
