(* ===== verification/GatewaySpec.thy ===== *)
theory GatewaySpec
  imports GatewayTrace
begin

text \<open>
  The properties of the handler of \<open>internal/gateway/gateway.go\<close>, over every implementation of the
  components it is built from, and a small instance on which they are exercised.
\<close>

section \<open>A concrete instance\<close>

definition sample_decision :: "string \<Rightarrow> Decision" where
  "sample_decision act = \<lparr>dec_Action = act, dec_Rule = ''r'', dec_Reason = '''', dec_RateLimited = False, dec_RetryAfterMs = 0\<rparr>"

text \<open>One key, one tool, a policy that answers \<open>act\<close> and an audit log that answers \<open>x\<close>.\<close>

definition sample_deps :: "string \<Rightarrow> audit_error option \<Rightarrow> unit deps" where
  "sample_deps act x = \<lparr>
     dp_Authenticate = (\<lambda>h. if h = ''Bearer k'' then Inr ''c'' else Inl InvalidAPIKey),
     dp_IsToolAllowed = (\<lambda>s n. n = ''u.t''),
     dp_Evaluate = (\<lambda>c q s. (sample_decision act, s)),
     dp_ToolsList = (\<lambda>s. (Inr [sample_tool ''u.t'', sample_tool ''u.v''], s)),
     dp_ToolsCall = (\<lambda>q s. (Inr \<lparr>cr_UpstreamID = ''u'', cr_Result = \<lparr>result_Content = None\<rparr>\<rparr>, s)),
     dp_Ready = (\<lambda>s. True),
     dp_Log = (\<lambda>e s. (x, s))\<rparr>"

definition sample_readings :: readings where
  "sample_readings = \<lparr>rd_event = 5, rd_resolve = 5, rd_evict = 5, rd_bind = 5, rd_since = 1, rd_uuid = ''n'', rd_order = (\<lambda>k m. m)\<rparr>"

definition sample_body :: string where
  "sample_body = marshal_envelope 1 ''tools/call'' (Some (marshal_ToolsCallRequest sample_call_req))"

definition sample_rpc :: Request where
  "sample_rpc = \<lparr>req_JSONRPC = ''2.0'', req_ID = Some (show_int 1), req_Method = ''tools/call'',
     req_Params = Some (marshal_ToolsCallRequest sample_call_req)\<rparr>"

definition sample_gateway :: "unit Gateway" where
  "sample_gateway = \<lparr>gw_requestTimeout = 1, gw_maxRequestBytes = int (length sample_body),
     gw_table = \<lparr>st_clients = [(''s'', \<lparr>sb_clientID = ''c'', sb_expiresAt = 9\<rparr>)], st_ttl = 4, st_max = 2, st_metrics = None\<rparr>,
     gw_state = (), gw_trace = []\<rparr>"

text \<open>Serving the call for the client with the authorization header \<open>h\<close>.\<close>

definition sample_run :: "string \<Rightarrow> string \<Rightarrow> string \<Rightarrow> audit_error option \<Rightarrow> http_response \<times> unit Gateway" where
  "sample_run h sid act x = ServeHTTP Some (sample_deps act x) sample_readings (post h sid sample_body) sample_gateway"

lemma sample_read: "read_request (int (length sample_body)) (post h sid sample_body) = Inr sample_rpc"
  using call_request_read [OF sample_call_ok, of "post h sid sample_body" 1] by (simp add: sample_body_def sample_rpc_def)

lemma sample_params: "call_params Some sample_rpc = Some (canon_call sample_call_req)"
  using call_params_round [OF sample_call_ok] by (simp add: sample_rpc_def)

lemmas sample_defs = sample_run_def sample_gateway_def sample_deps_def sample_readings_def

lemma sample_request: "req_ID sample_rpc = Some (show_int 1)" "req_Method sample_rpc = ''tools/call''"
  "call_Name (canon_call sample_call_req) = ''u.t''"
  by (simp_all add: sample_rpc_def canon_call_def sample_call_req_def)

lemma sample_after: "After 9 5" "Add 5 4 = 9"
  by (simp_all add: After_def Add_def)

lemmas sample_eval = sample_defs ServeHTTP_def serve_rpc_def sample_read authenticate_def sample_request dispatch_def
  with_session_def resolve_def resolveSession_def lookupSessionClient_def sample_after handleToolsCall_def sample_params
  evaluate_policy_def denied_call_def permitted_call_def log_event_def call_tool_def note_effect_def Let_def
  sample_decision_def count_def

lemma sample_unauthorized:
  "sample_run ''x'' sid act x =
    (writeError None (Some (show_int 1)) CodeUnauthorized ''unauthorized'',
     sample_gateway\<lparr>gw_trace := [Authenticated ''x'' (Inl InvalidAPIKey)]\<rparr>)"
  by (simp add: sample_eval)

definition allowed_event :: Event where
  "allowed_event = (call_event sample_readings sample_rpc ''c'' ''s'' (canon_call sample_call_req) (sample_decision ''allow''))
     \<lparr>ev_Duration := 1, ev_UpstreamID := ''u'', ev_Response := Some (PToolsCall \<lparr>result_Content = None\<rparr>)\<rparr>"

lemma sample_allowed:
  "fst (sample_run ''Bearer k'' ''s'' ''allow'' None) =
    writeResult (Some ''s'') (Some (show_int 1)) (PToolsCall \<lparr>result_Content = None\<rparr>)"
  "gw_trace (snd (sample_run ''Bearer k'' ''s'' ''allow'' None)) =
    [Authenticated ''Bearer k'' (Inr ''c''), Evaluated ''c'' (canon_call sample_call_req) (sample_decision ''allow''),
     CalledTool (canon_call sample_call_req) (Inr \<lparr>cr_UpstreamID = ''u'', cr_Result = \<lparr>result_Content = None\<rparr>\<rparr>),
     Logged allowed_event None]"
  by (simp_all add: sample_eval allowed_event_def)

lemma sample_failed:
  "fst (sample_run ''Bearer k'' ''s'' ''allow'' (Some ErrAuditFull)) = audit_failed (Some ''s'') (Some (show_int 1))"
  "gw_trace (snd (sample_run ''Bearer k'' ''s'' ''allow'' (Some ErrAuditFull))) =
    [Authenticated ''Bearer k'' (Inr ''c''), Evaluated ''c'' (canon_call sample_call_req) (sample_decision ''allow''),
     CalledTool (canon_call sample_call_req) (Inr \<lparr>cr_UpstreamID = ''u'', cr_Result = \<lparr>result_Content = None\<rparr>\<rparr>),
     Logged allowed_event (Some ErrAuditFull)]"
  by (simp_all add: sample_eval allowed_event_def)

lemma sample_since [simp]: "since sample_gateway g = gw_trace g"
  by (simp add: since_def sample_gateway_def)

lemma sample_pair:
  "ServeHTTP Some (sample_deps act x) sample_readings (post h sid sample_body) sample_gateway =
    (fst (sample_run h sid act x), snd (sample_run h sid act x))"
  by (simp add: sample_run_def)

lemmas sample_ok = sample_pair [of "''allow''" None "''Bearer k''" "''s''"]
lemmas sample_unaudited = sample_pair [of "''allow''" "Some ErrAuditFull" "''Bearer k''" "''s''"]
lemmas sample_anonymous = sample_pair [of "''allow''" None "''x''" "''s''"]

section \<open>Properties\<close>

text \<open>
  C7: The handler refines the protocol of a request.  Whatever the components answer, the calls one
  request makes on them (but for the read-only \<open>Ready\<close> and \<open>IsToolAllowed\<close>, which the trace does not
  record) are one of the sequences of the protocol, and the response is the one the
  protocol attaches to it: nothing, or an authentication, then at most one policy decision, at most
  one use of the upstream, and one audit record, which comes last and decides the response.
  Performing these calls on the components, one after the other, gives these answers and the new state.
\<close>

theorem gateway_refines_protocol:
  "gw_trace (snd (ServeHTTP num deps rd r g)) = gw_trace g @ since g (snd (ServeHTTP num deps rd r g)) \<and>
   served (hi_Authorization r) (dp_Authenticate deps (hi_Authorization r)) (fst (ServeHTTP num deps rd r g))
     (since g (snd (ServeHTTP num deps rd r g))) \<and>
   performs deps (since g (snd (ServeHTTP num deps rd r g))) (gw_state g) (gw_state (snd (ServeHTTP num deps rd r g)))"
  using served_trace [OF prod.collapse [symmetric]] served_since [OF prod.collapse [symmetric]]
    performs_since [OF prod.collapse [symmetric]] by blast

text \<open>
  C5: Complete mediation.  A tool call reaches an upstream only when the client authenticated, holds
  the live session it names, and the policy decided about exactly this call and did not deny it; and
  every call that is made is audited, with its tool, its client and the decision, whatever the
  upstream answers.
\<close>

theorem complete_mediation:
  assumes "ServeHTTP num deps rd r g = (resp, g')" and "CalledTool q x \<in> set (since g g')"
  shows "\<exists>c d e lr. dp_Authenticate deps (hi_Authorization r) = Inr c \<and>
    valid_session (rd_resolve rd) (hi_Session r) c (gw_table g) \<and> dec_Action d \<noteq> ''deny'' \<and>
    since g g' = [Authenticated (hi_Authorization r) (Inr c), Evaluated c q d, CalledTool q x, Logged e lr] \<and>
    ev_Action e = ''tools/call'' \<and> ev_Tool e = call_Name q \<and> ev_ClientID e = c"
  using served_since [OF assms(1)] assms(2) gate_ServeHTTP [OF assms]
  by (cases rule: served.cases) (auto dest!: script_call)

theorem complete_mediation_witness:
  "\<exists>c d e lr. dec_Action d \<noteq> ''deny'' \<and> ev_Tool e = ''u.t'' \<and> ev_ClientID e = c \<and>
    gw_trace (snd (sample_run ''Bearer k'' ''s'' ''allow'' None)) =
      [Authenticated ''Bearer k'' (Inr c), Evaluated c (canon_call sample_call_req) d,
       CalledTool (canon_call sample_call_req) (Inr \<lparr>cr_UpstreamID = ''u'', cr_Result = \<lparr>result_Content = None\<rparr>\<rparr>), Logged e lr]"
  using complete_mediation [OF sample_ok, of "canon_call sample_call_req" "Inr \<lparr>cr_UpstreamID = ''u'', cr_Result = \<lparr>result_Content = None\<rparr>\<rparr>"]
  by (fastforce simp: sample_allowed(2) sample_request)

text \<open>
  C8: No result without an audit record.  When a response carries a result, the last call the request
  made on the components is an audit call that succeeded, for the authenticated client, with an event
  that holds this very result.
\<close>

theorem audited_result:
  assumes "ServeHTTP num deps rd r g = (resp, g')" and "result_of resp = Some p"
  shows "\<exists>xs e c. since g g' = xs @ [Logged e None] \<and> ev_Response e = Some p \<and>
    dp_Authenticate deps (hi_Authorization r) = Inr c \<and> ev_ClientID e = c"
  using served_since [OF assms(1)] assms(2)
proof (cases rule: served.cases)
  case (authenticated c xs)
  from script_result [OF authenticated(3) assms(2)] authenticated(1,2) show ?thesis by auto
qed auto

theorem audited_result_witness:
  "\<exists>xs e. gw_trace (snd (sample_run ''Bearer k'' ''s'' ''allow'' None)) = xs @ [Logged e None] \<and>
    ev_Response e = Some (PToolsCall \<lparr>result_Content = None\<rparr>) \<and> ev_ClientID e = ''c''"
  using audited_result [OF sample_ok, of "PToolsCall \<lparr>result_Content = None\<rparr>"]
  by (fastforce simp: sample_allowed sample_deps_def)

text \<open>
  C9: The gateway fails closed.  When the audit log refuses the record of a request, the response is an
  error with status 500 and carries no result, also when the upstream has already answered.
\<close>

theorem audit_failure_closed:
  assumes "ServeHTTP num deps rd r g = (resp, g')" and "Logged e (Some x) \<in> set (since g g')"
  shows "hr_status resp = 500 \<and> result_of resp = None"
  using served_since [OF assms(1)] assms(2) by (cases rule: served.cases) (auto dest: script_log_failure)

theorem audit_failure_closed_witness:
  "hr_status (fst (sample_run ''Bearer k'' ''s'' ''allow'' (Some ErrAuditFull))) = 500 \<and>
   result_of (fst (sample_run ''Bearer k'' ''s'' ''allow'' (Some ErrAuditFull))) = None"
  using audit_failure_closed [OF sample_unaudited, of allowed_event ErrAuditFull] by (simp add: sample_failed(2))

text \<open>
  C10: Without a valid credential nothing happens.  When the authenticator rejects the credential of a
  request, the session table and the components' state stay as they are, the response carries no result,
  and the only call that can change a component, if any, is that of the authenticator.  Moreover the
  response and the new state of the gateway are the same with any other policy, upstream manager and
  audit log, so none of them is consulted; the one exception is the readiness probe \<open>GET /readyz\<close>, which
  needs no credential and answers whether the upstream manager is ready, and nothing else.
\<close>

theorem unauthenticated_inert:
  assumes "ServeHTTP num deps rd r g = (resp, g')" and "dp_Authenticate deps (hi_Authorization r) = Inl err"
  shows "gw_table g' = gw_table g \<and> gw_state g' = gw_state g \<and> result_of resp = None \<and>
    set (since g g') \<subseteq> {Authenticated (hi_Authorization r) (Inl err)} \<and>
    (if hi_Method r = ''GET'' \<and> hi_Path r = ''/readyz''
     then g' = g \<and> resp = \<lparr>hr_status = if dp_Ready deps (gw_state g) then 200 else 503, hr_session = None, hr_body = NoBody\<rparr>
     else \<forall>deps'. dp_Authenticate deps' (hi_Authorization r) = Inl err \<longrightarrow> ServeHTTP num deps' rd r g = (resp, g'))"
proof -
  from served_since [OF assms(1)] assms(2) have "result_of resp = None \<and> set (since g g') \<subseteq> {Authenticated (hi_Authorization r) (Inl err)}"
    by (cases rule: served.cases) auto
  moreover have "g' = g \<and> resp = \<lparr>hr_status = if dp_Ready deps (gw_state g) then 200 else 503, hr_session = None, hr_body = NoBody\<rparr>"
    if "hi_Method r = ''GET''" "hi_Path r = ''/readyz''"
    using assms(1) that by (auto simp: ServeHTTP_def status_only_def)
  moreover have "ServeHTTP num deps' rd r g = (resp, g')"
    if "\<not> (hi_Method r = ''GET'' \<and> hi_Path r = ''/readyz'')" "dp_Authenticate deps' (hi_Authorization r) = Inl err" for deps'
    using assms that by (auto simp: ServeHTTP_def serve_rpc_def authenticate_def Let_def split: sum.splits)
  ultimately show ?thesis using inert_ServeHTTP [OF assms] by simp
qed

theorem unauthenticated_inert_witness:
  "gw_table (snd (sample_run ''x'' ''s'' ''allow'' None)) = gw_table sample_gateway \<and>
   ServeHTTP Some (sample_deps ''deny'' (Some ErrAuditFull)) sample_readings (post ''x'' ''s'' sample_body) sample_gateway =
     (writeError None (Some (show_int 1)) CodeUnauthorized ''unauthorized'',
      sample_gateway\<lparr>gw_trace := [Authenticated ''x'' (Inl InvalidAPIKey)]\<rparr>)"
proof -
  have a: "dp_Authenticate (sample_deps act x) ''x'' = Inl InvalidAPIKey" for act x by (simp add: sample_deps_def)
  have m: "hi_Authorization (post ''x'' ''s'' sample_body) = ''x''" "hi_Method (post ''x'' ''s'' sample_body) \<noteq> ''GET''" by simp_all
  note u = unauthenticated_inert [OF sample_anonymous, of InvalidAPIKey, unfolded m(1), OF a]
  have t: "gw_table (snd (sample_run ''x'' ''s'' ''allow'' None)) = gw_table sample_gateway" using u by simp
  have "\<forall>deps'. dp_Authenticate deps' ''x'' = Inl InvalidAPIKey \<longrightarrow>
      ServeHTTP Some deps' sample_readings (post ''x'' ''s'' sample_body) sample_gateway =
        (fst (sample_run ''x'' ''s'' ''allow'' None), snd (sample_run ''x'' ''s'' ''allow'' None))"
    using u m(2) by simp
  then show ?thesis using t a [of "''deny''" "Some ErrAuditFull"] by (simp add: sample_unauthorized)
qed



section \<open>Sequences of requests\<close>

text \<open>
  The requests a gateway has served, in the order in which they were; the readings give fresh session
  ids that are not empty, and visit the map in some order.
\<close>

inductive gateway_run :: "num_fn \<Rightarrow> 's deps \<Rightarrow> 's Gateway \<Rightarrow> http_in list \<Rightarrow> 's Gateway \<Rightarrow> bool" for num deps g0 where
  idle: "gateway_run num deps g0 [] g0"
| serve: "gateway_run num deps g0 rs g \<Longrightarrow> permutes (rd_order rd) \<Longrightarrow> rd_uuid rd \<noteq> '''' \<Longrightarrow>
    ServeHTTP num deps rd r g = (resp, g') \<Longrightarrow> gateway_run num deps g0 (rs @ [r]) g'"

text \<open>Every bound client has authenticated in one of the requests.\<close>

definition owners_known :: "'s deps \<Rightarrow> http_in list \<Rightarrow> SessionTable \<Rightarrow> bool" where
  "owners_known deps rs t \<longleftrightarrow> (\<forall>b \<in> set (st_clients t). \<exists>r \<in> set rs. dp_Authenticate deps (hi_Authorization r) = Inr (sb_clientID (snd b)))"

definition table_ok :: "duration \<Rightarrow> int \<Rightarrow> SessionTable \<Rightarrow> bool" where
  "table_ok ttl mx t \<longleftrightarrow> table_inv t \<and> st_ttl t = ttl \<and> st_max t = mx \<and> int (length (st_clients t)) \<le> mx"

lemma resolve_owners:
  "owners_known deps rs t \<Longrightarrow> owners_known deps rs (snd (resolveSession now sid c t))"
proof -
  assume o: "owners_known deps rs t"
  have upd: "x \<in> set (AList.update sid (b\<lparr>sb_expiresAt := e\<rparr>) m) \<Longrightarrow> map_of m sid = Some b \<Longrightarrow>
      \<exists>y \<in> set m. sb_clientID (snd x) = sb_clientID (snd y)" for x m b e
    by (induction m) (auto split: if_splits)
  show ?thesis
    using o resolve_table [of now sid c t] unfolding owners_known_def
    by (auto simp: AList.delete_eq split: if_splits option.splits) (metis upd snd_conv)+
qed

lemma bind_owners:
  assumes "table_inv t" and "permutes ord" and "0 < st_max t" and "sid \<noteq> ''''"
    and "owners_known deps rs t" and "r \<in> set rs" and "dp_Authenticate deps (hi_Authorization r) = Inr c"
  shows "owners_known deps rs (bindSession ord now1 now2 sid c t)"
proof -
  obtain gone where g: "st_clients (bindSession ord now1 now2 sid c t) =
      AList.update sid \<lparr>sb_clientID = c, sb_expiresAt = Add now2 (st_ttl t)\<rparr>
        (filter (\<lambda>x. live now1 x \<and> fst x \<notin> gone) (st_clients t))"
    using bindSession_spec [OF assms(1-4) refl] by blast
  have "x \<in> set (AList.update sid v m) \<Longrightarrow> x \<in> set m \<or> snd x = v" for x and v :: sessionBinding and m
    by (induction m) (auto split: if_splits)
  then show ?thesis using assms(5-7) by (fastforce simp: owners_known_def g)
qed

lemma owners_mono: "owners_known deps rs t \<Longrightarrow> owners_known deps (rs @ [r]) t"
  by (auto simp: owners_known_def)

text \<open>The invariant of the table while requests run, the request \<open>r\<close> among them.\<close>

definition table_safe :: "'s deps \<Rightarrow> duration \<Rightarrow> int \<Rightarrow> http_in list \<Rightarrow> SessionTable \<Rightarrow> bool" where
  "table_safe deps ttl mx rs t \<longleftrightarrow> 0 < mx \<and> table_ok ttl mx t \<and> owners_known deps rs t"

lemma resolve_safe: "table_safe deps ttl mx rs t \<Longrightarrow> table_safe deps ttl mx rs (snd (resolveSession now sid c t))"
  using resolve_inv [of t now sid c] resolve_table [of now sid c t] resolve_length [of t now sid c]
  by (auto simp: table_safe_def table_ok_def resolve_owners)

lemma bind_safe:
  assumes "table_safe deps ttl mx rs t" and "permutes ord" and "sid \<noteq> ''''" and "r \<in> set rs"
    and "dp_Authenticate deps (hi_Authorization r) = Inr c"
  shows "table_safe deps ttl mx rs (bindSession ord now1 now2 sid c t)"
proof -
  from assms(1) have t: "table_inv t" "0 < st_max t" by (auto simp: table_safe_def table_ok_def)
  show ?thesis
    using bindSession_spec [OF t(1) assms(2) t(2) assms(3) refl] bind_owners [OF t(1) assms(2) t(2) assms(3) _ assms(4,5)]
      assms(1) by (auto simp: table_safe_def table_ok_def)
qed

lemma safe_same:
  "st_clients t' = st_clients t \<Longrightarrow> st_ttl t' = st_ttl t \<Longrightarrow> st_max t' = st_max t \<Longrightarrow>
   table_safe deps ttl mx rs t' = table_safe deps ttl mx rs t"
  by (simp add: table_safe_def table_ok_def table_inv_def owners_known_def)

text \<open>The readings a request may see.\<close>

definition readings_ok :: "readings \<Rightarrow> bool" where
  "readings_ok rd \<longleftrightarrow> permutes (rd_order rd) \<and> rd_uuid rd \<noteq> ''''"

definition keeps_safe :: "'s deps \<Rightarrow> readings \<Rightarrow> http_in \<Rightarrow> 's Gateway \<Rightarrow> 's Gateway \<Rightarrow> bool" where
  "keeps_safe deps rd r g g' \<longleftrightarrow> (\<forall>ttl mx rs. readings_ok rd \<longrightarrow> r \<in> set rs \<longrightarrow>
     table_safe deps ttl mx rs (gw_table g) \<longrightarrow> table_safe deps ttl mx rs (gw_table g'))"

interpretation table_keeping: gateway_relation deps rd r "keeps_safe deps rd r" for deps :: "'s deps" and rd r
proof
  show "keeps_safe deps rd r g (count f g)" for f g by (simp add: keeps_safe_def safe_same [of "gw_table (count f g)" "gw_table g"])
  show "keeps_safe deps rd r g g1" if "resolve rd (hi_Session r) c g = (z, g1)" for c g z g1
    using resolve_frame [OF that] resolve_safe [of deps _ _ _ "gw_table g" "rd_resolve rd" "hi_Session r" c]
    by (simp add: keeps_safe_def)
  show "keeps_safe deps rd r g (g\<lparr>gw_table := bindSession (rd_order rd) (rd_evict rd) (rd_bind rd) (rd_uuid rd) c (gw_table g)\<rparr>)"
    if "dp_Authenticate deps (hi_Authorization r) = Inr c" for c g
    using that bind_safe by (auto simp: keeps_safe_def readings_ok_def)
qed (auto simp: keeps_safe_def dest: component_calls)

lemma gateway_run_ok:
  "gateway_run num deps g0 rs g \<Longrightarrow> 0 < mx \<Longrightarrow> table_ok ttl mx (gw_table g0) \<Longrightarrow> st_clients (gw_table g0) = [] \<Longrightarrow>
   table_ok ttl mx (gw_table g) \<and> owners_known deps rs (gw_table g)"
proof (induction rule: gateway_run.induct)
  case idle
  then show ?case by (simp add: owners_known_def)
next
  case (serve rs g rd r resp g')
  have "table_safe deps ttl mx (rs @ [r]) (gw_table g)"
    using serve by (simp add: table_safe_def owners_mono)
  moreover have "keeps_safe deps rd r g g'" by (rule table_keeping.ServeHTTP [OF serve.hyps(4)])
  ultimately have "table_safe deps ttl mx (rs @ [r]) (gw_table g')"
    using serve.hyps(2,3) by (simp add: keeps_safe_def readings_ok_def)
  then show ?case by (simp add: table_safe_def)
qed

text \<open>
  The session table of a running gateway.  From its construction on, after every sequence of requests,
  the table holds no more sessions than configured, its ids are distinct and not empty, and each
  session belongs to a client that authenticated in one of those requests.
\<close>

theorem sessions_invariant:
  assumes "NewGateway s0 cfg = Inr g0" and "gateway_run num deps g0 rs g"
  shows "int (length (st_clients (gw_table g))) \<le> gc_SessionMaxEntries cfg \<and> table_inv (gw_table g) \<and>
    (\<forall>b \<in> set (st_clients (gw_table g)). \<exists>r \<in> set rs. dp_Authenticate deps (hi_Authorization r) = Inr (sb_clientID (snd b)))"
proof -
  have "0 < gc_SessionMaxEntries cfg" "table_ok (gc_SessionTTL cfg) (gc_SessionMaxEntries cfg) (gw_table g0)"
    "st_clients (gw_table g0) = []"
    using assms(1) by (auto simp: NewGateway_def validateConfig_def table_ok_def table_inv_def named_def is_map_def
        split: option.splits if_splits)
  from gateway_run_ok [OF assms(2) this] show ?thesis by (auto simp: table_ok_def owners_known_def)
qed

definition init_body :: string where "init_body = marshal_envelope 1 ''initialize'' None"

definition new_config :: gateway_config where
  "new_config = \<lparr>gc_RequestTimeout = 1, gc_MaxRequestBytes = int (length init_body), gc_SessionTTL = 4, gc_SessionMaxEntries = 1\<rparr>"

definition new_gateway :: "unit Gateway" where
  "new_gateway = \<lparr>gw_requestTimeout = 1, gw_maxRequestBytes = int (length init_body),
     gw_table = \<lparr>st_clients = [], st_ttl = 4, st_max = 1, st_metrics = None\<rparr>, gw_state = (), gw_trace = []\<rparr>"

definition sample_initialize :: "http_response \<times> unit Gateway" where
  "sample_initialize = ServeHTTP Some (sample_deps ''allow'' None) sample_readings (post ''Bearer k'' '''' init_body) new_gateway"

lemma initialize_read: "read_request (int (length init_body)) (post ''Bearer k'' '''' init_body) =
    Inr \<lparr>req_JSONRPC = ''2.0'', req_ID = Some (show_int 1), req_Method = ''initialize'', req_Params = None\<rparr>"
  by (rule read_envelope) (simp_all add: init_body_def params_ok_def ascii_valid)

lemma initialize_binds: "map fst (st_clients (gw_table (snd sample_initialize))) = [''n'']"
  by (simp add: sample_initialize_def new_gateway_def initialize_read sample_eval handleInitialize_def bindSession_def
      evictExpiredLocked_def updateActiveSessionsMetricLocked_def)

lemma new_gateway_ok: "NewGateway () new_config = Inr new_gateway"
  by (simp add: NewGateway_def validateConfig_def new_config_def new_gateway_def init_body_def marshal_envelope_def json_object_def)

lemma initialize_pair:
  "ServeHTTP Some (sample_deps ''allow'' None) sample_readings (post ''Bearer k'' '''' init_body) new_gateway =
    (fst sample_initialize, snd sample_initialize)"
  by (simp add: sample_initialize_def)

lemma sample_readings_ok: "readings_ok sample_readings"
  by (simp add: readings_ok_def sample_readings_def permutes_def)

theorem sessions_invariant_witness:
  "length (st_clients (gw_table (snd sample_initialize))) = 1 \<and> table_inv (gw_table (snd sample_initialize))"
proof -
  note r = sample_readings_ok [unfolded readings_ok_def, THEN conjunct1] sample_readings_ok [unfolded readings_ok_def, THEN conjunct2]
  from sessions_invariant [OF new_gateway_ok gateway_run.serve [OF gateway_run.idle r initialize_pair]] initialize_binds
  show ?thesis by (auto simp: new_config_def dest: arg_cong [where f = length])
qed

text \<open>
  C13: What a denied call answers.  When the policy denies a call and the audit log takes the record, the
  client gets a JSON-RPC error with the rule and the reason of the decision as its data, under the code of
  a denial with status 200; a rate limit has its own code and message, status 429 and the time to wait.
  The audit record holds the same error, the tool, the client and the decision; the upstream is not
  asked, and the sessions stay as they are.
\<close>

theorem denied_answer:
  assumes "call_params num req = Some q" and "call_Name q \<noteq> ''''" and "dp_Evaluate deps c q (gw_state g) = (d, s1)"
    and "dec_Action d = ''deny''" and "\<And>e. fst (dp_Log deps e s1) = None"
  shows "\<exists>e s2 g'. dp_Log deps e s1 = (None, s2) \<and> gw_state g' = s2 \<and>
    ev_Action e = ''tools/call'' \<and> ev_Decision e = ''deny'' \<and> ev_Tool e = call_Name q \<and> ev_Arguments e = call_Arguments q \<and>
    ev_ClientID e = c \<and> ev_SessionID e = sid \<and> ev_PolicyRule e = dec_Rule d \<and> ev_Reason e = dec_Reason d \<and>
    ev_Error e = Some \<lparr>ae_Code = if dec_RateLimited d then -32003 else -32001,
      ae_Message = if dec_RateLimited d then ''rate limited'' else ''policy denied'',
      ae_Data = Some (AMap ([(''rule'', AString (dec_Rule d)), (''reason'', AString (dec_Reason d))] @
        (if dec_RateLimited d then [(''retry_after_ms'', ANumber (show_int (dec_RetryAfterMs d)))] else [])))\<rparr> \<and>
    gw_trace g' = gw_trace g @ [Evaluated c q d, Logged e None] \<and> st_clients (gw_table g') = st_clients (gw_table g) \<and>
    handleToolsCall num deps rd req c sid g =
      (\<lparr>hr_status = if dec_RateLimited d then 429 else 200, hr_session = Some sid,
        hr_body = JsonBody \<lparr>resp_JSONRPC = ''2.0'', resp_ID = (case req_ID req of None \<Rightarrow> ''null'' | Some i \<Rightarrow> i),
          resp_Result = None,
          resp_Error = Some \<lparr>err_Code = if dec_RateLimited d then -32003 else -32001,
            err_Message = if dec_RateLimited d then ''rate limited'' else ''policy denied'',
            err_Data = Some ([(''rule'', AString (dec_Rule d)), (''reason'', AString (dec_Reason d))] @
              (if dec_RateLimited d then [(''retry_after_ms'', ANumber (show_int (dec_RetryAfterMs d)))] else []))\<rparr>\<rparr>\<rparr>, g')"
proof -
  let ?dt = "[(''rule'', AString (dec_Rule d)), (''reason'', AString (dec_Reason d))] @
    (if dec_RateLimited d then [(''retry_after_ms'', ANumber (show_int (dec_RetryAfterMs d)))] else [])"
  let ?e = "(call_event rd req c sid q d)\<lparr>ev_Duration := rd_since rd,
    ev_Error := Some (normalizedError (if dec_RateLimited d then -32003 else -32001)
      (if dec_RateLimited d then ''rate limited'' else ''policy denied'') ?dt)\<rparr>"
  obtain s2 where l: "dp_Log deps ?e s1 = (None, s2)" using assms(5) [of ?e] by (cases "dp_Log deps ?e s1") auto
  note facts = assms(1-4) l handleToolsCall_def evaluate_policy_def denied_call_def log_event_def Let_def
    limit_data_def deny_data_def normalizedError_def writeErrorWithData_def httpStatusForCode_def code_defs id_text_def
    call_event_def new_event_def note_effect_def count_def
  show ?thesis
    by (rule exI [of _ ?e], rule exI [of _ s2]) (cases "dec_RateLimited d"; use l in \<open>simp add: facts\<close>)
qed

theorem denied_answer_witness:
  "fst (handleToolsCall Some (sample_deps ''deny'' None) sample_readings sample_rpc ''c'' ''s'' sample_gateway) =
    \<lparr>hr_status = 200, hr_session = Some ''s'',
     hr_body = JsonBody \<lparr>resp_JSONRPC = ''2.0'', resp_ID = show_int 1, resp_Result = None,
       resp_Error = Some \<lparr>err_Code = -32001, err_Message = ''policy denied'',
         err_Data = Some [(''rule'', AString ''r''), (''reason'', AString '''')]\<rparr>\<rparr>\<rparr>"
proof -
  have d: "call_Name (canon_call sample_call_req) \<noteq> ''''"
    "dp_Evaluate (sample_deps ''deny'' None) ''c'' (canon_call sample_call_req) (gw_state sample_gateway) = (sample_decision ''deny'', ())"
    "dec_Action (sample_decision ''deny'') = ''deny''" "\<And>e. fst (dp_Log (sample_deps ''deny'' None) e ()) = None"
    by (simp_all add: sample_request sample_deps_def sample_decision_def)
  from denied_answer [OF sample_params d, where sid = "''s''" and rd = sample_readings] show ?thesis
    by (elim exE conjE) (simp add: sample_decision_def sample_request)
qed

text \<open>
  Clients see only what they may call.  The result of a listing is the upstream's listing, in its order,
  without the tools the policy does not allow.
\<close>

theorem listing_filtered:
  assumes "handleToolsList deps rd req c sid g = (resp, g')" and "result_of resp = Some p"
  shows "\<exists>tools s. dp_ToolsList deps (gw_state g) = (Inr tools, s) \<and>
    p = PToolsList (filter (\<lambda>t. dp_IsToolAllowed deps s (tool_Name t)) tools)"
proof -
  obtain l g1 where l: "list_tools deps g = (l, g1)" by fastforce
  show ?thesis
    using assms component_calls(2) [OF l]
    by (cases l) (auto simp: handleToolsList_def l Let_def split: prod.splits option.splits)
qed

theorem listing_filtered_witness:
  "result_of (fst (handleToolsList (sample_deps ''allow'' None) sample_readings sample_rpc ''c'' ''s'' sample_gateway)) =
    Some (PToolsList [sample_tool ''u.t''])"
proof -
  let ?h = "handleToolsList (sample_deps ''allow'' None) sample_readings sample_rpc ''c'' ''s'' sample_gateway"
  obtain p where p: "result_of (fst ?h) = Some p"
    by (simp add: handleToolsList_def list_tools_def log_event_def sample_deps_def Let_def)
  from listing_filtered [OF prod.collapse [symmetric] p] have "p = PToolsList [sample_tool ''u.t'']"
    by (auto simp: sample_deps_def sample_tool_def)
  then show ?thesis using p by simp
qed

end
