(* ===== verification/GatewayConc.thy ===== *)
theory GatewayConc
  imports GatewaySpec
begin

text \<open>
  Concurrent requests of \<open>internal/gateway/gateway.go\<close>.  Any number of requests are in progress at once; at
  each moment one of them performs its next action, or something else changes the components: the
  audit writer, a refresh of the tool cache, a reload of the policy.  What \<open>GatewayFlow\<close> and
  \<open>GatewayTrace\<close> prove of one thread whatever happens between its actions holds in every interleaving.
\<close>

section \<open>Interleavings\<close>

record 's request =
  rq_in :: http_in
  rq_readings :: readings
  rq_rest :: "'s thread"
  rq_past :: "'s history"

definition new_request :: "num_fn \<Rightarrow> 's deps \<Rightarrow> readings \<Rightarrow> http_in \<Rightarrow> 's request" where
  "new_request num deps rd r = \<lparr>rq_in = r, rq_readings = rd, rq_rest = serve_thread num deps rd r, rq_past = []\<rparr>"

text \<open>The answer, once there is one.\<close>

definition answer :: "'s request \<Rightarrow> http_response option" where
  "answer q = (case rq_rest q of Done resp \<Rightarrow> Some resp | Atomic f \<Rightarrow> None)"

definition moved :: "'s thread \<Rightarrow> 's Gateway \<Rightarrow> 's Gateway \<Rightarrow> 's request \<Rightarrow> 's request" where
  "moved t g g' q = q\<lparr>rq_rest := t, rq_past := rq_past q @ [(g, g')]\<rparr>"

text \<open>
  \<open>inside\<close> says which actions of the components are possible in a state, for instance that a full channel
  blocks; \<open>outside\<close> is what happens in the components apart from the requests.
\<close>

inductive interleaving ::
  "num_fn \<Rightarrow> 's deps \<Rightarrow> ('s \<Rightarrow> 's \<Rightarrow> bool) \<Rightarrow> ('s \<Rightarrow> 's \<Rightarrow> bool) \<Rightarrow> 's Gateway \<Rightarrow> 's Gateway \<Rightarrow> 's request list \<Rightarrow> bool"
  for num deps inside outside g0 where
  quiet: "interleaving num deps inside outside g0 g0 []"
| accept: "interleaving num deps inside outside g0 g qs \<Longrightarrow> readings_ok rd \<Longrightarrow>
    interleaving num deps inside outside g0 g (qs @ [new_request num deps rd r])"
| action: "interleaving num deps inside outside g0 g qs \<Longrightarrow> i < length qs \<Longrightarrow> rq_rest (qs ! i) = Atomic f \<Longrightarrow>
    f g = (t, g') \<Longrightarrow> inside (gw_state g) (gw_state g') \<Longrightarrow>
    interleaving num deps inside outside g0 g' (qs[i := moved t g g' (qs ! i)])"
| other: "interleaving num deps inside outside g0 g qs \<Longrightarrow> outside (gw_state g) s \<Longrightarrow>
    interleaving num deps inside outside g0 (g\<lparr>gw_state := s\<rparr>) qs"

section \<open>Each request by itself\<close>

text \<open>The history of a request is one of its thread.\<close>

definition on_track :: "num_fn \<Rightarrow> 's deps \<Rightarrow> 's request \<Rightarrow> bool" where
  "on_track num deps q \<longleftrightarrow> readings_ok (rq_readings q) \<and>
     plays (serve_thread num deps (rq_readings q) (rq_in q)) (rq_past q) (rq_rest q)"

lemma list_all_update: "list_all P xs \<Longrightarrow> (i < length xs \<Longrightarrow> P x) \<Longrightarrow> list_all P (xs[i := x])"
  by (cases "i < length xs") (auto simp: list_all_length nth_list_update)

lemma moved_on_track:
  "on_track num deps q \<Longrightarrow> rq_rest q = Atomic f \<Longrightarrow> f g = (t, g') \<Longrightarrow> on_track num deps (moved t g g' q)"
  by (auto simp: on_track_def moved_def intro: plays_snoc)

lemma all_on_track: "interleaving num deps inside outside g0 g qs \<Longrightarrow> list_all (on_track num deps) qs"
proof (induction rule: interleaving.induct)
  case (action g qs i f t g')
  then show ?case by (intro list_all_update) (auto simp: list_all_length intro: moved_on_track)
qed (auto simp: on_track_def new_request_def plays.start)

lemma answered_completes:
  "on_track num deps q \<Longrightarrow> answer q = Some resp \<Longrightarrow>
   completes (serve_thread num deps (rq_readings q) (rq_in q)) (rq_past q) resp"
  by (auto simp: on_track_def answer_def completes_def split: thread.splits)

text \<open>A request in progress can always be brought to an end, so that its history is the start of a whole one.\<close>

lemma plays_append: "plays t h u \<Longrightarrow> plays u h' v \<Longrightarrow> plays t (h @ h') v"
  by (induction rule: plays.induct) (auto intro: plays.intros)

lemma can_complete: "plays t h u \<Longrightarrow> \<exists>h' resp. completes t (h @ h') resp"
proof -
  assume p: "plays t h u"
  obtain h' where "completes u h' (fst (run_thread u undefined))"
    using run_completes [of u undefined "fst (run_thread u undefined)" "snd (run_thread u undefined)"] by auto
  then show ?thesis using plays_append [OF p] by (auto simp: completes_def)
qed


text \<open>What gates a whole history gates the start of it that has done work.\<close>

definition admitted_at :: "readings \<Rightarrow> string \<Rightarrow> string \<Rightarrow> 's history \<Rightarrow> nat \<Rightarrow> bool" where
  "admitted_at rd sid c h k \<longleftrightarrow> k < length h \<and> list_all (\<lambda>x. \<not> session_work x) (effects (take (Suc k) h)) \<and>
     valid_session (rd_resolve rd) sid c (gw_table (fst (h ! k)))"

lemma gated_admitted:
  assumes "gated rd sid c (h @ h')" and "x \<in> set (effects h)" and "session_work x"
  shows "\<exists>k. admitted_at rd sid c h k"
proof -
  have "\<not> list_all (\<lambda>x. \<not> session_work x) (effects (h @ h'))" using assms(2,3) by (auto simp: list_all_iff)
  then obtain h1 g g' h2 where k: "h @ h' = h1 @ (g, g') # h2"
    "list_all (\<lambda>x. \<not> session_work x) (effects (h1 @ [(g, g')]))" "valid_session (rd_resolve rd) sid c (gw_table g)"
    using assms(1) by (auto simp: gated_def)
  have "\<not> (\<exists>ys. h1 @ [(g, g')] = h @ ys)"
  proof
    assume "\<exists>ys. h1 @ [(g, g')] = h @ ys"
    then have "set (effects h) \<subseteq> set (effects (h1 @ [(g, g')]))" by (metis Un_upper1 effects_simps(3) set_append)
    then show False using k(2) assms(2,3) by (auto simp: list_all_iff simp del: effects_simps)
  qed
  moreover have "(h1 @ [(g, g')]) @ h2 = h @ h'" using k(1) by simp
  ultimately obtain ys where "h = (h1 @ [(g, g')]) @ ys" unfolding append_eq_append_conv2 by metis
  then have "admitted_at rd sid c h (length h1)" using k(2,3) by (simp add: admitted_at_def)
  then show ?thesis by blast
qed

section \<open>Properties\<close>

text \<open>
  C6: Concurrency does not weaken the protocol.  In every interleaving of requests with each other and
  with the rest of the program, the calls that a finished request has itself made on the components
  are one of the sequences of the protocol, with the response that belongs to it: no two requests mix
  their authentication, their decision, their call or their audit record.
\<close>

theorem concurrent_protocol:
  assumes "interleaving num deps inside outside g0 g qs" and "q \<in> set qs" and "answer q = Some resp"
  shows "served (hi_Authorization (rq_in q)) (dp_Authenticate deps (hi_Authorization (rq_in q))) resp (effects (rq_past q))"
proof (rule serve_script [OF answered_completes])
  show "on_track num deps q" using all_on_track [OF assms(1)] assms(2) by (simp add: list_all_iff)
qed (rule assms(3))

text \<open>
  C4: Complete mediation under concurrency.  When any request, finished or not, has called a tool, it had
  before that authenticated its client and got a decision for this client and this call that is not a
  denial; and in an action before the decision it found its session valid, for this client, in the
  table as it was at that moment.
\<close>

theorem concurrent_mediation:
  assumes "interleaving num deps inside outside g0 g qs" and "q \<in> set qs"
    and "CalledTool tc x \<in> set (effects (rq_past q))"
  shows "\<exists>c d k ys. dp_Authenticate deps (hi_Authorization (rq_in q)) = Inr c \<and>
    effects (rq_past q) = [Authenticated (hi_Authorization (rq_in q)) (Inr c), Evaluated c tc d, CalledTool tc x] @ ys \<and>
    dec_Action d \<noteq> ''deny'' \<and> admitted_at (rq_readings q) (hi_Session (rq_in q)) c (rq_past q) k"
proof -
  let ?t = "serve_thread num deps (rq_readings q) (rq_in q)"
  have "plays ?t (rq_past q) (rq_rest q)" using all_on_track [OF assms(1)] assms(2) by (auto simp: list_all_iff on_track_def)
  from can_complete [OF this] obtain h' resp where h: "completes ?t (rq_past q @ h') resp" by blast
  obtain c where c: "dp_Authenticate deps (hi_Authorization (rq_in q)) = Inr c"
    "gated (rq_readings q) (hi_Session (rq_in q)) c (rq_past q @ h')"
    using serve_gated [OF h, of "CalledTool tc x"] assms(3) by auto
  from gated_admitted [OF c(2) assms(3)] obtain k where
    k: "admitted_at (rq_readings q) (hi_Session (rq_in q)) c (rq_past q) k" by auto
  have "CalledTool tc x \<in> set (effects (rq_past q @ h'))" using assms(3) by simp
  with serve_script [OF h] c(1) obtain d e r where
    s: "effects (rq_past q) @ effects h' =
      [Authenticated (hi_Authorization (rq_in q)) (Inr c), Evaluated c tc d, CalledTool tc x, Logged e r]"
      "dec_Action d \<noteq> ''deny''"
    by (cases rule: served.cases) (auto dest!: script_call simp del: effects_simps(3) simp flip: effects_simps(3))
  obtain ys where "effects (rq_past q) =
      [Authenticated (hi_Authorization (rq_in q)) (Inr c), Evaluated c tc d, CalledTool tc x] @ ys"
    using s(1) assms(3) by (cases "effects h'" rule: rev_cases) (auto simp: append_eq_Cons_conv)
  then show ?thesis using c(1) s(2) k by blast
qed

section \<open>The shared table\<close>

lemma action_keeps_safe:
  assumes "on_track num deps q" and "rq_rest q = Atomic f" and "f g = (t, g')"
  shows "keeps_safe deps (rq_readings q) (rq_in q) g g'"
  using every_plays [OF _ table_keeping.serve_every [where deps = deps]] assms
  by (fastforce simp: on_track_def every_Atomic)

lemma interleaving_safe:
  assumes "interleaving num deps inside outside g0 g qs" and "table_safe deps ttl mx [] (gw_table g0)"
  shows "table_safe deps ttl mx (map rq_in qs) (gw_table g)"
  using assms
proof (induction rule: interleaving.induct)
  case (accept g qs rd r)
  then show ?case by (auto simp: table_safe_def new_request_def owners_mono)
next
  case (action g qs i f t g')
  have q: "on_track num deps (qs ! i)" using all_on_track [OF action.hyps(1)] action.hyps(2) by (simp add: list_all_length)
  have "map rq_in (qs[i := moved t g g' (qs ! i)]) = map rq_in qs"
    using action.hyps(2) by (simp add: map_update moved_def list_update_same_conv)
  then show ?case
    using action_keeps_safe [OF q action.hyps(3,4)] action q by (auto simp: keeps_safe_def on_track_def)
qed simp_all

text \<open>
  C12: The session table under concurrency.  From the construction of the gateway on, in every state of
  every interleaving, the table holds no more sessions than configured, its ids are distinct and not
  empty, and each session belongs to a client that one of the requests has authenticated.
\<close>

theorem concurrent_sessions:
  assumes "NewGateway s0 cfg = Inr g0" and "interleaving num deps inside outside g0 g qs"
  shows "int (length (st_clients (gw_table g))) \<le> gc_SessionMaxEntries cfg \<and> table_inv (gw_table g) \<and>
    (\<forall>b \<in> set (st_clients (gw_table g)). \<exists>q \<in> set qs.
      dp_Authenticate deps (hi_Authorization (rq_in q)) = Inr (sb_clientID (snd b)))"
proof -
  have "table_safe deps (gc_SessionTTL cfg) (gc_SessionMaxEntries cfg) [] (gw_table g0)"
    using assms(1) by (auto simp: NewGateway_def validateConfig_def table_safe_def table_ok_def owners_known_def
        table_inv_def named_def is_map_def split: option.splits if_splits)
  from interleaving_safe [OF assms(2) this] show ?thesis
    by (auto simp: table_safe_def table_ok_def owners_known_def)
qed


section \<open>Two requests at once\<close>

text \<open>A stretch of actions of one request.\<close>

lemma stretch:
  assumes "plays t h u" and "linked g h g'" and "interleaving num deps inside outside g0 g qs"
    and "i < length qs" and "rq_rest (qs ! i) = t" and "list_all (\<lambda>(g, g'). inside (gw_state g) (gw_state g')) h"
  shows "interleaving num deps inside outside g0 g'
    (qs[i := (qs ! i)\<lparr>rq_rest := u, rq_past := rq_past (qs ! i) @ h\<rparr>])"
  using assms
proof (induction arbitrary: g qs rule: plays.induct)
  case (start t)
  then have "(qs ! i)\<lparr>rq_rest := t, rq_past := rq_past (qs ! i) @ []\<rparr> = qs ! i" by (cases "qs ! i") simp
  then have "qs[i := (qs ! i)\<lparr>rq_rest := t, rq_past := rq_past (qs ! i) @ []\<rparr>] = qs" by (simp only: list_update_id)
  then show ?case using start.prems(1,2) by (simp only: linked.simps)
next
  case (step f g1 t g2 h u)
  then have g: "g1 = g" "linked g2 h g'" by simp_all
  have "inside (gw_state g) (gw_state g2)" using step.prems(5) g(1) by simp
  note i = interleaving.action [OF step.prems(2-4) step.hyps(1) [unfolded g(1)] this]
  from step.IH [OF g(2) i] show ?case using step.prems(3,5) g(1) by (simp add: moved_def)
qed

text \<open>A call and a request with a bad key; the call runs while the other one waits.\<close>

definition pending :: "unit request list" where
  "pending = map (\<lambda>h. new_request Some (sample_deps ''allow'' None) sample_readings (post h ''s'' sample_body)) [''Bearer k'', ''x'']"

lemma pending_accepted:
  "interleaving Some (sample_deps ''allow'' None) (\<lambda>s s'. True) (\<lambda>s s'. False) sample_gateway sample_gateway pending"
  using interleaving.accept [OF interleaving.accept [OF interleaving.quiet sample_readings_ok] sample_readings_ok]
  by (simp add: pending_def)

definition call_first :: "unit history \<Rightarrow> unit request list" where
  "call_first h = pending[0 := (pending ! 0)\<lparr>rq_rest := Done (fst (sample_run ''Bearer k'' ''s'' ''allow'' None)), rq_past := h\<rparr>]"

lemma call_served:
  "\<exists>h. interleaving Some (sample_deps ''allow'' None) (\<lambda>s s'. True) (\<lambda>s s'. False) sample_gateway
      (snd (sample_run ''Bearer k'' ''s'' ''allow'' None)) (call_first h) \<and>
    effects h = gw_trace (snd (sample_run ''Bearer k'' ''s'' ''allow'' None))"
proof -
  from ServeHTTP_history [OF sample_ok] obtain h where
    h: "completes (serve_thread Some (sample_deps ''allow'' None) sample_readings (post ''Bearer k'' ''s'' sample_body)) h
        (fst (sample_run ''Bearer k'' ''s'' ''allow'' None))"
      "linked sample_gateway h (snd (sample_run ''Bearer k'' ''s'' ''allow'' None))"
      "effects h = gw_trace (snd (sample_run ''Bearer k'' ''s'' ''allow'' None))" by auto
  from stretch [OF h(1) [unfolded completes_def] h(2) pending_accepted, of 0] h(3) show ?thesis
    by (intro exI [of _ h]) (simp add: call_first_def pending_def new_request_def list_all_iff)
qed

lemma call_first_simps:
  "call_first h ! 0 \<in> set (call_first h)" "answer (call_first h ! 0) = Some (fst (sample_run ''Bearer k'' ''s'' ''allow'' None))"
  "hi_Authorization (rq_in (call_first h ! 0)) = ''Bearer k''" "rq_past (call_first h ! 0) = h"
  by (simp_all add: call_first_def pending_def answer_def new_request_def post_def)

theorem concurrent_protocol_witness:
  "\<exists>h :: unit history. interleaving Some (sample_deps ''allow'' None) (\<lambda>s s'. True) (\<lambda>s s'. False) sample_gateway
      (snd (sample_run ''Bearer k'' ''s'' ''allow'' None)) (call_first h) \<and>
    served ''Bearer k'' (Inr ''c'') (fst (sample_run ''Bearer k'' ''s'' ''allow'' None)) (effects h) \<and> length (effects h) = 4"
proof -
  obtain h where h: "interleaving Some (sample_deps ''allow'' None) (\<lambda>s s'. True) (\<lambda>s s'. False) sample_gateway
      (snd (sample_run ''Bearer k'' ''s'' ''allow'' None)) (call_first h)"
    "effects h = gw_trace (snd (sample_run ''Bearer k'' ''s'' ''allow'' None))" using call_served by blast
  have a: "dp_Authenticate (sample_deps ''allow'' None) ''Bearer k'' = Inr ''c''" by (simp add: sample_deps_def)
  from concurrent_protocol [OF h(1) call_first_simps(1,2)]
  have "served ''Bearer k'' (Inr ''c'') (fst (sample_run ''Bearer k'' ''s'' ''allow'' None)) (effects h)"
    by (simp add: call_first_simps a)
  moreover have "length (effects h) = 4" by (simp add: h(2) sample_allowed(2))
  ultimately show ?thesis using h(1) by blast
qed

theorem concurrent_mediation_witness:
  "\<exists>(h :: unit history) d k. interleaving Some (sample_deps ''allow'' None) (\<lambda>s s'. True) (\<lambda>s s'. False) sample_gateway
      (snd (sample_run ''Bearer k'' ''s'' ''allow'' None)) (call_first h) \<and>
    effects h \<noteq> [] \<and> hd (tl (effects h)) = Evaluated ''c'' (canon_call sample_call_req) d \<and> dec_Action d \<noteq> ''deny'' \<and>
    admitted_at (rq_readings (call_first h ! 0)) (hi_Session (rq_in (call_first h ! 0))) ''c'' h k"
proof -
  let ?tc = "CalledTool (canon_call sample_call_req) (Inr \<lparr>cr_UpstreamID = ''u'', cr_Result = \<lparr>result_Content = None\<rparr>\<rparr>)"
  obtain h where h: "interleaving Some (sample_deps ''allow'' None) (\<lambda>s s'. True) (\<lambda>s s'. False) sample_gateway
      (snd (sample_run ''Bearer k'' ''s'' ''allow'' None)) (call_first h)"
    "effects h = gw_trace (snd (sample_run ''Bearer k'' ''s'' ''allow'' None))" using call_served by blast
  have c: "?tc \<in> set (effects (rq_past (call_first h ! 0)))" by (simp add: call_first_simps h(2) sample_allowed(2))
  have a: "dp_Authenticate (sample_deps ''allow'' None) ''Bearer k'' = Inr ''c''" by (simp add: sample_deps_def)
  from concurrent_mediation [OF h(1) call_first_simps(1) c] show ?thesis
    using h(1) by (intro exI [of _ h]) (auto simp: call_first_simps a)
qed

theorem concurrent_sessions_witness:
  "length (st_clients (gw_table (snd sample_initialize))) \<le> 1 \<and> st_clients (gw_table (snd sample_initialize)) \<noteq> []"
proof -
  let ?q = "new_request Some (sample_deps ''allow'' None) sample_readings (post ''Bearer k'' '''' init_body)"
  have a: "interleaving Some (sample_deps ''allow'' None) (\<lambda>s s'. True) (\<lambda>s s'. False) new_gateway new_gateway [?q]"
    using interleaving.accept [OF interleaving.quiet sample_readings_ok] by simp
  from ServeHTTP_history [OF initialize_pair] obtain h where
    h: "completes (rq_rest ?q) h (fst sample_initialize)" "linked new_gateway h (snd sample_initialize)"
    by (auto simp: new_request_def)
  from stretch [OF h(1) [unfolded completes_def] h(2) a, of 0]
  have "interleaving Some (sample_deps ''allow'' None) (\<lambda>s s'. True) (\<lambda>s s'. False) new_gateway (snd sample_initialize)
      [?q\<lparr>rq_rest := Done (fst sample_initialize), rq_past := h\<rparr>]"
    by (simp add: new_request_def list_all_iff)
  from concurrent_sessions [OF new_gateway_ok this] initialize_binds show ?thesis by (auto simp: new_config_def)
qed

end
