(* ===== verification/System.thy ===== *)
theory System
  imports GatewaySpec Loggers
begin

text \<open>
  The gateway on its real components, as \<open>runServe\<close> of \<open>cmd/mcpshield/main.go\<close> puts them together: the
  API key authenticator, the YAML policy engine, the upstream manager and the SQLite audit logger.
  The contract between the gateway and its audit logger is a locale; the wired components satisfy it.
\<close>

section \<open>The audit contract\<close>

text \<open>The events of a trace that the audit log accepted.\<close>

definition taken :: "effect list \<Rightarrow> Event list" where
  "taken xs = List.map_filter (\<lambda>x. case x of Logged e None \<Rightarrow> Some e | _ \<Rightarrow> None) xs"

lemma taken_simps [simp]:
  "taken [] = []" "taken (xs @ ys) = taken xs @ taken ys" "taken [Logged e None] = [e]"
  by (simp_all add: taken_def map_filter_def)

locale audit_contract =
  fixes deps :: "'s deps" and recorded :: "'s \<Rightarrow> Event list" and strict :: "'s \<Rightarrow> bool"
  assumes log_taken: "strict s \<Longrightarrow> dp_Log deps e s = (None, s') \<Longrightarrow>
      strict s' \<and> (\<exists>e'. same_facts e e' \<and> recorded s' = recorded s @ [e'])"
    and log_refused: "strict s \<Longrightarrow> dp_Log deps e s = (Some x, s') \<Longrightarrow> strict s' \<and> recorded s' = recorded s"
    and evaluate_quiet: "recorded (snd (dp_Evaluate deps c q s)) = recorded s \<and> strict (snd (dp_Evaluate deps c q s)) = strict s"
    and list_quiet: "recorded (snd (dp_ToolsList deps s)) = recorded s \<and> strict (snd (dp_ToolsList deps s)) = strict s"
    and call_quiet: "recorded (snd (dp_ToolsCall deps q s)) = recorded s \<and> strict (snd (dp_ToolsCall deps q s)) = strict s"
begin

lemma perform_recorded:
  assumes "strict s" and "fst (perform deps x s) = x"
  shows "strict (snd (perform deps x s)) \<and>
    (\<exists>es. recorded (snd (perform deps x s)) = recorded s @ es \<and> list_all2 same_facts (taken [x]) es)"
proof (cases x)
  case (Logged e r)
  obtain r' s' where l: "dp_Log deps e s = (r', s')" by fastforce
  show ?thesis
    using assms Logged l log_taken [OF assms(1)] log_refused [OF assms(1)]
    by (cases r) (fastforce simp: taken_def map_filter_def)+
next
  case (Evaluated c q d)
  show ?thesis using assms evaluate_quiet [of c q s] by (auto simp: Evaluated taken_def map_filter_def split: prod.splits)
next
  case (ListedTools l)
  show ?thesis using assms list_quiet [of s] by (auto simp: ListedTools taken_def map_filter_def split: prod.splits)
next
  case (CalledTool q y)
  show ?thesis using assms call_quiet [of q s] by (auto simp: CalledTool taken_def map_filter_def split: prod.splits)
qed (use assms in \<open>simp add: taken_def map_filter_def\<close>)

lemma performs_recorded:
  "performs deps xs s s' \<Longrightarrow> strict s \<Longrightarrow>
   strict s' \<and> (\<exists>es. recorded s' = recorded s @ es \<and> list_all2 same_facts (taken xs) es)"
proof (induction xs arbitrary: s)
  case (Cons x xs)
  then have x: "fst (perform deps x s) = x" "performs deps xs (snd (perform deps x s)) s'" by simp_all
  from perform_recorded [OF Cons.prems(2) x(1)] obtain es where
    1: "strict (snd (perform deps x s))" "recorded (snd (perform deps x s)) = recorded s @ es"
      "list_all2 same_facts (taken [x]) es" by blast
  from Cons.IH [OF x(2) 1(1)] obtain es' where
    2: "strict s'" "recorded s' = recorded (snd (perform deps x s)) @ es'" "list_all2 same_facts (taken xs) es'" by blast
  have "taken (x # xs) = taken [x] @ taken xs" by (simp add: taken_def map_filter_def)
  then show ?case using 1 2 by (fastforce intro: list_all2_appendI)
qed (simp add: list_all2_Nil)

text \<open>What a client gets as a result is the last thing the log has taken.\<close>

lemma delivered:
  assumes "ServeHTTP num deps rd r g = (resp, g')" and "strict (gw_state g)" and "result_of resp = Some p"
  shows "\<exists>es e c. recorded (gw_state g') = recorded (gw_state g) @ es @ [e] \<and> ev_Response e = Some p \<and>
    dp_Authenticate deps (hi_Authorization r) = Inr c \<and> ev_ClientID e = c"
proof -
  from served_since [OF assms(1)] assms(3) obtain c xs where
    c: "dp_Authenticate deps (hi_Authorization r) = Inr c" "script c resp xs"
      "since g g' = Authenticated (hi_Authorization r) (Inr c) # xs"
    by (cases rule: served.cases) auto
  from script_result [OF c(2) assms(3)] obtain ys e where
    e: "xs = ys @ [Logged e None]" "ev_Response e = Some p" "ev_ClientID e = c" by blast
  have t: "taken (since g g') = taken (Authenticated (hi_Authorization r) (Inr c) # ys) @ [e]"
    by (simp add: c(3) e(1) flip: append_Cons)
  from performs_recorded [OF performs_since [OF assms(1)] assms(2)] obtain es where
    es: "recorded (gw_state g') = recorded (gw_state g) @ es" "list_all2 same_facts (taken (since g g')) es" by blast
  from es(2) obtain es' e' where "es = es' @ [e']" "same_facts e e'"
    by (auto simp: t list_all2_append1 list_all2_Cons1)
  then show ?thesis using es(1) e(2,3) c(1) by (auto dest: same_factsD)
qed

end

section \<open>The wired components\<close>

text \<open>
  The state behind the interfaces, with the number of outside readings used so far, and the outside: the
  clock, the upstream clients, the text of an upstream error, the outcome of the logger's \<open>select\<close> and
  the identifiers it generates, each for the reading of that number.
\<close>

record ('re, 'lim, 'c) world =
  w_engine :: "('re, 'lim) YAMLPolicyEngine"
  w_manager :: "'c realManager"
  w_logger :: "sqliteStore SQLiteAuditLogger"
  w_uses :: nat

record ('c, 'e) outside =
  o_now :: "nat \<Rightarrow> instant"
  o_send :: "nat \<Rightarrow> 'c \<Rightarrow> ToolsCallRequest \<Rightarrow> 'e + ToolsCallResult"
  o_text :: "'e manager_error \<Rightarrow> string"
  o_select :: "nat \<Rightarrow> select_outcome"
  o_uuid :: "nat \<Rightarrow> string option"

definition failure :: "('c, 'e) outside \<Rightarrow> 'e manager_error \<Rightarrow> upstream_failure" where
  "failure out err = (case err of ErrNotReady \<Rightarrow> NotReady | _ \<Rightarrow> UpstreamError (o_text out err))"

definition wired_evaluate ::
  "'re regexp_pkg \<Rightarrow> ('lim \<Rightarrow> string \<Rightarrow> int \<Rightarrow> duration \<Rightarrow> instant \<Rightarrow> bool \<times> 'lim) \<Rightarrow> ('c, 'e) outside
   \<Rightarrow> string \<Rightarrow> ToolsCallRequest \<Rightarrow> ('re, 'lim, 'c) world \<Rightarrow> Decision \<times> ('re, 'lim, 'c) world" where
  "wired_evaluate re al out c q w =
     (case Evaluate re al (w_engine w) c (o_now out (w_uses w)) q of
        (d, e) \<Rightarrow> (d, w\<lparr>w_engine := e, w_uses := Suc (w_uses w)\<rparr>))"

definition wired_list ::
  "('c, 'e) outside \<Rightarrow> ('re, 'lim, 'c) world \<Rightarrow> (upstream_failure + Tool list) \<times> ('re, 'lim, 'c) world" where
  "wired_list out w =
     (case ToolsList (o_now out (w_uses w)) (w_manager w) of
        (r, m, spawn) \<Rightarrow>
          (case r of Inl err \<Rightarrow> Inl (failure out err) | Inr ts \<Rightarrow> Inr ts,
           w\<lparr>w_manager := m, w_uses := Suc (w_uses w)\<rparr>))"

definition wired_call ::
  "('c, 'e) outside \<Rightarrow> ToolsCallRequest \<Rightarrow> ('re, 'lim, 'c) world
   \<Rightarrow> (upstream_failure \<times> string option + CallResult) \<times> ('re, 'lim, 'c) world" where
  "wired_call out q w =
     (case ToolsCall (o_send out (w_uses w)) (o_now out (w_uses w)) q (w_manager w) of
        (r, m, spawn) \<Rightarrow>
          (case r of Inl (err, up) \<Rightarrow> Inl (failure out err, up) | Inr cr \<Rightarrow> Inr cr,
           w\<lparr>w_manager := m, w_uses := Suc (w_uses w)\<rparr>))"

definition wired_log ::
  "('c, 'e) outside \<Rightarrow> Event \<Rightarrow> ('re, 'lim, 'c) world \<Rightarrow> audit_error option \<times> ('re, 'lim, 'c) world" where
  "wired_log out e w =
     (case Log (o_select out (w_uses w)) (o_now out (w_uses w)) (o_uuid out (w_uses w)) e (w_logger w) of
        (r, l) \<Rightarrow> (r, w\<lparr>w_logger := l, w_uses := Suc (w_uses w)\<rparr>))"

definition wired ::
  "apiKeyAuthenticator \<Rightarrow> 're regexp_pkg \<Rightarrow> ('lim \<Rightarrow> string \<Rightarrow> int \<Rightarrow> duration \<Rightarrow> instant \<Rightarrow> bool \<times> 'lim)
   \<Rightarrow> ('c, 'e) outside \<Rightarrow> ('re, 'lim, 'c) world deps" where
  "wired a re al out = \<lparr>
     dp_Authenticate = Authenticate a,
     dp_IsToolAllowed = (\<lambda>w. IsToolAllowed (w_engine w)),
     dp_Evaluate = wired_evaluate re al out,
     dp_ToolsList = wired_list out,
     dp_ToolsCall = wired_call out,
     dp_Ready = (\<lambda>w. Ready (w_manager w)),
     dp_Log = wired_log out\<rparr>"

lemma wired_simps [simp]:
  "dp_Authenticate (wired a re al out) = Authenticate a" "dp_Evaluate (wired a re al out) = wired_evaluate re al out"
  "dp_ToolsList (wired a re al out) = wired_list out" "dp_ToolsCall (wired a re al out) = wired_call out"
  "dp_Log (wired a re al out) = wired_log out" "dp_IsToolAllowed (wired a re al out) w = IsToolAllowed (w_engine w)"
  by (simp_all add: wired_def)

text \<open>The write modes in which an event is never dropped silently.\<close>

definition strict_logger :: "('re, 'lim, 'c) world \<Rightarrow> bool" where
  "strict_logger w \<longleftrightarrow> lc_mode (lg_cfg (w_logger w)) \<in> {ModeBlock, ModeFailClosed, ModeUnknown}"

lemma Log_strict:
  assumes "lc_mode (lg_cfg l) \<in> {ModeBlock, ModeFailClosed, ModeUnknown}" and "Log sel now uuid e l = (r, l')"
  shows "lg_cfg l' = lg_cfg l \<and> (case r of None \<Rightarrow> l' = send (stamp now (the uuid) e) l | Some x \<Rightarrow> lg_ch l' = lg_ch l)"
  using assms by (auto simp: Log_def Let_def split: if_splits select_outcome.splits)

interpretation sqlite_audit: audit_contract "wired a re al out" "\<lambda>w. lg_ch (w_logger w)" strict_logger
  for a :: apiKeyAuthenticator and re :: "'re regexp_pkg"
    and al :: "'lim \<Rightarrow> string \<Rightarrow> int \<Rightarrow> duration \<Rightarrow> instant \<Rightarrow> bool \<times> 'lim" and out :: "('c, 'e) outside"
proof
  fix w w' :: "('re, 'lim, 'c) world" and e x
  show "strict_logger w' \<and> (\<exists>e'. same_facts e e' \<and> lg_ch (w_logger w') = lg_ch (w_logger w) @ [e'])"
    if "strict_logger w" "dp_Log (wired a re al out) e w = (None, w')"
  proof -
    from that(2) obtain sel now uuid l' where
      l: "Log sel now uuid e (w_logger w) = (None, l')" "w_logger w' = l'"
      by (auto simp: wired_log_def split: prod.splits)
    from Log_strict [OF that(1) [unfolded strict_logger_def] l(1)] show ?thesis
      using that(1) l(2) stamp_same_facts by (auto simp: strict_logger_def)
  qed
  show "strict_logger w' \<and> lg_ch (w_logger w') = lg_ch (w_logger w)"
    if "strict_logger w" "dp_Log (wired a re al out) e w = (Some x, w')"
  proof -
    from that(2) obtain sel now uuid l' where
      l: "Log sel now uuid e (w_logger w) = (Some x, l')" "w_logger w' = l'"
      by (auto simp: wired_log_def split: prod.splits)
    from Log_strict [OF that(1) [unfolded strict_logger_def] l(1)] show ?thesis
      using that(1) l(2) by (auto simp: strict_logger_def)
  qed
qed (auto simp: wired_evaluate_def wired_list_def wired_call_def strict_logger_def split: prod.splits)

section \<open>A call, end to end\<close>

lemma Evaluate_passes:
  assumes "dec_Action (fst (Evaluate re al e c now q)) \<noteq> ''deny''"
  shows "dec_Action (fst (Evaluate re al e c now q)) = ''allow'' \<and> IsToolAllowed e (call_Name q) \<and>
    (\<exists>p. eng_policy e = Some p \<and> dec_Action (evaluate re p q) = ''allow'')"
proof -
  have a: "dec_Action (fst (Evaluate re al e c now q)) = ''allow''"
    using assms yaml_engine.action [of re al e c now q] by auto
  moreover have "IsToolAllowed e (call_Name q)" using yaml_engine.allow_in_surface [OF a] .
  moreover have "\<exists>p. eng_policy e = Some p \<and> dec_Action (evaluate re p q) = ''allow''"
    using a by (auto simp: Evaluate_def deny_def Let_def split: option.splits prod.splits if_splits)
  ultimately show ?thesis by blast
qed

text \<open>The calls behind a trace that reached the upstream.\<close>

lemma call_trace_world:
  assumes "performs (wired a re al out) [Authenticated h (Inr c), Evaluated c q d, CalledTool q x, Logged e lr] w w'"
  shows "Authenticate a h = Inr c \<and> d = fst (Evaluate re al (w_engine w) c (o_now out (w_uses w)) q) \<and>
    x = fst (wired_call out q (w\<lparr>w_engine := snd (Evaluate re al (w_engine w) c (o_now out (w_uses w)) q), w_uses := Suc (w_uses w)\<rparr>))"
  using assms by (auto simp: wired_evaluate_def split: prod.splits)

text \<open>
  What the upstream side answers to the \<open>k\<close>-th reading's call, when \<open>cur\<close> are the answers of the refresh
  whose listing is in force: \<open>q\<close> goes, under the tool's original name and with its arguments, to the
  client of the entry that published its name there; other names are refused.
\<close>

definition upstream_answer ::
  "('c, 'e) outside \<Rightarrow> nat \<Rightarrow> 'c Entry list \<Rightarrow> (nat \<Rightarrow> 'r + Tool list) option \<Rightarrow> ToolsCallRequest
   \<Rightarrow> (upstream_failure \<times> string option + CallResult) \<Rightarrow> bool" where
  "upstream_answer out k es cur q x \<longleftrightarrow>
     (case cur of
        None \<Rightarrow> x = Inl (NotReady, None)
      | Some ask \<Rightarrow>
        if \<forall>(e, t) \<in> set (answered ask 0 es). prefixed e t \<noteq> call_Name q
        then x = Inl (UpstreamError (o_text out (UnknownTool (call_Name q))), None)
        else \<exists>e t. published_by ask es (call_Name q) e t \<and>
          x = (case o_send out k (en_Client e) (q\<lparr>call_Name := tool_Name t\<rparr>) of
                 Inl err \<Rightarrow> Inl (UpstreamError (o_text out (ClientFailed err)), Some (en_ID e))
               | Inr r \<Rightarrow> Inr \<lparr>cr_UpstreamID = en_ID e, cr_Result = r\<rparr>))"

lemma wired_call_routed:
  assumes "fresh m0" and "sys_run (start_system m0) as s" and "w_manager w = sy_mgr s"
  shows "upstream_answer out (w_uses w) (rm_entries m0) (last_answers (rm_entries m0) as) q (fst (wired_call out q w))"
proof -
  let ?send = "o_send out (w_uses w)" and ?now = "o_now out (w_uses w)"
  have "fst (wired_call out q w) =
      (case fst (ToolsCall ?send ?now q (sy_mgr s)) of Inl (err, up) \<Rightarrow> Inl (failure out err, up) | Inr cr \<Rightarrow> Inr cr)"
    by (simp add: wired_call_def assms(3) split: prod.splits)
  with ToolsCall_routes [OF assms(1,2), of ?now ?send q] show ?thesis
    by (force simp: upstream_answer_def failure_def forward_to_def split: option.splits if_splits sum.splits)
qed

text \<open>
  C1: A tool call, end to end.  On the real components, with a manager state that any interleaving \<open>as\<close> of
  warm-ups, refreshes and invalidations has produced, a call reaches the manager only for a client whose
  API key is configured and who holds a live session, when the loaded policy allows the call and its tool
  is on the surface that listings show.  The manager refuses it when it is not ready, and when the listing
  in force does not publish the name (that listing consists of the answers of the last refresh that every
  upstream answered); otherwise the answer is that of the client of the entry that published the name,
  asked with the tool's original name and the same arguments.
\<close>

theorem call_end_to_end:
  assumes "fresh m0" and "sys_run (start_system m0) as s" and "w_manager (gw_state g) = sy_mgr s"
    and "ServeHTTP num (wired a re al out) rd r g = (resp, g')" and "CalledTool q x \<in> set (since g g')"
  shows "\<exists>c. Authenticate a (hi_Authorization r) = Inr c \<and>
    valid_session (rd_resolve rd) (hi_Session r) c (gw_table g) \<and>
    IsToolAllowed (w_engine (gw_state g)) (call_Name q) \<and>
    (\<exists>p. eng_policy (w_engine (gw_state g)) = Some p \<and> dec_Action (evaluate re p q) = ''allow'') \<and>
    upstream_answer out (Suc (w_uses (gw_state g))) (rm_entries m0) (last_answers (rm_entries m0) as) q x"
proof -
  obtain c xs where c: "Authenticate a (hi_Authorization r) = Inr c" "script c resp xs"
    "since g g' = Authenticated (hi_Authorization r) (Inr c) # xs"
    using served_since [OF assms(4)] assms(5) by (cases rule: served.cases) auto
  then have "CalledTool q x \<in> set xs" using assms(5) by simp
  from script_call [OF c(2) this] obtain d e lr where
    xs: "xs = [Evaluated c q d, CalledTool q x, Logged e lr]" "dec_Action d \<noteq> ''deny''" by blast
  have v: "valid_session (rd_resolve rd) (hi_Session r) c (gw_table g)"
    using gate_ServeHTTP [OF assms(4,5)] c(1) by simp
  note w = call_trace_world [OF performs_since [OF assms(4), unfolded c(3) xs(1)]]
  let ?ev = "Evaluate re al (w_engine (gw_state g)) c (o_now out (w_uses (gw_state g))) q"
  let ?w = "gw_state g\<lparr>w_engine := snd ?ev, w_uses := Suc (w_uses (gw_state g))\<rparr>"
  have "upstream_answer out (Suc (w_uses (gw_state g))) (rm_entries m0) (last_answers (rm_entries m0) as) q x"
    using wired_call_routed [OF assms(1,2), of ?w out q] assms(3) w by simp
  moreover have "dec_Action (fst ?ev) \<noteq> ''deny''" using w xs(2) by simp
  from Evaluate_passes [OF this] have "IsToolAllowed (w_engine (gw_state g)) (call_Name q)"
    "\<exists>p. eng_policy (w_engine (gw_state g)) = Some p \<and> dec_Action (evaluate re p q) = ''allow''" by blast+
  ultimately show ?thesis using c(1) v by blast
qed

section \<open>A deployment in miniature\<close>

text \<open>One key, an upstream with the tool \<open>u.t\<close>, a policy that allows it, and a blocking audit logger.\<close>

definition demo_auth :: apiKeyAuthenticator where
  "demo_auth = NewAPIKeyAuthenticator [(NewKeyHash ''k'', ''c'')]"

definition demo_policy :: "string CompiledPolicy" where
  "demo_policy = \<lparr>allowedSurface = {''u.t''}, allowRules =
     [\<lparr>rule_name = ''r'', rule_tools = {''u.t''}, rule_args = [], rule_reason = '''', rule_rateLimit = None\<rparr>], denyRules = []\<rparr>"

definition demo_world :: "(string, fixedWindowLimiter, nat) world" where
  "demo_world = \<lparr>w_engine = NewYAMLPolicyEngine (Some demo_policy),
     w_manager = sy_mgr (warmed_system (sample_manager ''u'' ''v'') ''t'' ''w''),
     w_logger = blank_logger ModeBlock, w_uses = 0\<rparr>"

definition demo_outside :: "(nat, unit) outside" where
  "demo_outside = \<lparr>o_now = (\<lambda>k. 0), o_send = (\<lambda>k c q. if c = 1 then Inr \<lparr>result_Content = None\<rparr> else Inl ()),
     o_text = (\<lambda>e. ''''), o_select = (\<lambda>k. Sent), o_uuid = (\<lambda>k. Some ''e'')\<rparr>"

definition demo_deps :: "(string, fixedWindowLimiter, nat) world deps" where
  "demo_deps = wired demo_auth substring_re Allow demo_outside"

definition demo_gateway :: "(string, fixedWindowLimiter, nat) world Gateway" where
  "demo_gateway = \<lparr>gw_requestTimeout = 1, gw_maxRequestBytes = int (length sample_body),
     gw_table = \<lparr>st_clients = [(''s'', \<lparr>sb_clientID = ''c'', sb_expiresAt = 9\<rparr>)], st_ttl = 4, st_max = 2, st_metrics = None\<rparr>,
     gw_state = demo_world, gw_trace = []\<rparr>"

definition demo_run :: "http_response \<times> (string, fixedWindowLimiter, nat) world Gateway" where
  "demo_run = ServeHTTP Some demo_deps sample_readings (post ''Bearer k'' ''s'' sample_body) demo_gateway"

lemma demo_authenticates: "Authenticate demo_auth ''Bearer k'' = Inr ''c''"
  using decode_NewKeyHash [of "''k''"] by (simp add: demo_auth_def Authenticate_eq bearer_prefix_def)

lemma demo_evaluates:
  "Evaluate substring_re Allow (NewYAMLPolicyEngine (Some demo_policy)) ''c'' 0 (canon_call sample_call_req) =
    (allow, NewYAMLPolicyEngine (Some demo_policy))"
  by (simp add: Evaluate_def demo_policy_def NewYAMLPolicyEngine_def NewYAMLPolicyEngineWithOptions_def evaluate_def
      allow_def sample_request)

lemma demo_calls:
  "ToolsCall (o_send demo_outside k) 0 (canon_call sample_call_req)
     (sy_mgr (warmed_system (sample_manager ''u'' ''v'') ''t'' ''w'')) =
   (Inr \<lparr>cr_UpstreamID = ''u1'', cr_Result = \<lparr>result_Content = None\<rparr>\<rparr>,
    sy_mgr (warmed_system (sample_manager ''u'' ''v'') ''t'' ''w''), False)"
  by (simp add: warmed_system_def doRefresh_def sample_manager_def sample_answer_def sample_tool_def Let_def demo_outside_def
      prefixed_def route_of_def ToolsCall_def getCache_eq sample_request Before_def Add_def)

lemma demo_readings: "o_now demo_outside k = 0" "o_select demo_outside k = Sent" "o_uuid demo_outside k = Some ''e''"
  by (simp_all add: demo_outside_def)

lemma demo_result:
  "result_of (fst demo_run) = Some (PToolsCall \<lparr>result_Content = None\<rparr>)"
  "\<exists>e. gw_trace (snd demo_run) =
    [Authenticated ''Bearer k'' (Inr ''c''), Evaluated ''c'' (canon_call sample_call_req) allow,
     CalledTool (canon_call sample_call_req) (Inr \<lparr>cr_UpstreamID = ''u1'', cr_Result = \<lparr>result_Content = None\<rparr>\<rparr>),
     Logged e None]"
  "lg_ch (w_logger (gw_state (snd demo_run))) \<noteq> []"
  by (simp_all add: sample_eval demo_run_def demo_deps_def demo_gateway_def demo_world_def demo_authenticates
      wired_evaluate_def demo_evaluates wired_call_def demo_calls wired_log_def Log_def blank_logger_def demo_readings allow_def)

lemma demo_pair: "ServeHTTP Some (wired demo_auth substring_re Allow demo_outside) sample_readings
    (post ''Bearer k'' ''s'' sample_body) demo_gateway = (fst demo_run, snd demo_run)"
  by (simp add: demo_run_def demo_deps_def)

lemma demo_since: "since demo_gateway g = gw_trace g"
  by (simp add: since_def demo_gateway_def)

theorem call_end_to_end_witness:
  "Authenticate demo_auth ''Bearer k'' = Inr ''c'' \<and>
   upstream_answer demo_outside 1 (rm_entries (sample_manager ''u'' ''v'')) (Some (sample_answer ''t'' ''w''))
     (canon_call sample_call_req) (Inr \<lparr>cr_UpstreamID = ''u1'', cr_Result = \<lparr>result_Content = None\<rparr>\<rparr>)"
proof -
  note fs = sample_fresh [of "''u''" "''v''"]
  have m: "w_manager (gw_state demo_gateway) = sy_mgr (warmed_system (sample_manager ''u'' ''v'') ''t'' ''w'')"
    and k: "Suc (w_uses (gw_state demo_gateway)) = 1"
    by (simp_all add: demo_gateway_def demo_world_def)
  have c: "CalledTool (canon_call sample_call_req) (Inr \<lparr>cr_UpstreamID = ''u1'', cr_Result = \<lparr>result_Content = None\<rparr>\<rparr>)
      \<in> set (since demo_gateway (snd demo_run))"
    using demo_result(2) by (auto simp: demo_since)
  from call_end_to_end [OF fs warmed_run [OF fs] m demo_pair c] show ?thesis
    unfolding k warmed_answers by (auto simp: demo_authenticates)
qed

section \<open>The deployment\<close>

text \<open>
  The running program: requests, the writer and the retention of the audit logger, refreshes of the
  manager and policy reloads, in any order.  Its history is what the logger took, the batches it
  flushed, and the results that were sent to clients.
\<close>

definition logging :: "logger_action \<Rightarrow> bool" where
  "logging a \<longleftrightarrow> (case a of DoLog sel now uuid e \<Rightarrow> True | _ \<Rightarrow> False)"

inductive deployment ::
  "num_fn \<Rightarrow> ('re, 'lim, 'c) world deps \<Rightarrow> ('re, 'lim, 'c) world Gateway \<Rightarrow> ('re, 'lim, 'c) world Gateway
   \<Rightarrow> Event list \<Rightarrow> (Event list \<times> bool) list \<Rightarrow> payload list \<Rightarrow> bool" for num deps g0 where
  boot: "deployment num deps g0 g0 [] [] []"
| request: "deployment num deps g0 g S F D \<Longrightarrow> ServeHTTP num deps rd r g = (resp, g') \<Longrightarrow>
    list_all logging as \<Longrightarrow> logger_run sqlite_ops (w_logger (gw_state g)) as (w_logger (gw_state g')) \<Longrightarrow>
    deployment num deps g0 g' (S @ drop (length (lg_ch (w_logger (gw_state g)))) (lg_ch (w_logger (gw_state g')))) F
      (D @ (case result_of resp of None \<Rightarrow> [] | Some p \<Rightarrow> [p]))"
| background: "deployment num deps g0 g S F D \<Longrightarrow> \<not> logging a \<Longrightarrow> logger_step sqlite_ops (w_logger (gw_state g)) a l \<Longrightarrow>
    deployment num deps g0 (g\<lparr>gw_state := (gw_state g)\<lparr>w_logger := l\<rparr>\<rparr>) S
      (F @ step_flushes sqlite_ops (w_logger (gw_state g)) a) D"
| refresh: "deployment num deps g0 g S F D \<Longrightarrow> deployment num deps g0 (g\<lparr>gw_state := (gw_state g)\<lparr>w_manager := m\<rparr>\<rparr>) S F D"
| reload: "deployment num deps g0 g S F D \<Longrightarrow>
    deployment num deps g0 (g\<lparr>gw_state := (gw_state g)\<lparr>w_engine := Swap (w_engine (gw_state g)) p\<rparr>\<rparr>) S F D"

text \<open>The logger of a deployment runs as the audit theory describes it.\<close>

lemma log_run_hist:
  "logger_run sqlite_ops l as l' \<Longrightarrow> list_all logging as \<Longrightarrow> logger_hist sqlite_ops l0 bs S F l \<Longrightarrow>
   lg_cfg l' = lg_cfg l \<and> (\<exists>es. lg_ch l' = lg_ch l @ es) \<and>
   (\<exists>bs'. logger_hist sqlite_ops l0 bs' (S @ drop (length (lg_ch l)) (lg_ch l')) F l')"
proof (induction arbitrary: bs S rule: logger_run.induct)
  case (run_cons l a l1 as l2)
  then obtain sel now uuid e where a: "a = DoLog sel now uuid e" by (cases a) (auto simp: logging_def)
  have l1: "snd (Log sel now uuid e l) = l1" using run_cons.hyps(1) by (auto simp: a elim: step_logE)
  have c: "lg_cfg l1 = lg_cfg l \<and> (\<exists>es. lg_ch l1 = lg_ch l @ es)"
    by (cases rule: Log_cases [of sel now uuid e l]) (use l1 in auto)
  have h: "logger_hist sqlite_ops l0 (bs @ [a]) (S @ drop (length (lg_ch l)) (lg_ch l1)) F l1"
    using hist_step [OF run_cons.prems(2) run_cons.hyps(1)] by (simp add: a step_sends_def step_flushes_def)
  from run_cons.IH [OF _ h] run_cons.prems(1) c show ?case by auto
qed (auto intro: exI)

definition retained :: "Event list \<Rightarrow> payload list \<Rightarrow> bool" where
  "retained S D \<longleftrightarrow> (\<forall>p \<in> set D. \<exists>e \<in> set S. ev_Response e = Some p)"

lemma step_cfg:
  assumes "logger_step sqlite_ops l a l'"
  shows "lg_cfg l' = lg_cfg l"
  using assms
proof (cases rule: logger_step.cases)
  case (step_log sel now uuid e)
  then show ?thesis by (cases rule: Log_cases [of sel now uuid e l]) auto
next
  case (step_receive f)
  then show ?thesis by (auto simp: receive_def Let_def split: list.splits if_splits)
qed (auto simp: retention_tick_def)

context audit_contract
begin

lemma keeps_strict: "ServeHTTP num deps rd r g = (resp, g') \<Longrightarrow> strict (gw_state g) \<Longrightarrow> strict (gw_state g')"
  using performs_recorded [OF performs_since] by blast

end

lemma deployment_history:
  assumes "deployment num (wired a re al out) g0 g S F D" and "strict_logger (gw_state g0)"
  shows "strict_logger (gw_state g) \<and> retained S D \<and> (\<exists>bs. logger_hist sqlite_ops (w_logger (gw_state g0)) bs S F (w_logger (gw_state g)))"
  using assms
proof (induction rule: deployment.induct)
  case boot
  then show ?case using logger_hist.hist_init by (auto simp: retained_def)
next
  case (request g S F D rd r resp g' as)
  then obtain bs where h: "logger_hist sqlite_ops (w_logger (gw_state g0)) bs S F (w_logger (gw_state g))"
    and s: "strict_logger (gw_state g)" and d: "retained S D" by blast
  have "retained (S @ drop (length (lg_ch (w_logger (gw_state g)))) (lg_ch (w_logger (gw_state g'))))
      (D @ (case result_of resp of None \<Rightarrow> [] | Some p \<Rightarrow> [p]))"
  proof (cases "result_of resp")
    case None
    then show ?thesis using d by (fastforce simp: retained_def)
  next
    case (Some p)
    show ?thesis
      using sqlite_audit.delivered [OF request.hyps(2) s Some] d Some by (fastforce simp: retained_def)
  qed
  then show ?case
    using sqlite_audit.keeps_strict [OF request.hyps(2) s] log_run_hist [OF request.hyps(4,3) h] by blast
next
  case (background g S F D a l)
  then obtain bs where h: "logger_hist sqlite_ops (w_logger (gw_state g0)) bs S F (w_logger (gw_state g))" by blast
  have "step_sends (w_logger (gw_state g)) a l = []"
    using background.hyps(2) by (auto simp: logging_def step_sends_def split: logger_action.splits)
  with hist_step [OF h background.hyps(3)] step_cfg [OF background.hyps(3)] background show ?case
    by (auto simp: strict_logger_def)
qed (auto simp: strict_logger_def)

text \<open>
  Every result a client has seen is on record.  In every history of the running program with an audit
  logger that does not drop silently, each result that was sent to a client is the response of an
  event that is in a batch handed to the store, in the writer's current batch, or still queued; and
  these together are, in order, exactly the events the logger took.
\<close>

theorem delivered_results_recorded:
  assumes "deployment num (wired a re al out) g0 g S F D" and "strict_logger (gw_state g0)"
    and "lg_batch (w_logger (gw_state g0)) = []" and "lg_ch (w_logger (gw_state g0)) = []"
  shows "flushed F @ lg_batch (w_logger (gw_state g)) @ lg_ch (w_logger (gw_state g)) = S \<and>
    (\<forall>p \<in> set D. \<exists>e \<in> set (flushed F) \<union> set (lg_batch (w_logger (gw_state g))) \<union> set (lg_ch (w_logger (gw_state g))).
      ev_Response e = Some p)"
proof -
  from deployment_history [OF assms(1,2)] obtain bs where
    h: "logger_hist sqlite_ops (w_logger (gw_state g0)) bs S F (w_logger (gw_state g))" and r: "retained S D" by blast
  have s: "S = flushed F @ lg_batch (w_logger (gw_state g)) @ lg_ch (w_logger (gw_state g))"
    using hist_fifo [OF h] assms(3,4) by simp
  then show ?thesis using r by (auto simp: retained_def)
qed

lemma demo_log:
  "\<exists>e. logger_run sqlite_ops (w_logger (gw_state demo_gateway)) [DoLog Sent 0 (Some ''e'') e] (w_logger (gw_state (snd demo_run)))"
proof -
  obtain e where t: "gw_trace (snd demo_run) =
    [Authenticated ''Bearer k'' (Inr ''c''), Evaluated ''c'' (canon_call sample_call_req) allow,
     CalledTool (canon_call sample_call_req) (Inr \<lparr>cr_UpstreamID = ''u1'', cr_Result = \<lparr>result_Content = None\<rparr>\<rparr>),
     Logged e None]"
    using demo_result(2) by blast
  have "w_logger (gw_state (snd demo_run)) = snd (Log Sent 0 (Some ''e'') e (w_logger (gw_state demo_gateway)))"
    using performs_since [OF demo_pair] unfolding demo_since t
    by (auto simp: wired_evaluate_def wired_call_def wired_log_def demo_readings split: prod.splits)
  moreover have "log_enabled (w_logger (gw_state demo_gateway)) Sent"
    by (simp add: demo_gateway_def demo_world_def blank_logger_def)
  ultimately show ?thesis by (auto intro!: exI [of _ e] logger_step.step_log)
qed

theorem delivered_results_recorded_witness:
  "\<exists>e \<in> set (lg_ch (w_logger (gw_state (snd demo_run)))). ev_Response e = Some (PToolsCall \<lparr>result_Content = None\<rparr>)"
proof -
  obtain e where e: "logger_run sqlite_ops (w_logger (gw_state demo_gateway)) [DoLog Sent 0 (Some ''e'') e]
      (w_logger (gw_state (snd demo_run)))"
    using demo_log by blast
  have l0: "w_logger (gw_state demo_gateway) = blank_logger ModeBlock" by (simp add: demo_gateway_def demo_world_def)
  have "list_all logging [DoLog Sent 0 (Some ''e'') e]" by (simp add: logging_def)
  note d = deployment.request [OF deployment.boot demo_pair this e]
  have "w_logger (gw_state (snd demo_run)) = snd (Log Sent 0 (Some ''e'') e (blank_logger ModeBlock))"
    using e by (auto elim!: step_logE simp: l0)
  then have "lg_batch (w_logger (gw_state (snd demo_run))) = []"
    by (simp add: Log_def Let_def blank_logger_def)
  with delivered_results_recorded [OF d] demo_result(1) show ?thesis
    by (auto simp: l0 strict_logger_def blank_logger_def)
qed

end
