(* ===== verification/SystemConc.thy ===== *)
theory SystemConc
  imports System GatewayConc
begin

text \<open>
  Concurrent requests on the components \<open>runServe\<close> of \<open>cmd/mcpshield/main.go\<close> wires together: the requests
  of \<open>GatewayConc\<close> interleave with the audit writer and its retention, with refreshes of the tool cache
  and with reloads of the policy.
\<close>

section \<open>What happens beside the requests\<close>

inductive background :: "('re, 'lim, 'c) world \<Rightarrow> ('re, 'lim, 'c) world \<Rightarrow> bool" where
  writer: "\<not> logging a \<Longrightarrow> logger_step sqlite_ops (w_logger w) a l \<Longrightarrow> background w (w\<lparr>w_logger := l\<rparr>)"
| refresh: "background w (w\<lparr>w_manager := m\<rparr>)"
| reload: "background w (w\<lparr>w_engine := Swap (w_engine w) p\<rparr>)"

text \<open>An action of a request is possible when the logger's channel does not block it.\<close>

definition unblocked :: "('re, 'lim, 'c) world \<Rightarrow> ('re, 'lim, 'c) world \<Rightarrow> bool" where
  "unblocked w w' \<longleftrightarrow> (\<exists>as. list_all logging as \<and> logger_run sqlite_ops (w_logger w) as (w_logger w'))"

lemma unblocked_same: "w_logger w' = w_logger w \<Longrightarrow> unblocked w w'"
  by (auto simp: unblocked_def intro!: exI [of _ "[]"] logger_run.run_nil)

section \<open>The log and the requests\<close>

text \<open>The events a request has had taken are among \<open>S\<close>, the events the log took.\<close>

definition on_record :: "Event list \<Rightarrow> 's request \<Rightarrow> bool" where
  "on_record S q \<longleftrightarrow> (\<forall>e. Logged e None \<in> set (effects (rq_past q)) \<longrightarrow> (\<exists>e' \<in> set S. same_facts e e'))"

lemma on_record_mono: "on_record S q \<Longrightarrow> on_record (S @ es) q"
  by (auto simp: on_record_def)

lemma taken_set: "Logged e None \<in> set xs \<Longrightarrow> e \<in> set (taken xs)"
  by (force simp: taken_def map_filter_def)

definition log_history ::
  "('re, 'lim, 'c) world \<Rightarrow> ('re, 'lim, 'c) world \<Rightarrow> ('re, 'lim, 'c) world request list \<Rightarrow> Event list
   \<Rightarrow> (Event list \<times> bool) list \<Rightarrow> bool" where
  "log_history w0 w qs S F \<longleftrightarrow> strict_logger w \<and> list_all (on_record S) qs \<and>
     (\<exists>bs. logger_hist sqlite_ops (w_logger w0) bs S F (w_logger w))"

lemma action_records:
  assumes "on_track num (wired a re al out) q" and "rq_rest q = Atomic f" and "f g = (t, g')"
  shows "records (wired a re al out) g g'"
  using every_plays [OF _ tracing.serve_every [where deps = "wired a re al out"]] assms
  by (fastforce simp: on_track_def every_Atomic)

lemma action_log:
  assumes h: "log_history w0 (gw_state g) qs S F" and "records (wired a re al out) g g'"
    and u: "unblocked (gw_state g) (gw_state g')" and i: "i < length qs"
  shows "\<exists>S'. log_history w0 (gw_state g') (qs[i := moved t g g' (qs ! i)]) S' F"
proof -
  from assms(2) obtain xs where xs: "gw_trace g' = gw_trace g @ xs"
    "performs (wired a re al out) xs (gw_state g) (gw_state g')" by (auto simp: records_def)
  from h obtain bs where s: "strict_logger (gw_state g)" and q: "list_all (on_record S) qs"
    and b: "logger_hist sqlite_ops (w_logger w0) bs S F (w_logger (gw_state g))" by (auto simp: log_history_def)
  from sqlite_audit.performs_recorded [OF xs(2) s] obtain es where
    es: "strict_logger (gw_state g')" "lg_ch (w_logger (gw_state g')) = lg_ch (w_logger (gw_state g)) @ es"
      "list_all2 same_facts (taken xs) es" by blast
  from u obtain as where "list_all logging as" "logger_run sqlite_ops (w_logger (gw_state g)) as (w_logger (gw_state g'))"
    by (auto simp: unblocked_def)
  with log_run_hist [OF this(2,1) b] es(2) obtain bs' where
    b': "logger_hist sqlite_ops (w_logger w0) bs' (S @ es) F (w_logger (gw_state g'))" by auto
  have "on_record (S @ es) (moved t g g' (qs ! i))"
  proof (unfold on_record_def, intro allI impI)
    fix e
    assume e: "Logged e None \<in> set (effects (rq_past (moved t g g' (qs ! i))))"
    have "since g g' = xs" using xs(1) by (simp add: since_def)
    with e consider "Logged e None \<in> set (effects (rq_past (qs ! i)))" | "Logged e None \<in> set xs"
      by (auto simp: moved_def)
    then show "\<exists>e' \<in> set (S @ es). same_facts e e'"
    proof cases
      case 1
      then show ?thesis using q i by (auto simp: list_all_length on_record_def)
    next
      case 2
      then obtain n where "n < length (taken xs)" "taken xs ! n = e" using taken_set by (metis in_set_conv_nth)
      then have "es ! n \<in> set es" "same_facts e (es ! n)" using es(3) by (auto simp: list_all2_conv_all_nth)
      then show ?thesis by auto
    qed
  qed
  moreover have "list_all (on_record (S @ es)) qs" using q by (simp add: list_all_iff on_record_mono)
  ultimately show ?thesis using es(1) b' by (auto simp: log_history_def intro!: list_all_update)
qed

lemma background_log:
  assumes "log_history w0 w qs S F" and "background w w'"
  shows "\<exists>F'. log_history w0 w' qs S F'"
  using assms(2)
proof cases
  case (writer a l)
  have "step_sends (w_logger w) a l = []"
    using writer(2) by (auto simp: logging_def step_sends_def split: logger_action.splits)
  then show ?thesis
    using assms(1) hist_step [OF _ writer(3)] step_cfg [OF writer(3)] writer(1)
    by (fastforce simp: log_history_def strict_logger_def)
qed (use assms(1) in \<open>auto simp: log_history_def strict_logger_def\<close>)

lemma interleaving_log:
  assumes "interleaving num (wired a re al out) unblocked background g0 g qs" and "strict_logger (gw_state g0)"
  shows "\<exists>S F. log_history (gw_state g0) (gw_state g) qs S F"
  using assms
proof (induction rule: interleaving.induct)
  case quiet
  then show ?case using logger_hist.hist_init by (fastforce simp: log_history_def)
next
  case (accept g qs rd r)
  then show ?case by (auto simp: log_history_def on_record_def new_request_def)
next
  case (action g qs i f t g')
  have q: "on_track num (wired a re al out) (qs ! i)"
    using all_on_track [OF action.hyps(1)] action.hyps(2) by (simp add: list_all_length)
  show ?case using action action_log [OF _ action_records [OF q action.hyps(3,4)] action.hyps(5,2)] by blast
next
  case (other g qs s)
  then show ?case using background_log by fastforce
qed

text \<open>
  C2: Every delivered result is on record, under concurrency.  In every interleaving of requests with
  each other, with the audit writer, with its retention, with refreshes and with policy reloads, and
  with a logger that does not drop silently: when a request has been answered with a result, an event
  with this result and with the client it authenticated is in a batch handed to the store, in the
  writer's batch, or in the channel; these together are exactly what the log took, in order, and the
  logger is in a state that its own steps reach.
\<close>

theorem concurrent_delivery:
  assumes "interleaving num (wired a re al out) unblocked background g0 g qs" and "strict_logger (gw_state g0)"
    and "lg_batch (w_logger (gw_state g0)) = []" and "lg_ch (w_logger (gw_state g0)) = []"
  shows "\<exists>bs S F. logger_hist sqlite_ops (w_logger (gw_state g0)) bs S F (w_logger (gw_state g)) \<and>
    S = flushed F @ lg_batch (w_logger (gw_state g)) @ lg_ch (w_logger (gw_state g)) \<and>
    (\<forall>q \<in> set qs. \<forall>resp p. answer q = Some resp \<longrightarrow> result_of resp = Some p \<longrightarrow>
      (\<exists>e \<in> set S. ev_Response e = Some p \<and> Authenticate a (hi_Authorization (rq_in q)) = Inr (ev_ClientID e)))"
proof -
  from interleaving_log [OF assms(1,2)] obtain S F bs where
    h: "list_all (on_record S) qs" "logger_hist sqlite_ops (w_logger (gw_state g0)) bs S F (w_logger (gw_state g))"
    by (auto simp: log_history_def)
  have "\<exists>e \<in> set S. ev_Response e = Some p \<and> Authenticate a (hi_Authorization (rq_in q)) = Inr (ev_ClientID e)"
    if q: "q \<in> set qs" "answer q = Some resp" "result_of resp = Some p" for q resp p
  proof -
    have "on_track num (wired a re al out) q" using all_on_track [OF assms(1)] q(1) by (simp add: list_all_iff)
    from serve_script [OF answered_completes [OF this q(2)]] q(3) obtain c xs where
      c: "Authenticate a (hi_Authorization (rq_in q)) = Inr c" "script c resp xs"
        "effects (rq_past q) = Authenticated (hi_Authorization (rq_in q)) (Inr c) # xs"
      by (cases rule: served.cases) auto
    from script_result [OF c(2) q(3)] obtain ys e where
      e: "xs = ys @ [Logged e None]" "ev_Response e = Some p" "ev_ClientID e = c" by blast
    then have "Logged e None \<in> set (effects (rq_past q))" by (simp add: c(3))
    then obtain e' where "e' \<in> set S" "same_facts e e'" using h(1) q(1) by (auto simp: list_all_iff on_record_def)
    then show ?thesis using same_factsD [of e e'] e(2,3) c(1) by (intro bexI [of _ e']) auto
  qed
  then show ?thesis using h(2) hist_fifo [OF h(2)] assms(3,4) by (metis append_Nil)
qed


section \<open>A delivery in miniature\<close>

definition is_logged :: "effect \<Rightarrow> bool" where
  "is_logged x \<longleftrightarrow> (case x of Logged e r \<Rightarrow> True | _ \<Rightarrow> False)"

text \<open>In the miniature deployment an audit call sends its event, which is possible while the channel has room.\<close>

definition logs_once :: "('re, 'lim, 'c) world Gateway \<Rightarrow> ('re, 'lim, 'c) world Gateway \<Rightarrow> bool" where
  "logs_once g g' \<longleftrightarrow>
     (w_logger (gw_state g') = w_logger (gw_state g) \<and> filter is_logged (since g g') = []) \<or>
     (filter is_logged (since g g') \<noteq> [] \<and>
      (log_enabled (w_logger (gw_state g)) Sent \<longrightarrow> unblocked (gw_state g) (gw_state g')))"

lemma wired_logger:
  "wired_log out e w = (r, w') \<Longrightarrow>
    snd (Log (o_select out (w_uses w)) (o_now out (w_uses w)) (o_uuid out (w_uses w)) e (w_logger w)) = w_logger w'"
  "wired_list out w = (l, w') \<Longrightarrow> w_logger w' = w_logger w"
  "wired_call out q w = (y, w') \<Longrightarrow> w_logger w' = w_logger w"
  "wired_evaluate re al out c q w = (d, w') \<Longrightarrow> w_logger w' = w_logger w"
  unfolding wired_log_def wired_list_def wired_call_def wired_evaluate_def by (fastforce split: prod.splits)+

text \<open>An outside in which the channel takes every event and identifiers can be made.\<close>

definition always_sent :: "('c, 'e) outside \<Rightarrow> ('c, 'e) outside" where
  "always_sent out = out\<lparr>o_select := (\<lambda>k. Sent), o_uuid := (\<lambda>k. Some ''e'')\<rparr>"

lemma sent_log_once:
  assumes "log_event (wired a re al (always_sent out)) e g = (x, g1)"
  shows "logs_once g g1"
proof -
  have "\<exists>t. snd (Log Sent t (Some ''e'') e (w_logger (gw_state g))) = w_logger (gw_state g1)"
    using component_calls(1) [OF assms] by (auto simp: always_sent_def dest!: wired_logger)
  then obtain t where s: "snd (Log Sent t (Some ''e'') e (w_logger (gw_state g))) = w_logger (gw_state g1)" ..
  have "unblocked (gw_state g) (gw_state g1)" if "log_enabled (w_logger (gw_state g)) Sent"
    unfolding unblocked_def using logger_step.step_log [OF that s]
    by (intro exI [of _ "[DoLog Sent t (Some ''e'') e]"]) (auto simp: logging_def intro: logger_run.intros)
  then show ?thesis using since_calls(1) [OF assms] by (simp add: logs_once_def is_logged_def)
qed

lemma not_logged_simps [simp]:
  "is_logged (Logged e r)" "\<not> is_logged (Authenticated h z)" "\<not> is_logged (Evaluated c q d)"
  "\<not> is_logged (ListedTools l)" "\<not> is_logged (CalledTool q y)"
  by (simp_all add: is_logged_def)

interpretation sent_logging: gateway_step "wired a re al (always_sent out)" rd r logs_once for a re al out rd r
proof
  show "logs_once g g1" if "log_event (wired a re al (always_sent out)) e g = (x, g1)" for e g x g1
    by (rule sent_log_once [OF that])
  show "logs_once g g1" if "list_tools (wired a re al (always_sent out)) g = (l, g1)" for g l g1
    using component_calls(2) [OF that] since_calls(2) [OF that] by (auto simp: logs_once_def dest!: wired_logger)
  show "logs_once g g1" if "call_tool (wired a re al (always_sent out)) q g = (y, g1)" for q g y g1
    using component_calls(3) [OF that] since_calls(3) [OF that] by (auto simp: logs_once_def dest!: wired_logger)
  show "logs_once g g1" if "evaluate_policy (wired a re al (always_sent out)) c q g = (d, g1)" for c q g d g1
    using component_calls(4) [OF that] since_calls(4) [OF that] by (auto simp: logs_once_def dest!: wired_logger)
  show "logs_once g g1" if "authenticate (wired a re al (always_sent out)) h g = (z, g1)" for h g z g1
    using component_calls(5) [OF that] since_calls(5) [OF that] by (simp add: logs_once_def)
  show "logs_once g g1" if "resolve rd (hi_Session r) c g = (z, g1)" for c g z g1
    using resolve_frame [OF that] since_calls(6) [OF that] by (simp add: logs_once_def)
qed (simp_all add: logs_once_def)

lemma demo_every: "every_action logs_once (serve_thread num demo_deps rd r)"
proof -
  have "always_sent demo_outside = demo_outside" by (simp add: always_sent_def demo_outside_def)
  then show ?thesis using sent_logging.serve_every [of num demo_auth substring_re Allow demo_outside] by (simp add: demo_deps_def)
qed

lemma one_log_unblocked:
  "linked g h g' \<Longrightarrow> list_all (\<lambda>(g, g'). logs_once g g') h \<Longrightarrow> length (filter is_logged (effects h)) \<le> 1 \<Longrightarrow>
   filter is_logged (effects h) = [] \<or> log_enabled (w_logger (gw_state g)) Sent \<Longrightarrow>
   list_all (\<lambda>(g, g'). unblocked (gw_state g) (gw_state g')) h"
proof (induction g h g' rule: linked.induct)
  case (2 g g1 g2 h g')
  then have g: "g1 = g" "logs_once g g2" by simp_all
  show ?case
  proof (cases "filter is_logged (since g g2) = []")
    case True
    then have "w_logger (gw_state g2) = w_logger (gw_state g)" using g(2) by (simp add: logs_once_def)
    then show ?thesis using 2 True g by (auto simp: unblocked_same)
  next
    case False
    then have "filter is_logged (effects h) = []" using 2(4) g(1)
      by (cases "filter is_logged (since g g2)") auto
    then show ?thesis using 2 False g by (auto simp: logs_once_def)
  qed
qed simp

theorem concurrent_delivery_witness:
  "\<exists>bs S F. logger_hist sqlite_ops (blank_logger ModeBlock) bs S F (w_logger (gw_state (snd demo_run))) \<and>
    (\<exists>e \<in> set S. ev_Response e = Some (PToolsCall \<lparr>result_Content = None\<rparr>) \<and> ev_ClientID e = ''c'')"
proof -
  let ?q = "new_request Some demo_deps sample_readings (post ''Bearer k'' ''s'' sample_body)"
  have a: "interleaving Some demo_deps unblocked background demo_gateway demo_gateway [?q]"
    using interleaving.accept [OF interleaving.quiet sample_readings_ok] by simp
  from ServeHTTP_history [OF demo_pair [folded demo_deps_def]] obtain h where
    h: "completes (rq_rest ?q) h (fst demo_run)" "linked demo_gateway h (snd demo_run)"
      "effects h = gw_trace (snd demo_run)"
    by (auto simp: new_request_def demo_since)
  have "list_all (\<lambda>(g, g'). logs_once g g') h"
    using every_plays [OF h(1) [unfolded completes_def]] demo_every by (simp add: new_request_def)
  moreover have "length (filter is_logged (effects h)) \<le> 1" using demo_result(2) by (auto simp: h(3))
  moreover have "log_enabled (w_logger (gw_state demo_gateway)) Sent"
    by (simp add: demo_gateway_def demo_world_def blank_logger_def)
  ultimately have u: "list_all (\<lambda>(g, g'). unblocked (gw_state g) (gw_state g')) h"
    using one_log_unblocked [OF h(2)] by blast
  let ?qs = "[?q\<lparr>rq_rest := Done (fst demo_run), rq_past := h\<rparr>]"
  from stretch [OF h(1) [unfolded completes_def] h(2) a, of 0] u
  have "interleaving Some demo_deps unblocked background demo_gateway (snd demo_run) ?qs"
    by (simp add: new_request_def)
  note c = concurrent_delivery [OF this [unfolded demo_deps_def]]
  have l0: "w_logger (gw_state demo_gateway) = blank_logger ModeBlock" by (simp add: demo_gateway_def demo_world_def)
  have z: "strict_logger (gw_state demo_gateway)" "lg_batch (blank_logger ModeBlock) = []" "lg_ch (blank_logger ModeBlock) = []"
    by (simp_all add: l0 strict_logger_def blank_logger_def)
  from c [OF z(1), unfolded l0, OF z(2,3), folded demo_deps_def] obtain bs S F where
    w: "logger_hist sqlite_ops (blank_logger ModeBlock) bs S F (w_logger (gw_state (snd demo_run)))"
    "\<forall>q \<in> set ?qs. \<forall>resp p. answer q = Some resp \<longrightarrow> result_of resp = Some p \<longrightarrow>
      (\<exists>e \<in> set S. ev_Response e = Some p \<and> Authenticate demo_auth (hi_Authorization (rq_in q)) = Inr (ev_ClientID e))"
    by blast
  have "\<exists>e \<in> set S. ev_Response e = Some (PToolsCall \<lparr>result_Content = None\<rparr>) \<and> Inr ''c'' = (Inr (ev_ClientID e) :: auth_error + string)"
    using w(2) demo_result(1) by (simp add: answer_def new_request_def post_def demo_authenticates)
  then obtain e where "e \<in> set S" "ev_Response e = Some (PToolsCall \<lparr>result_Content = None\<rparr>)" "ev_ClientID e = ''c''" by auto
  with w(1) show ?thesis by (intro exI [of _ bs] exI [of _ S] exI [of _ F] conjI bexI [of _ e])
qed

end
