(* ===== verification/GoCivil.thy ===== *)
theory GoCivil
  imports GoTime GoJson
begin

text \<open>
  What the program uses of the formatting of \<open>time\<close> and of \<open>fmt\<close>: the RFC 3339 text of an instant in UTC,
  with and without the fraction of a second, and the text the verb \<open>%v\<close> prints for a decoded JSON value.
\<close>

section \<open>Civil dates\<close>

text \<open>The civil date of a number of days since 1970-01-01, with eras of 400 years from 1 March.\<close>

definition civil_of_days :: "int \<Rightarrow> int \<times> int \<times> int" where
  "civil_of_days days =
     (let z = days + 719468; era = z div 146097; doe = z mod 146097;
          yoe = (doe - doe div 1460 + doe div 36524 - doe div 146096) div 365;
          doy = doe - (365 * yoe + yoe div 4 - yoe div 100);
          mp = (5 * doy + 2) div 153;
          d = doy - (153 * mp + 2) div 5 + 1;
          m = (if mp < 10 then mp + 3 else mp - 9);
          y = yoe + era * 400 + (if m \<le> 2 then 1 else 0)
      in (y, m, d))"

definition pad_int :: "nat \<Rightarrow> int \<Rightarrow> string" where
  "pad_int w i =
     (let s = show_nat (nat \<bar>i\<bar>) in (if i < 0 then ''-'' else '''') @ replicate (w - length s) CHR ''0'' @ s)"

text \<open>The fraction of a second loses its trailing zeros, and its point when nothing is left.\<close>

definition nano_text :: "int \<Rightarrow> string" where
  "nano_text n =
     (let ds = rev (dropWhile (\<lambda>c. c = CHR ''0'') (rev (pad_int 9 n))) in if ds = '''' then '''' else CHR ''.'' # ds)"

text \<open>The date and time of day, to the second.\<close>

definition date_time :: "int \<Rightarrow> string" where
  "date_time n =
     (let secs = n div Second; rest = secs mod 86400 in
      case civil_of_days (secs div 86400) of (y, m, d) \<Rightarrow>
        pad_int 4 y @ ''-'' @ pad_int 2 m @ ''-'' @ pad_int 2 d @ ''T'' @
        pad_int 2 (rest div 3600) @ '':'' @ pad_int 2 (rest mod 3600 div 60) @ '':'' @ pad_int 2 (rest mod 60))"

text \<open>\<open>time.Unix(0, n).UTC().Format(time.RFC3339)\<close>, and with \<open>time.RFC3339Nano\<close>.\<close>

definition rfc3339 :: "int \<Rightarrow> string" where
  "rfc3339 n = date_time n @ ''Z''"

definition rfc3339_nano :: "int \<Rightarrow> string" where
  "rfc3339_nano n = date_time n @ nano_text (n mod Second) @ ''Z''"

section \<open>Numbers with the verb v\<close>

text \<open>
  A \<open>float64\<close> is known by the text \<open>encoding/json\<close> prints for it, its shortest decimal digits in plain or
  scientific notation; \<open>%v\<close> prints the same digits as \<open>%g\<close>.  \<open>decimal\<close> is the sign, the digits without
  leading and trailing zeros, and the position of the point relative to the first of them.
\<close>

definition strip_zeros :: "string \<Rightarrow> string" where
  "strip_zeros s = rev (dropWhile (\<lambda>c. c = CHR ''0'') (rev s))"

definition exponent :: "string \<Rightarrow> int" where
  "exponent s =
     (case s of
        [] \<Rightarrow> 0
      | c # cs \<Rightarrow>
        if c = CHR ''-'' then - int (dec_value cs)
        else if c = CHR ''+'' then int (dec_value cs)
        else int (dec_value s))"

definition decimal :: "string \<Rightarrow> bool \<times> string \<times> int" where
  "decimal t =
     (let neg = (take 1 t = ''-''); u = (if neg then drop 1 t else t);
          m = takeWhile (\<lambda>c. c \<noteq> CHR ''e'') u; e = exponent (drop (length m + 1) u);
          a = takeWhile (\<lambda>c. c \<noteq> CHR ''.'') m; b = drop (length a + 1) m;
          ds = dropWhile (\<lambda>c. c = CHR ''0'') (a @ b); zeros = length (a @ b) - length ds in
      if ds = '''' then (neg, '''', 0)
      else (neg, strip_zeros ds, int (length a) + e - int zeros))"

text \<open>The formats \<open>%e\<close> and \<open>%f\<close> of the shortest digits.\<close>

definition format_e :: "string \<Rightarrow> int \<Rightarrow> string" where
  "format_e ds dp =
     (let e = dp - 1 in
      take 1 ds @ (if length ds > 1 then ''.'' @ drop 1 ds else '''') @ ''e'' @
      (if e < 0 then ''-'' else ''+'') @ pad_int 2 \<bar>e\<bar>)"

definition format_f :: "string \<Rightarrow> int \<Rightarrow> string" where
  "format_f ds dp =
     (let k = nat dp in
      (if dp > 0 then take k ds @ replicate (k - length ds) CHR ''0'' else ''0'') @
      (if int (length ds) > dp then ''.'' @ replicate (nat (- dp)) CHR ''0'' @ drop k ds else ''''))"

text \<open>The shortest format decides for the exponent with the precision 6.\<close>

definition print_float :: "string \<Rightarrow> string" where
  "print_float t =
     (case decimal t of (neg, ds, dp) \<Rightarrow>
        (if neg then ''-'' else '''') @
        (if ds = '''' then ''0''
         else if dp - 1 < -4 \<or> dp - 1 \<ge> 6 then format_e ds dp
         else format_f ds dp))"

section \<open>Values with the verb v\<close>

text \<open>
  \<open>fmt.Sprintf("%v", v)\<close>: strings as they are, slices in brackets, maps in key order.
\<close>

primrec sprint :: "any \<Rightarrow> string" and
  sprint_list :: "any list \<Rightarrow> string list" and
  sprint_pairs :: "(string \<times> any) list \<Rightarrow> (string \<times> string) list" and
  sprint_pair :: "string \<times> any \<Rightarrow> string \<times> string" where
  "sprint ANil = ''<nil>''"
| "sprint (ABool b) = (if b then ''true'' else ''false'')"
| "sprint (ANumber t) = print_float t"
| "sprint (AString s) = s"
| "sprint (ASlice xs) = ''['' @ intercalate '' '' (sprint_list xs) @ '']''"
| "sprint (AMap m) = ''map['' @ intercalate '' '' (map (\<lambda>(k, t). k @ '':'' @ t) (sort_key fst (sprint_pairs m))) @ '']''"
| "sprint_list [] = []"
| "sprint_list (x # xs) = sprint x # sprint_list xs"
| "sprint_pairs [] = []"
| "sprint_pairs (p # ps) = sprint_pair p # sprint_pairs ps"
| "sprint_pair (k, v) = (k, sprint v)"

end
