(* ===== verification/Replay.thy ===== *)
theory Replay
  imports AuditLogger PolicyEngine GoJsonRound GoCivil
begin

text \<open>
  \<open>internal/audit/export.go\<close> and \<open>internal/audit/replay.go\<close>: what the audit commands print.  A writer is
  a function on its state that may fail; the strings are those of \<open>encoding/json\<close>, \<open>fmt\<close> and \<open>time\<close>.
\<close>

type_synonym ('w, 'err) writer = "'w \<Rightarrow> string \<Rightarrow> 'err option \<times> 'w"

section \<open>Export\<close>

text \<open>\<open>Encode\<close> of a \<open>StoredEvent\<close>, which has no JSON tags.\<close>

definition stored_members :: "StoredEvent \<Rightarrow> (string \<times> string \<times> json) list" where
  "stored_members e =
     (let s = (\<lambda>k v. (k, quote v, JString v)); i = (\<lambda>k v. (k, show_int v, JNumber (show_int v))) in
      [s ''EventID'' (se_EventID e), i ''TsUnixNano'' (se_TsUnixNano e), s ''TraceID'' (se_TraceID e),
       s ''SpanID'' (se_SpanID e), s ''SessionID'' (se_SessionID e), s ''RequestID'' (se_RequestID e),
       s ''ClientID'' (se_ClientID e), s ''Method'' (se_Method e), s ''ToolName'' (se_ToolName e),
       s ''UpstreamID'' (se_UpstreamID e), s ''Decision'' (se_Decision e), s ''PolicyRule'' (se_PolicyRule e),
       s ''Reason'' (se_Reason e), s ''ArgumentsJSON'' (se_ArgumentsJSON e), s ''ResponseJSON'' (se_ResponseJSON e),
       s ''ErrorJSON'' (se_ErrorJSON e), i ''DurationUs'' (se_DurationUs e), s ''PrevHash'' (se_PrevHash e),
       s ''EventHash'' (se_EventHash e)])"

definition export_line :: "StoredEvent \<Rightarrow> string" where
  "export_line e = json_object (map (\<lambda>(k, t, v). (k, t)) (stored_members e)) @ ''\<newline>''"

definition ExportJSONL ::
  "fault \<Rightarrow> instant option \<Rightarrow> ('w, 'err) writer \<Rightarrow> 'w \<Rightarrow> sqliteStore \<Rightarrow> (store_error + 'err) option \<times> 'w" where
  "ExportJSONL f since wr w s = Scan f since (\<lambda>w e. wr w (export_line e)) w s"

section \<open>Replay\<close>

definition tab :: string where "tab = [CHR 0x09]"

definition replay_line :: "StoredEvent \<Rightarrow> string" where
  "replay_line e =
     (let hasError = (if se_ErrorJSON e \<noteq> '''' then ''error'' else ''ok'') in
      rfc3339_nano (se_TsUnixNano e) @ tab @ se_Method e @ tab @ se_SessionID e @ tab @ se_ClientID e @ tab @
      se_ToolName e @ tab @ se_Decision e @ tab @ se_UpstreamID e @ tab @ show_int (se_DurationUs e) @
      [CHR 0xC2, CHR 0xB5] @ ''s'' @ tab @ hasError @ ''\<newline>'')"

definition ReplayReadOnly ::
  "fault \<Rightarrow> string \<Rightarrow> ('w, 'err) writer \<Rightarrow> 'w \<Rightarrow> sqliteStore \<Rightarrow> (store_error + 'err) option \<times> 'w" where
  "ReplayReadOnly f sessionID wr w s = ScanSession f sessionID (\<lambda>w e. wr w (replay_line e)) w s"

text \<open>
  The arguments of a recorded call.  The error of \<open>json.Unmarshal\<close> is dropped: text that is not JSON
  or not an object leaves the map nil, and a number that does not fit becomes nil.
\<close>

fun lenient :: "num_fn \<Rightarrow> json \<Rightarrow> any"
  and lenients :: "num_fn \<Rightarrow> json list \<Rightarrow> any list"
  and lenient_members :: "num_fn \<Rightarrow> (string \<times> any) list \<Rightarrow> (string \<times> string \<times> json) list \<Rightarrow> (string \<times> any) list" where
  "lenient num JNull = ANil"
| "lenient num (JBool b) = ABool b"
| "lenient num (JNumber t) = (case num t of None \<Rightarrow> ANil | Some x \<Rightarrow> ANumber x)"
| "lenient num (JString t) = AString t"
| "lenient num (JArray vs) = ASlice (lenients num vs)"
| "lenient num (JObject ms) = AMap (lenient_members num [] ms)"
| "lenients num [] = []"
| "lenients num (v # vs) = lenient num v # lenients num vs"
| "lenient_members num acc [] = acc"
| "lenient_members num acc ((k, raw, v) # ms) = lenient_members num (AList.update k (lenient num v) acc) ms"

definition recorded_arguments :: "num_fn \<Rightarrow> string \<Rightarrow> (string \<times> any) list" where
  "recorded_arguments num s =
     (if s = '''' then []
      else case parse_document s of
        Some (JObject ms) \<Rightarrow> lenient_members num [] ms
      | _ \<Rightarrow> [])"

definition check_line :: "StoredEvent \<Rightarrow> Decision \<Rightarrow> string" where
  "check_line e nd =
     (let tag = (if dec_Action nd \<noteq> se_Decision e then ''CHANGED'' else ''='') in
      rfc3339_nano (se_TsUnixNano e) @ tab @ tag @ tab @ se_ToolName e @ tab @ ''old='' @ se_Decision e @ '' new='' @
      dec_Action nd @ '' rule='' @ dec_Rule nd @ '' ['' @ dec_Reason nd @ '']\<newline>'')"

text \<open>The callback sees the engine, the number of evaluations so far and the writer.\<close>

definition check_event ::
  "num_fn \<Rightarrow> 'e evaluate_fn \<Rightarrow> (nat \<Rightarrow> instant) \<Rightarrow> ('w, 'err) writer \<Rightarrow> 'e \<times> nat \<times> 'w \<Rightarrow> StoredEvent
   \<Rightarrow> 'err option \<times> 'e \<times> nat \<times> 'w" where
  "check_event num ev now wr st e =
     (case st of (eng, k, w) \<Rightarrow>
        if se_Method e \<noteq> ''tools/call'' then (None, st)
        else
          (let call = \<lparr>call_Name = se_ToolName e, call_Arguments = recorded_arguments num (se_ArgumentsJSON e)\<rparr> in
           case ev eng (se_ClientID e) (now k) call of
             (nd, eng1) \<Rightarrow> (case wr w (check_line e nd) of (err, w1) \<Rightarrow> (err, eng1, Suc k, w1))))"

definition ReplayPolicyCheck ::
  "fault \<Rightarrow> num_fn \<Rightarrow> 'e evaluate_fn \<Rightarrow> (nat \<Rightarrow> instant) \<Rightarrow> string \<Rightarrow> 'e \<Rightarrow> ('w, 'err) writer \<Rightarrow> 'w \<Rightarrow> sqliteStore
   \<Rightarrow> (store_error + 'err) option \<times> 'w" where
  "ReplayPolicyCheck f num ev now sessionID eng wr w s =
     (case ScanSession f sessionID (check_event num ev now wr) (eng, 0, w) s of (err, eng1, k, w1) \<Rightarrow> (err, w1))"

section \<open>What is printed\<close>

text \<open>A writer that never fails and collects the text.\<close>

definition collect :: "(string, unit) writer" where
  "collect w s = (None, w @ s)"

lemma scan_collect: "scanRows (\<lambda>w e. collect w (f e)) w es = (None, w @ concat (map f es))"
  by (induction es arbitrary: w) (simp_all add: collect_def)

definition session_rows :: "string \<Rightarrow> sqliteStore \<Rightarrow> StoredEvent list" where
  "session_rows sid s = filter (\<lambda>e. se_SessionID e = sid) (ordered (ss_rows s))"

lemma replay_text:
  "ReplayReadOnly None sid collect w s = (None, w @ concat (map replay_line (session_rows sid s)))"
  by (simp add: ReplayReadOnly_def ScanSession_def scan_collect session_rows_def)

lemma export_text:
  "ExportJSONL None since collect w s =
    (None, w @ concat (map export_line (filter (\<lambda>e. (case since of None \<Rightarrow> 0 | Some t \<Rightarrow> int64 t) \<le> se_TsUnixNano e) (ordered (ss_rows s)))))"
  by (simp add: ExportJSONL_def Scan_def scan_collect)

section \<open>Exported lines are readable\<close>

definition stored_utf8 :: "StoredEvent \<Rightarrow> bool" where
  "stored_utf8 e \<longleftrightarrow> list_all valid_utf8
     [se_EventID e, se_TraceID e, se_SpanID e, se_SessionID e, se_RequestID e, se_ClientID e, se_Method e, se_ToolName e,
      se_UpstreamID e, se_Decision e, se_PolicyRule e, se_Reason e, se_ArgumentsJSON e, se_ResponseJSON e, se_ErrorJSON e,
      se_PrevHash e, se_EventHash e]"

lemma parses_stored:
  assumes "stored_utf8 e"
  shows "parses (Suc d) (json_object (map (\<lambda>(k, t, v). (k, t)) (stored_members e))) (JObject (stored_members e))"
proof -
  have "list_all2 (\<lambda>(k, t) v. valid_utf8 k \<and> parses d t v)
      (map (\<lambda>(k, t, v). (k, t)) (stored_members e)) (map (\<lambda>(k, t, v). v) (stored_members e))"
    using assms
    by (simp add: stored_members_def stored_utf8_def Let_def parses_string parses_number_text valid_utf8_ascii)
  moreover have "map2 (\<lambda>(k, t) v. (k, t, v)) (map (\<lambda>(k, t, v). (k, t)) ms) (map (\<lambda>(k, t, v). v) ms) = ms"
    for ms :: "(string \<times> string \<times> json) list"
    by (induction ms) auto
  ultimately show ?thesis using parses_object by metis
qed

lemma skip_newline: "skip ''\<newline>'' = ''''"
  by (simp add: skip_def is_ws_def)

lemma export_line_parses:
  assumes "stored_utf8 e"
  shows "parse_document (export_line e) = Some (JObject (stored_members e))"
proof -
  have p: "parses max_nesting (json_object (map (\<lambda>(k, t, v). (k, t)) (stored_members e))) (JObject (stored_members e))"
    using parses_stored [OF assms, of 9999] by (simp add: max_nesting_def)
  show ?thesis
    using parses_value [OF p, of "''\<newline>''"] skip_parses [OF p, of "''\<newline>''"]
    by (simp add: export_line_def parse_document_def skip_newline)
qed

section \<open>Recorded arguments\<close>

lemma lenient_to_any:
  "to_any num v = Some a \<Longrightarrow> lenient num v = a"
  "to_anys num vs = Some as \<Longrightarrow> lenients num vs = as"
  "to_members num acc ms = Some m \<Longrightarrow> lenient_members num acc ms = m"
  by (induction num v and num vs and num acc ms arbitrary: a and as and m rule: to_any_to_anys_to_members.induct)
    (auto split: option.splits)

definition call_text :: "(string \<times> any) list \<Rightarrow> string" where
  "call_text args = (if args = [] then '''' else marshal_map args)"

lemma recorded_call_text:
  assumes "any_ok num (AMap args)" and "depth (AMap args) \<le> max_nesting"
  shows "recorded_arguments num (call_text args) = sort_key fst (canon_pairs args)"
proof (cases "args = []")
  case False
  have p: "parses max_nesting (marshal_any (AMap args)) (json_of (AMap args))"
    using assms by (rule parses_any)
  have "marshal_any (AMap args) \<noteq> ''''" using p by (simp add: parses_def)
  moreover obtain ms where ms: "json_of (AMap args) = JObject ms" by simp
  moreover have "to_any num (JObject ms) = Some (AMap (sort_key fst (canon_pairs args)))"
    using to_any_canon [OF assms(1)] ms by simp
  then have "lenient_members num [] ms = sort_key fst (canon_pairs args)"
    using lenient_to_any(3) [of num "[]" ms] by auto
  ultimately show ?thesis
    using False parses_document [OF p] by (simp add: recorded_arguments_def call_text_def marshal_map_def)
qed (simp add: recorded_arguments_def call_text_def)

text \<open>The order of the members does not matter to the policy.\<close>

lemma Validate_canon [simp]: "Validate re v (canon a) = Validate re v a"
  by (cases a) (simp_all add: Validate_def)

lemma map_of_canon:
  "is_map args \<Longrightarrow> map_of (sort_key fst (canon_pairs args)) n = map_option canon (map_of args n)"
proof -
  assume m: "is_map args"
  have c: "map_of (canon_pairs args) n = map_option canon (map_of args n)"
    by (induction args) (auto simp: pairs_maps)
  have "is_map (canon_pairs args)" using m by (simp add: pairs_maps is_map_def comp_def)
  then have "map_of (sort_key fst (canon_pairs args)) = map_of (canon_pairs args)"
    by (intro map_of_mset [symmetric]) simp_all
  then show ?thesis using c by simp
qed

lemma anyArgFails_canon:
  "is_map args \<Longrightarrow> anyArgFails re vs (sort_key fst (canon_pairs args)) = anyArgFails re vs args"
  by (induction re vs args rule: anyArgFails.induct) (auto simp: map_of_canon split: option.splits)

lemma evaluate_canon:
  assumes "is_map args"
  shows "evaluate re p \<lparr>call_Name = n, call_Arguments = sort_key fst (canon_pairs args)\<rparr> =
    evaluate re p \<lparr>call_Name = n, call_Arguments = args\<rparr>"
proof -
  have "check_denyRules re \<lparr>call_Name = n, call_Arguments = sort_key fst (canon_pairs args)\<rparr> rs =
      check_denyRules re \<lparr>call_Name = n, call_Arguments = args\<rparr> rs"
    and "check_allowRules re \<lparr>call_Name = n, call_Arguments = sort_key fst (canon_pairs args)\<rparr> rs =
      check_allowRules re \<lparr>call_Name = n, call_Arguments = args\<rparr> rs" for rs
    by (induction rs) (simp_all add: anyArgFails_canon [OF assms])
  then show ?thesis by (simp add: evaluate_def split: option.split)
qed

section \<open>Properties\<close>

definition no_limits :: "'re CompiledPolicy \<Rightarrow> bool" where
  "no_limits p \<longleftrightarrow> list_all (\<lambda>r. rule_rateLimit r = None) (allowRules p)"

lemma check_limits_none:
  "list_all (\<lambda>r. rule_rateLimit r = None) rs \<Longrightarrow> check_limits al c now q rs s = (None, s)"
  by (induction rs) auto

lemma Evaluate_no_limits:
  "eng_policy e = Some p \<Longrightarrow> no_limits p \<Longrightarrow> Evaluate re al e c now q = (evaluate re p q, e)"
  by (simp add: Evaluate_def no_limits_def check_limits_none Let_def)

text \<open>
  A row whose tool and arguments \<open>eventToStored\<close> wrote for an event of the call \<open>q\<close>; the decision
  recorded in it may be any.
\<close>

definition recorded_call :: "num_fn \<Rightarrow> StoredEvent \<Rightarrow> ToolsCallRequest \<Rightarrow> bool" where
  "recorded_call num e q \<longleftrightarrow> (\<exists>ev. se_ToolName e = se_ToolName (eventToStored ev) \<and>
     se_ArgumentsJSON e = se_ArgumentsJSON (eventToStored ev) \<and>
     ev_Tool ev = call_Name q \<and> ev_Arguments ev = call_Arguments q \<and>
     any_ok num (AMap (call_Arguments q)) \<and> depth (AMap (call_Arguments q)) \<le> max_nesting)"

definition row_call :: "num_fn \<Rightarrow> StoredEvent \<Rightarrow> ToolsCallRequest" where
  "row_call num e = \<lparr>call_Name = se_ToolName e, call_Arguments = recorded_arguments num (se_ArgumentsJSON e)\<rparr>"

lemma recorded_decision:
  assumes "recorded_call num e q"
  shows "evaluate re p (row_call num e) = evaluate re p q"
proof -
  have q: "se_ToolName e = call_Name q" "se_ArgumentsJSON e = call_text (call_Arguments q)"
    "any_ok num (AMap (call_Arguments q))" "depth (AMap (call_Arguments q)) \<le> max_nesting"
    using assms by (auto simp: recorded_call_def eventToStored_def call_text_def)
  then have "row_call num e = \<lparr>call_Name = call_Name q, call_Arguments = sort_key fst (canon_pairs (call_Arguments q))\<rparr>"
    by (simp add: row_call_def recorded_call_text)
  moreover have "is_map (call_Arguments q)" using q(3) by simp
  ultimately show ?thesis using evaluate_canon [of "call_Arguments q" re p "call_Name q"] by (cases q) simp
qed

text \<open>The text of a check line, field by field.\<close>

lemma check_line_text:
  "check_line e d = rfc3339_nano (se_TsUnixNano e) @ [CHR 0x09] @
     (if dec_Action d = se_Decision e then ''='' else ''CHANGED'') @ [CHR 0x09] @ se_ToolName e @ [CHR 0x09] @
     ''old='' @ se_Decision e @ '' new='' @ dec_Action d @ '' rule='' @ dec_Rule d @ '' ['' @ dec_Reason d @ '']\<newline>''"
  by (simp add: check_line_def tab_def Let_def)

text \<open>A scan with the check writes the line of every recorded call.\<close>

lemma scan_check:
  assumes "eng_policy eng = Some p" and "no_limits p"
  shows "\<exists>k'. scanRows (check_event num (Evaluate re al) now collect) (eng, k, w) es =
    (None, eng, k', w @ concat (map (\<lambda>e. check_line e (evaluate re p (row_call num e)))
      (filter (\<lambda>e. se_Method e = ''tools/call'') es)))"
proof (induction es arbitrary: k w)
  case (Cons e es)
  show ?case
    using Cons [of k w] Cons [of "Suc k" "w @ check_line e (evaluate re p (row_call num e))"]
    by (auto simp: check_event_def Evaluate_no_limits [OF assms] collect_def row_call_def Let_def)
qed simp

text \<open>
  C23: What a policy check prints.  For every recorded call of the session, in the order of the log, and
  for nothing else, the check prints one line: the time, \<open>=\<close> if the policy's action on the original call
  is the recorded one and \<open>CHANGED\<close> otherwise, the tool, the old and the new action, and the rule and the
  reason of the new decision.  The policy has no rate limits; the rows may have been decided by any policy.
  The decision is that on the call as the gateway saw it: its arguments survive the way through the
  database, up to the order of their members, and the policy does not depend on that order.
\<close>

theorem replay_agrees:
  assumes "eng_policy eng = Some p" and "no_limits p"
    and "\<And>e. e \<in> set (session_rows sid s) \<Longrightarrow> se_Method e = ''tools/call'' \<Longrightarrow> recorded_call num e (call_of e)"
  shows "ReplayPolicyCheck None num (Evaluate re al) now sid eng collect w s =
    (None, w @ concat (map (\<lambda>e. let d = evaluate re p (call_of e) in
        rfc3339_nano (se_TsUnixNano e) @ [CHR 0x09] @
        (if dec_Action d = se_Decision e then ''='' else ''CHANGED'') @ [CHR 0x09] @ se_ToolName e @ [CHR 0x09] @
        ''old='' @ se_Decision e @ '' new='' @ dec_Action d @ '' rule='' @ dec_Rule d @ '' ['' @ dec_Reason d @ '']\<newline>'')
      (filter (\<lambda>e. se_Method e = ''tools/call'') (session_rows sid s))))"
proof -
  let ?rows = "filter (\<lambda>e. se_Method e = ''tools/call'') (session_rows sid s)"
  have r: "evaluate re p (row_call num e) = evaluate re p (call_of e)" if "e \<in> set ?rows" for e
    using recorded_decision [OF assms(3)] that by auto
  obtain k' where "scanRows (check_event num (Evaluate re al) now collect) (eng, 0, w) (session_rows sid s) =
      (None, eng, k', w @ concat (map (\<lambda>e. check_line e (evaluate re p (row_call num e))) ?rows))"
    using scan_check [OF assms(1,2)] by blast
  then have check: "ReplayPolicyCheck None num (Evaluate re al) now sid eng collect w s =
      (None, w @ concat (map (\<lambda>e. check_line e (evaluate re p (row_call num e))) ?rows))"
    by (simp add: ReplayPolicyCheck_def ScanSession_def flip: session_rows_def)
  have calls: "map (\<lambda>e. check_line e (evaluate re p (row_call num e))) ?rows = map (\<lambda>e. check_line e (evaluate re p (call_of e))) ?rows"
    using r by (intro map_cong refl) auto
  show ?thesis unfolding check calls unfolding check_line_text Let_def by (rule refl)
qed

definition replay_event :: Event where
  "replay_event = (blank_event ''i'' 1)\<lparr>ev_Tool := ''t'', ev_SessionID := ''s'', ev_Arguments := [(''b'', ANil), (''a'', ABool True)]\<rparr>"

definition replay_store :: sqliteStore where
  "replay_store = \<lparr>ss_path = ''audit.db'', ss_rows = [eventToStored replay_event]\<rparr>"

definition replay_policy :: "string set \<Rightarrow> string CompiledPolicy" where
  "replay_policy tools = \<lparr>allowedSurface = tools, allowRules = [], denyRules = []\<rparr>"

text \<open>A call that was allowed, checked against a policy without its tool.\<close>

theorem replay_agrees_witness:
  "ReplayPolicyCheck None Some (Evaluate substring_re Allow) (\<lambda>k. 0) ''s''
      (NewYAMLPolicyEngine (Some (replay_policy {}))) collect '''' replay_store =
    (None, rfc3339_nano 1 @ [CHR 0x09] @ ''CHANGED'' @ [CHR 0x09] @ ''t'' @ [CHR 0x09] @
      ''old=allow new=deny rule= [tool not in allowed surface]\<newline>'')"
proof -
  have e: "eng_policy (NewYAMLPolicyEngine (Some (replay_policy {}))) = Some (replay_policy {})" "no_limits (replay_policy {})"
    by (simp_all add: NewYAMLPolicyEngine_def NewYAMLPolicyEngineWithOptions_def replay_policy_def no_limits_def)
  have rows: "session_rows ''s'' replay_store = [eventToStored replay_event]"
    by (simp add: session_rows_def replay_store_def ordered_def eventToStored_def replay_event_def blank_event_def)
  have "recorded_call Some (eventToStored replay_event) \<lparr>call_Name = ''t'', call_Arguments = [(''b'', ANil), (''a'', ABool True)]\<rparr>"
    unfolding recorded_call_def
    by (rule exI [of _ replay_event]) (simp add: replay_event_def blank_event_def is_map_def max_nesting_def valid_utf8_ascii)
  then have r: "\<And>e. e \<in> set (session_rows ''s'' replay_store) \<Longrightarrow> se_Method e = ''tools/call'' \<Longrightarrow>
      recorded_call Some e \<lparr>call_Name = ''t'', call_Arguments = [(''b'', ANil), (''a'', ABool True)]\<rparr>"
    by (simp add: rows)
  have d: "se_Method (eventToStored replay_event) = ''tools/call''" "se_Decision (eventToStored replay_event) = ''allow''"
    "se_ToolName (eventToStored replay_event) = ''t''" "se_TsUnixNano (eventToStored replay_event) = 1"
    by (simp_all add: eventToStored_def replay_event_def blank_event_def UnixNano_def int64_id in_int64_def)
  have v: "evaluate substring_re (replay_policy {}) q = deny '''' ''tool not in allowed surface''" for q
    by (simp add: evaluate_def replay_policy_def)
  show ?thesis
    using replay_agrees [where sid = "''s''" and s = replay_store and call_of = "\<lambda>e. \<lparr>call_Name = ''t'',
        call_Arguments = [(''b'', ANil), (''a'', ABool True)]\<rparr>", OF e r,
        where re = substring_re and al = Allow and now = "\<lambda>k. 0" and w = "''''"]
    by (simp add: rows d v deny_def)
qed

text \<open>
  C39: What the export writes.  The export writes one line for every row from the lower bound on (for the
  zero time, every row whose timestamp is not negative), in the order of timestamps and ids; and each line
  of a row in valid UTF-8 is read back by a JSON decoder as an object with exactly these members: the
  fields of that row, under their names and with their values, in this order.
\<close>

theorem export_readable:
  "ExportJSONL None since collect w s =
     (None, w @ concat (map export_line
       (filter (\<lambda>e. (case since of None \<Rightarrow> 0 | Some t \<Rightarrow> int64 t) \<le> se_TsUnixNano e) (ordered (ss_rows s))))) \<and>
   (stored_utf8 e \<longrightarrow> (\<exists>ms. parse_document (export_line e) = Some (JObject ms) \<and>
     map (\<lambda>(k, t, v). (k, v)) ms =
      [(''EventID'', JString (se_EventID e)), (''TsUnixNano'', JNumber (show_int (se_TsUnixNano e))),
       (''TraceID'', JString (se_TraceID e)), (''SpanID'', JString (se_SpanID e)),
       (''SessionID'', JString (se_SessionID e)), (''RequestID'', JString (se_RequestID e)),
       (''ClientID'', JString (se_ClientID e)), (''Method'', JString (se_Method e)),
       (''ToolName'', JString (se_ToolName e)), (''UpstreamID'', JString (se_UpstreamID e)),
       (''Decision'', JString (se_Decision e)), (''PolicyRule'', JString (se_PolicyRule e)),
       (''Reason'', JString (se_Reason e)), (''ArgumentsJSON'', JString (se_ArgumentsJSON e)),
       (''ResponseJSON'', JString (se_ResponseJSON e)), (''ErrorJSON'', JString (se_ErrorJSON e)),
       (''DurationUs'', JNumber (show_int (se_DurationUs e))),
       (''PrevHash'', JString (se_PrevHash e)), (''EventHash'', JString (se_EventHash e))]))"
  using export_text [of since] export_line_parses [of e] by (simp add: stored_members_def Let_def)

theorem export_readable_witness:
  "\<exists>ms. parse_document (export_line (eventToStored (blank_event ''i'' 1))) = Some (JObject ms) \<and>
    map_of (map (\<lambda>(k, t, v). (k, v)) ms) ''EventID'' = Some (JString ''i'') \<and>
    map_of (map (\<lambda>(k, t, v). (k, v)) ms) ''Decision'' = Some (JString ''allow'')"
proof -
  let ?e = "eventToStored (blank_event ''i'' 1)"
  have f: "se_EventID ?e = ''i''" "se_Decision ?e = ''allow''" by (simp_all add: eventToStored_def blank_event_def)
  have "stored_utf8 ?e"
    by (simp add: stored_utf8_def eventToStored_def blank_event_def valid_utf8_ascii)
  with export_readable [of None "''''" replay_store ?e] obtain ms where
    "parse_document (export_line ?e) = Some (JObject ms)"
    "map_of (map (\<lambda>(k, t, v). (k, v)) ms) ''EventID'' = Some (JString (se_EventID ?e))"
    "map_of (map (\<lambda>(k, t, v). (k, v)) ms) ''Decision'' = Some (JString (se_Decision ?e))"
    by auto
  then show ?thesis by (simp add: f)
qed

end
