(* ===== verification/MainCmd.thy ===== *)
theory MainCmd
  imports System Replay
begin

text \<open>
  \<open>cmd/mcpshield/main.go\<close>: the start of the server, the reload of the policy, the warm-up loop and the
  other commands.  The host is a record of parameters: files, environment, YAML decoders, durations,
  the regular expression package and the SQLite driver.  Log output is left out; the command line is
  the subject of \<open>MainCli\<close>.
\<close>

section \<open>The host\<close>

record 're host =
  h_readFile :: "string \<Rightarrow> string + string"
  h_env :: "string \<Rightarrow> string"
  h_config_yaml :: "string \<Rightarrow> string + Config"
  h_policy_yaml :: "string \<Rightarrow> string + policyFile"
  h_pd :: pd_fn
  h_re :: "'re regexp_pkg"
  h_sqlopen :: "string \<Rightarrow> fault"
  h_exec :: "string \<Rightarrow> fault"
  h_disk :: "string \<Rightarrow> rows"
  h_scaled :: "string \<Rightarrow> int \<Rightarrow> int option"
  h_query :: fault
  h_map_order :: "(string \<times> string) list \<Rightarrow> (string \<times> string) list"

definition open_store :: "'re host \<Rightarrow> AuditSQLiteConfig \<Rightarrow> open_error + sqliteStore" where
  "open_store h cfg =
     (case NewSQLiteStore (h_sqlopen h) (h_exec h) (h_pd h) (h_disk h (asc_Path cfg)) cfg of
        Inl err \<Rightarrow> Inl err | Inr (st, stmts) \<Rightarrow> Inr st)"

definition load_policy :: "'re host \<Rightarrow> string \<Rightarrow> policy_error + 're CompiledPolicy" where
  "load_policy h path = LoadFromFile (h_readFile h) (h_policy_yaml h) (h_re h) (h_pd h) path"

section \<open>Building the parts\<close>

fun buildEntries :: "UpstreamRuntimeConfig list \<Rightarrow> (string \<times> transport_config_error) + MCPHTTPClient Entry list" where
  "buildEntries [] = Inr []"
| "buildEntries (u # us) =
     (case NewMCPHTTPClient (ur_ID u) (ur_URL u) (ur_Headers u)
         \<lparr>hc_RequestTimeout = ur_RequestTimeout u, hc_MaxResponseBytes = ur_MaxResponseBytes u\<rparr> of
        Inl err \<Rightarrow> Inl (ur_ID u, err)
      | Inr client \<Rightarrow>
        (case buildEntries us of
           Inl err \<Rightarrow> Inl err
         | Inr es \<Rightarrow> Inr (\<lparr>en_ID = ur_ID u, en_Prefix = ur_Prefix u, en_Client = client\<rparr> # es)))"

datatype any_authenticator = AllowAll | APIKeys apiKeyAuthenticator

datatype build_auth_error = NoKeys | KeyHashRequired string | ClientIDRequired string | NoneNotAllowed | TypeRequired

text \<open>The map of the keys: a later entry with the same hash replaces an earlier one.\<close>

fun collect_keys :: "AuthKeyConfig list \<Rightarrow> (string \<times> string) list \<Rightarrow> build_auth_error + (string \<times> string) list" where
  "collect_keys [] km = Inr km"
| "collect_keys (k # ks) km =
     (if ak_KeyHash k = '''' then Inl (KeyHashRequired (ak_ID k))
      else if ak_ClientID k = '''' then Inl (ClientIDRequired (ak_ID k))
      else collect_keys ks (AList.update (ak_KeyHash k) (ak_ClientID k) km))"

definition buildAuth ::
  "((string \<times> string) list \<Rightarrow> (string \<times> string) list) \<Rightarrow> AuthConfig \<Rightarrow> bool \<Rightarrow> build_auth_error + any_authenticator" where
  "buildAuth order cfg insecureAllowAnonymous =
     (if ac_Type cfg = ''api_key'' then
        (if length (ac_Keys cfg) = 0 then Inl NoKeys
         else case collect_keys (ac_Keys cfg) [] of
           Inl err \<Rightarrow> Inl err
         | Inr km \<Rightarrow> Inr (APIKeys (NewAPIKeyAuthenticator (order km))))
      else if ac_Type cfg = ''none'' then
        (if \<not> insecureAllowAnonymous then Inl NoneNotAllowed else Inr AllowAll)
      else Inl TypeRequired)"

definition any_Authenticate :: "any_authenticator \<Rightarrow> string \<Rightarrow> auth_error + string" where
  "any_Authenticate a header =
     (case a of AllowAll \<Rightarrow> allowAll_Authenticate () header | APIKeys k \<Rightarrow> Authenticate k header)"

section \<open>serve\<close>

datatype serve_error =
    LoadConfig config_error
  | RuntimeConfigError config_error
  | InitAuth build_auth_error
  | LoadPolicyError policy_error
  | InitAudit logger_error
  | InitClient string transport_config_error
  | InitManager manager_config_error
  | InitGateway gateway_config_error
  | InitHTTP transport_config_error

record 're server =
  sv_auth :: any_authenticator
  sv_engine :: "('re, fixedWindowLimiter) YAMLPolicyEngine"
  sv_logger :: "sqliteStore any_logger"
  sv_manager :: "MCPHTTPClient realManager"
  sv_gateway :: "unit Gateway"
  sv_http :: http_server
  sv_policyFile :: string
  sv_warmupTimeout :: duration
  sv_warmupRetryInterval :: duration

definition load_engine :: "'re host \<Rightarrow> string \<Rightarrow> policy_error + ('re, fixedWindowLimiter) YAMLPolicyEngine" where
  "load_engine h path =
     (if path \<noteq> '''' then
        (case load_policy h path of
           Inl err \<Rightarrow> Inl err
         | Inr p \<Rightarrow> Inr (NewYAMLPolicyEngine (Some p)))
      else Inr (NewYAMLPolicyEngine None))"

text \<open>
  The counters of one registry are shared by pointer; here every component gets the new registry.  The
  SQLite logger counts its calls on the metrics interface in its own record, with or without a
  registry, so that nothing is set there.
\<close>

definition wire_metrics :: "MetricsConfig \<Rightarrow> MCPHTTPClient realManager \<Rightarrow> unit Gateway \<Rightarrow> MCPHTTPClient realManager \<times> unit Gateway" where
  "wire_metrics cfg mgr gw =
     (if mc_Enabled cfg then
        (let reg = NewRegistry (mc_IncludeClientID cfg) in
         (SetMetrics reg (mgr\<lparr>rm_entries := map (\<lambda>e. e\<lparr>en_Client := client_SetMetrics reg (en_Client e)\<rparr>) (rm_entries mgr)\<rparr>),
          gateway_SetMetrics (Some reg) gw))
      else (mgr, gw))"

definition relabel :: "('x \<Rightarrow> 'y) \<Rightarrow> ('x + 'v) \<Rightarrow> 'y + 'v" where
  "relabel f r = (case r of Inl x \<Rightarrow> Inl (f x) | Inr v \<Rightarrow> Inr v)"

definition runServe :: "'re host \<Rightarrow> string \<Rightarrow> serve_error + 're server" where
  "runServe h cfgPath =
     and_then (relabel LoadConfig (Load (h_readFile h) (h_env h) (h_config_yaml h) cfgPath)) (\<lambda>cfg.
     and_then (relabel RuntimeConfigError (buildRuntime (h_pd h) cfg)) (\<lambda>rt.
     and_then (relabel InitAuth (buildAuth (h_map_order h) (cfg_Auth cfg) (sc_InsecureAllowAnonymous (cfg_Server cfg)))) (\<lambda>auth.
     and_then (relabel LoadPolicyError (load_engine h (cfg_PolicyFile cfg))) (\<lambda>engine.
     and_then (relabel InitAudit (NewLogger sqlite_ops (open_store h) (h_pd h) (h_scaled h) (h_query h) (cfg_Audit cfg))) (\<lambda>logger.
     and_then (relabel (\<lambda>(i, err). InitClient i err) (buildEntries (rt_Upstreams rt))) (\<lambda>entries.
     and_then (relabel InitManager (NewManager entries
       \<lparr>mc_ToolsCacheTTL = um_ToolsCacheTTL (rt_UpstreamManager rt), mc_RefreshTimeout = um_RefreshTimeout (rt_UpstreamManager rt)\<rparr>)) (\<lambda>mgr.
     and_then (relabel InitGateway (NewGateway ()
       \<lparr>gc_RequestTimeout = sr_RequestTimeout (rt_Server rt), gc_MaxRequestBytes = sr_MaxRequestBytes (rt_Server rt),
        gc_SessionTTL = sr_SessionTTL (rt_Server rt), gc_SessionMaxEntries = sr_SessionMaxEntries (rt_Server rt)\<rparr>)) (\<lambda>gw0.
     case wire_metrics (cfg_Metrics cfg) mgr gw0 of (mgr', gw) \<Rightarrow>
     and_then (relabel InitHTTP (NewHTTPServer (sr_Listen (rt_Server rt))
       \<lparr>hs_ReadTimeout = sr_ReadTimeout (rt_Server rt), hs_WriteTimeout = sr_WriteTimeout (rt_Server rt),
        hs_IdleTimeout = sr_IdleTimeout (rt_Server rt)\<rparr>)) (\<lambda>http.
     Inr \<lparr>sv_auth = auth, sv_engine = engine, sv_logger = logger, sv_manager = mgr', sv_gateway = gw, sv_http = http,
       sv_policyFile = cfg_PolicyFile cfg, sv_warmupTimeout = sr_WarmupTimeout (rt_Server rt),
       sv_warmupRetryInterval = sr_WarmupRetryInterval (rt_Server rt)\<rparr>)))))))))"

text \<open>
  How \<open>runServe\<close> returns: with the answer of \<open>Shutdown\<close>, or with the error of the listener.
\<close>

datatype serve_end = Stopped "string option" | ListenerFailed string

section \<open>Reload\<close>

text \<open>One SIGHUP: \<open>h\<close> holds the file system as it is then.\<close>

definition sighup :: "string \<Rightarrow> 're host \<Rightarrow> ('re, fixedWindowLimiter) YAMLPolicyEngine \<Rightarrow> ('re, fixedWindowLimiter) YAMLPolicyEngine" where
  "sighup policyFile h e =
     (if policyFile = '''' then e
      else case load_policy h policyFile of
        Inl err \<Rightarrow> e
      | Inr p \<Rightarrow> Swap e (Some p))"

section \<open>The warm-up loop\<close>

text \<open>
  The \<open>k\<close>-th attempt: what the upstreams answer, when, the channel of the load, and whether the
  process is being stopped when the attempt has failed.  \<open>None\<close> is a loop that never ends.
\<close>

record 'e attempt =
  at_ask :: "nat \<Rightarrow> 'e + Tool list"
  at_now :: instant
  at_channel :: nat
  at_stopped :: bool

partial_function (option) runWarmupUntilReady ::
  "(nat \<Rightarrow> 'e attempt) \<Rightarrow> nat \<Rightarrow> 'c realManager \<Rightarrow> (nat \<times> 'c realManager) option" where
  "runWarmupUntilReady att k m =
     (if Ready m then Some (k, m)
      else case Warmup (at_ask (att k)) (at_now (att k)) (at_channel (att k)) m of
        (None, m1) \<Rightarrow> Some (Suc k, m1)
      | (Some err, m1) \<Rightarrow> if at_stopped (att k) then Some (Suc k, m1) else runWarmupUntilReady att (Suc k) m1)"

section \<open>The other commands\<close>

datatype command_error =
    CmdConfig config_error
  | CmdRuntime config_error
  | UpstreamNotFound string
  | CmdClient transport_config_error
  | CmdManager manager_config_error
  | WarmupFailed "transport_error manager_error"
  | ListFailed "transport_error manager_error"
  | PolicyInvalid policy_error
  | OpenAuditDB open_error
  | ChainFailed "store_error + chain_error"
  | InvalidSince string
  | CmdPolicy policy_error
  | PolicyRequired
  | UnknownMode string
  | CmdStore store_error
  | CmdWrite

text \<open>
  \<open>runValidateUpstream\<close>: \<open>ask\<close> is the client's \<open>ToolsList\<close>; the clock readings of the warm-up and of the
  listing are \<open>now\<close> and \<open>now'\<close>.  The command prints the number of tools.
\<close>

fun find_upstream :: "string \<Rightarrow> UpstreamConfig list \<Rightarrow> UpstreamRuntimeConfig list \<Rightarrow> (UpstreamConfig \<times> UpstreamRuntimeConfig) option" where
  "find_upstream i (u # us) (r # rs) = (if uc_ID u = i then Some (u, r) else find_upstream i us rs)"
| "find_upstream i us rs = None"

definition runValidateUpstream ::
  "'re host \<Rightarrow> (MCPHTTPClient \<Rightarrow> transport_error + Tool list) \<Rightarrow> instant \<Rightarrow> instant \<Rightarrow> string \<Rightarrow> string \<Rightarrow> command_error + nat" where
  "runValidateUpstream h ask now now' cfgPath upstreamID =
     and_then (relabel CmdConfig (Load (h_readFile h) (h_env h) (h_config_yaml h) cfgPath)) (\<lambda>cfg.
     and_then (relabel CmdRuntime (buildRuntime (h_pd h) cfg)) (\<lambda>rt.
     case find_upstream upstreamID (cfg_Upstreams cfg) (rt_Upstreams rt) of
       None \<Rightarrow> Inl (UpstreamNotFound upstreamID)
     | Some (u, r) \<Rightarrow>
       and_then (relabel CmdClient (NewMCPHTTPClient (uc_ID u) (uc_URL u) (uc_Headers u)
         \<lparr>hc_RequestTimeout = ur_RequestTimeout r, hc_MaxResponseBytes = ur_MaxResponseBytes r\<rparr>)) (\<lambda>client.
       and_then (relabel CmdManager (NewManager [\<lparr>en_ID = uc_ID u, en_Prefix = uc_Prefix u, en_Client = client\<rparr>]
         \<lparr>mc_ToolsCacheTTL = ur_ToolsCacheTTL r, mc_RefreshTimeout = ur_RefreshTimeout r\<rparr>)) (\<lambda>mgr.
       case Warmup (\<lambda>k. ask client) now 0 mgr of
         (Some err, m1) \<Rightarrow> Inl (WarmupFailed err)
       | (None, m1) \<Rightarrow>
         (case fst (ToolsList now' m1) of
            Inl err \<Rightarrow> Inl (ListFailed err)
          | Inr tools \<Rightarrow> Inr (length tools))))))"

definition runValidatePolicy :: "'re host \<Rightarrow> string \<Rightarrow> command_error + unit" where
  "runValidatePolicy h path = (case load_policy h path of Inl err \<Rightarrow> Inl (PolicyInvalid err) | Inr p \<Rightarrow> Inr ())"

definition open_db :: "'re host \<Rightarrow> string \<Rightarrow> command_error + sqliteStore" where
  "open_db h path = relabel OpenAuditDB
     (open_store h \<lparr>asc_Path = path, asc_WAL = False, asc_BusyTimeout = '''', asc_Synchronous = ''''\<rparr>)"

definition runAuditVerify :: "'re host \<Rightarrow> string \<Rightarrow> command_error + unit" where
  "runAuditVerify h dbPath =
     and_then (open_db h dbPath) (\<lambda>store.
       case VerifyChain (h_query h) store of Some err \<Rightarrow> Inl (ChainFailed err) | None \<Rightarrow> Inr ())"

definition scan_result :: "(store_error + 'err) option \<times> 'w \<Rightarrow> command_error option \<times> 'w" where
  "scan_result r = (case r of (e, w) \<Rightarrow>
     (map_option (\<lambda>x. case x of Inl err \<Rightarrow> CmdStore err | Inr y \<Rightarrow> CmdWrite) e, w))"

text \<open>
  \<open>parse_time\<close> is \<open>time.Parse(time.RFC3339, \<dots>)\<close>.  A text that parses to the zero time, the first of January
  of the year 1, is the same as none.  The error is paired with what was written.
\<close>

definition zero_time :: instant where "zero_time = -62135596800 * 1000000000"

definition time_arg :: "instant \<Rightarrow> instant option" where
  "time_arg t = (if t = zero_time then None else Some t)"

definition runAuditExport ::
  "'re host \<Rightarrow> (string \<Rightarrow> string + instant) \<Rightarrow> ('w, 'err) writer \<Rightarrow> 'w \<Rightarrow> string \<Rightarrow> string \<Rightarrow> command_error option \<times> 'w" where
  "runAuditExport h parse_time wr w dbPath sinceArg =
     (case open_db h dbPath of
        Inl err \<Rightarrow> (Some err, w)
      | Inr store \<Rightarrow>
        if sinceArg \<noteq> '''' then
          (case parse_time sinceArg of
             Inl err \<Rightarrow> (Some (InvalidSince sinceArg), w)
           | Inr t \<Rightarrow> scan_result (ExportJSONL (h_query h) (time_arg t) wr w store))
        else scan_result (ExportJSONL (h_query h) None wr w store))"

definition runReplayTo ::
  "'re host \<Rightarrow> num_fn \<Rightarrow> (nat \<Rightarrow> instant) \<Rightarrow> ('w, 'err) writer \<Rightarrow> 'w \<Rightarrow> string \<Rightarrow> string \<Rightarrow> string \<Rightarrow> string
   \<Rightarrow> command_error option \<times> 'w" where
  "runReplayTo h num now wr w dbPath sessionID mode policyFile =
     (case open_db h dbPath of
        Inl err \<Rightarrow> (Some err, w)
      | Inr store \<Rightarrow>
        if mode = ''read-only'' then scan_result (ReplayReadOnly (h_query h) sessionID wr w store)
        else if mode = ''policy-check'' then
          (if policyFile = '''' then (Some PolicyRequired, w)
           else case load_policy h policyFile of
             Inl err \<Rightarrow> (Some (CmdPolicy err), w)
           | Inr p \<Rightarrow> scan_result (ReplayPolicyCheck (h_query h) num (Evaluate (h_re h) Allow) now sessionID
               (NewYAMLPolicyEngine (Some p)) wr w store))
        else (Some (UnknownMode mode), w))"

section \<open>Starting\<close>

lemma relabel_Inr: "relabel f r = Inr v \<longleftrightarrow> r = Inr v"
  by (cases r) (simp_all add: relabel_def)

lemma relabel_Inl: "relabel f r = Inl x \<longleftrightarrow> (\<exists>y. r = Inl y \<and> x = f y)"
  by (cases r) (auto simp: relabel_def)

lemma and_then_Inl: "and_then r f = Inl e \<longleftrightarrow> r = Inl e \<or> (\<exists>v. r = Inr v \<and> f v = Inl e)"
  by (cases r) simp_all

lemma buildEntries_ok:
  "list_all upstream_ok us \<Longrightarrow> \<exists>es. buildEntries us = Inr es \<and>
     map (\<lambda>e. (en_ID e, en_Prefix e)) es = map (\<lambda>u. (ur_ID u, ur_Prefix u)) us"
  by (induction us) (auto simp: upstream_ok_def NewMCPHTTPClient_def validateMCPHTTPClientConfig_def)

text \<open>The parts that depend on the runtime configuration only cannot fail.\<close>

lemma serve_parts_ok:
  assumes "buildRuntime (h_pd h) cfg = Inr rt"
  shows "\<exists>es. buildEntries (rt_Upstreams rt) = Inr es"
    and "\<exists>m. NewManager es' \<lparr>mc_ToolsCacheTTL = um_ToolsCacheTTL (rt_UpstreamManager rt),
      mc_RefreshTimeout = um_RefreshTimeout (rt_UpstreamManager rt)\<rparr> = Inr m"
    and "\<exists>g. NewGateway () \<lparr>gc_RequestTimeout = sr_RequestTimeout (rt_Server rt), gc_MaxRequestBytes = sr_MaxRequestBytes (rt_Server rt),
      gc_SessionTTL = sr_SessionTTL (rt_Server rt), gc_SessionMaxEntries = sr_SessionMaxEntries (rt_Server rt)\<rparr> = Inr g"
    and "\<exists>s. NewHTTPServer (sr_Listen (rt_Server rt)) \<lparr>hs_ReadTimeout = sr_ReadTimeout (rt_Server rt),
      hs_WriteTimeout = sr_WriteTimeout (rt_Server rt), hs_IdleTimeout = sr_IdleTimeout (rt_Server rt)\<rparr> = Inr s"
  using buildRuntime_facts [OF assms] buildEntries_ok [of "rt_Upstreams rt"]
  by (auto simp: NewManager_def validateManagerConfig_def NewGateway_def validateConfig_def NewHTTPServer_def
      validateHTTPServerConfig_def server_ok_def)

text \<open>What \<open>buildAuth\<close> needs of the authentication settings, and the keys it collects.\<close>

definition auth_complete :: "AuthConfig \<Rightarrow> bool \<Rightarrow> bool" where
  "auth_complete cfg insecure \<longleftrightarrow>
     ac_Type cfg = ''none'' \<and> insecure \<or>
     ac_Type cfg = ''api_key'' \<and> ac_Keys cfg \<noteq> [] \<and> list_all (\<lambda>k. ak_KeyHash k \<noteq> '''' \<and> ak_ClientID k \<noteq> '''') (ac_Keys cfg)"

lemma collect_keys_Inr:
  "collect_keys ks km = Inr km' \<Longrightarrow> list_all (\<lambda>k. ak_KeyHash k \<noteq> '''' \<and> ak_ClientID k \<noteq> '''') ks \<and>
    map_of km' = map_of km ++ map_of (rev (map (\<lambda>k. (ak_KeyHash k, ak_ClientID k)) ks)) \<and>
    (distinct (map fst km) \<longrightarrow> distinct (map fst km'))"
proof (induction ks arbitrary: km)
  case (Cons k ks)
  then have ok: "ak_KeyHash k \<noteq> ''''" "ak_ClientID k \<noteq> ''''"
    and r: "collect_keys ks (AList.update (ak_KeyHash k) (ak_ClientID k) km) = Inr km'"
    by (auto split: if_splits)
  have "map_of (AList.update (ak_KeyHash k) (ak_ClientID k) km) = map_of km ++ [ak_KeyHash k \<mapsto> ak_ClientID k]"
    by (simp add: update_conv')
  then show ?case using Cons.IH [OF r] ok by (simp add: distinct_update del: map_add_upd)
qed simp

lemma collect_keys_total:
  "list_all (\<lambda>k. ak_KeyHash k \<noteq> '''' \<and> ak_ClientID k \<noteq> '''') ks \<Longrightarrow> \<exists>km'. collect_keys ks km = Inr km'"
  by (induction ks arbitrary: km) simp_all

lemma buildAuth_total: "(\<exists>a. buildAuth order cfg b = Inr a) \<longleftrightarrow> auth_complete cfg b"
  using collect_keys_total [of "ac_Keys cfg" "[]"]
  by (auto simp: buildAuth_def auth_complete_def dest: collect_keys_Inr split: if_splits sum.splits)

lemma buildAuth_Inr:
  assumes "buildAuth order cfg b = Inr a" and "\<And>m. mset (order m) = mset m"
  shows "case a of
      AllowAll \<Rightarrow> ac_Type cfg = ''none'' \<and> b
    | APIKeys k \<Rightarrow> ac_Type cfg = ''api_key'' \<and>
        (\<exists>km. k = NewAPIKeyAuthenticator km \<and> distinct (map fst km) \<and>
          map_of km = map_of (rev (map (\<lambda>x. (ak_KeyHash x, ak_ClientID x)) (ac_Keys cfg))))"
proof (cases a)
  case AllowAll
  then show ?thesis using assms(1) by (auto simp: buildAuth_def split: if_splits sum.splits)
next
  case (APIKeys k)
  then obtain km where km: "ac_Type cfg = ''api_key''" "collect_keys (ac_Keys cfg) [] = Inr km" "k = NewAPIKeyAuthenticator (order km)"
    using assms(1) by (auto simp: buildAuth_def split: if_splits sum.splits)
  have f: "distinct (map fst km)" "map_of km = map_of (rev (map (\<lambda>x. (ak_KeyHash x, ak_ClientID x)) (ac_Keys cfg)))"
    using collect_keys_Inr [OF km(2)] by simp_all
  have "map_of (order km) = map_of km"
    using map_of_mset [of km "order km"] f(1) assms(2) by (simp add: is_map_def)
  moreover have "distinct (map fst (order km))"
    using f(1) assms(2) [of km] by (metis distinct_count_atmost_1 mset_map mset_eq_imp_distinct_iff)
  ultimately show ?thesis using km f APIKeys by auto
qed

text \<open>
  C16: Starting fails closed.  The server starts only with the authenticator, the policy engine and the
  audit logger that the configuration asks for.  Anonymous access is only granted for the authentication
  type \<open>none\<close> with the insecure flag; for the type \<open>api_key\<close> the authenticator has exactly the configured
  hashes, each with the client of its last entry; no other type, the empty one included, starts.  The
  engine denies every call exactly when no policy file is named, and otherwise has the policy of the file.
  The logger is none, standard output, or the SQLite logger that its constructor builds, as configured.
  The manager has the configured upstreams and no listing yet.  Once the runtime configuration is built,
  the server fails to start only for incomplete authentication settings, a policy file that does not
  load, or an audit logger that cannot be built.
\<close>

theorem serve_starts_closed:
  assumes "Load (h_readFile h) (h_env h) (h_config_yaml h) path = Inr cfg" and "buildRuntime (h_pd h) cfg = Inr rt"
    and "\<And>m. mset (h_map_order h m) = mset m"
  shows "case runServe h path of
      Inr sv \<Rightarrow>
        (case sv_auth sv of
           AllowAll \<Rightarrow> ac_Type (cfg_Auth cfg) = ''none'' \<and> sc_InsecureAllowAnonymous (cfg_Server cfg)
         | APIKeys k \<Rightarrow> ac_Type (cfg_Auth cfg) = ''api_key'' \<and>
             (\<exists>km. k = NewAPIKeyAuthenticator km \<and> distinct (map fst km) \<and>
               map_of km = map_of (rev (map (\<lambda>x. (ak_KeyHash x, ak_ClientID x)) (ac_Keys (cfg_Auth cfg)))))) \<and>
        (if cfg_PolicyFile cfg = '''' then sv_engine sv = NewYAMLPolicyEngine None
         else \<exists>p. load_policy h (cfg_PolicyFile cfg) = Inr p \<and> sv_engine sv = NewYAMLPolicyEngine (Some p)) \<and>
        (if \<not> auc_Enabled (cfg_Audit cfg) then sv_logger sv = NoopLogger
         else if auc_Backend (cfg_Audit cfg) = ''stdout'' then sv_logger sv = StdoutLogger
         else \<exists>l. sv_logger sv = SQLiteLogger l \<and> auc_Backend (cfg_Audit cfg) \<in> {''sqlite'', ''''} \<and>
           NewSQLiteAuditLogger sqlite_ops (open_store h) (h_pd h) (h_scaled h) (h_query h) (cfg_Audit cfg) = Inr l) \<and>
        map (\<lambda>e. (en_ID e, en_Prefix e)) (rm_entries (sv_manager sv)) = map (\<lambda>u. (ur_ID u, ur_Prefix u)) (rt_Upstreams rt) \<and>
        \<not> Ready (sv_manager sv) \<and> 0 < gw_maxRequestBytes (sv_gateway sv) \<and> st_clients (gw_table (sv_gateway sv)) = []
    | Inl err \<Rightarrow>
        (\<exists>x. err = InitAuth x) \<and> \<not> auth_complete (cfg_Auth cfg) (sc_InsecureAllowAnonymous (cfg_Server cfg)) \<or>
        (\<exists>x. err = LoadPolicyError x \<and> cfg_PolicyFile cfg \<noteq> '''' \<and> load_policy h (cfg_PolicyFile cfg) = Inl x) \<or>
        (\<exists>x. err = InitAudit x \<and>
          NewLogger sqlite_ops (open_store h) (h_pd h) (h_scaled h) (h_query h) (cfg_Audit cfg) = Inl x)"
proof -
  note parts = serve_parts_ok [OF assms(2)]
  obtain es where es: "buildEntries (rt_Upstreams rt) = Inr es"
    "map (\<lambda>e. (en_ID e, en_Prefix e)) es = map (\<lambda>u. (ur_ID u, ur_Prefix u)) (rt_Upstreams rt)"
    using buildEntries_ok [of "rt_Upstreams rt"] buildRuntime_facts [OF assms(2)] by blast
  obtain m where m: "NewManager es \<lparr>mc_ToolsCacheTTL = um_ToolsCacheTTL (rt_UpstreamManager rt),
      mc_RefreshTimeout = um_RefreshTimeout (rt_UpstreamManager rt)\<rparr> = Inr m" using parts(2) by blast
  obtain g where g: "NewGateway () \<lparr>gc_RequestTimeout = sr_RequestTimeout (rt_Server rt), gc_MaxRequestBytes = sr_MaxRequestBytes (rt_Server rt),
      gc_SessionTTL = sr_SessionTTL (rt_Server rt), gc_SessionMaxEntries = sr_SessionMaxEntries (rt_Server rt)\<rparr> = Inr g"
    using parts(3) by blast
  obtain s where s: "NewHTTPServer (sr_Listen (rt_Server rt)) \<lparr>hs_ReadTimeout = sr_ReadTimeout (rt_Server rt),
      hs_WriteTimeout = sr_WriteTimeout (rt_Server rt), hs_IdleTimeout = sr_IdleTimeout (rt_Server rt)\<rparr> = Inr s"
    using parts(4) by blast
  obtain mgr' gw where w: "wire_metrics (cfg_Metrics cfg) m g = (mgr', gw)" by fastforce
  have gw: "0 < gw_maxRequestBytes gw" "st_clients (gw_table gw) = []"
    using w g by (auto simp: wire_metrics_def gateway_SetMetrics_def NewGateway_def validateConfig_def Let_def
        split: option.splits if_splits)
  have mg: "map (\<lambda>e. (en_ID e, en_Prefix e)) (rm_entries mgr') = map (\<lambda>u. (ur_ID u, ur_Prefix u)) (rt_Upstreams rt)" "\<not> Ready mgr'"
    using w NewManager_fresh [OF m] es(2)
    by (auto simp: wire_metrics_def SetMetrics_def fresh_def Ready_def Let_def comp_def split: if_splits)
  let ?auth = "buildAuth (h_map_order h) (cfg_Auth cfg) (sc_InsecureAllowAnonymous (cfg_Server cfg))"
  let ?log = "NewLogger sqlite_ops (open_store h) (h_pd h) (h_scaled h) (h_query h) (cfg_Audit cfg)"
  have auth: "?auth = Inl x \<Longrightarrow> \<not> auth_complete (cfg_Auth cfg) (sc_InsecureAllowAnonymous (cfg_Server cfg))" for x
    using buildAuth_total [of "h_map_order h" "cfg_Auth cfg" "sc_InsecureAllowAnonymous (cfg_Server cfg)"] by auto
  note authr = buildAuth_Inr [OF _ assms(3), where cfg = "cfg_Auth cfg" and b = "sc_InsecureAllowAnonymous (cfg_Server cfg)"]
  have eng: "load_engine h (cfg_PolicyFile cfg) = Inr e \<Longrightarrow>
      (if cfg_PolicyFile cfg = '''' then e = NewYAMLPolicyEngine None
       else \<exists>p. load_policy h (cfg_PolicyFile cfg) = Inr p \<and> e = NewYAMLPolicyEngine (Some p))"
    "load_engine h (cfg_PolicyFile cfg) = Inl x \<Longrightarrow> cfg_PolicyFile cfg \<noteq> '''' \<and> load_policy h (cfg_PolicyFile cfg) = Inl x" for e x
    by (auto simp: load_engine_def split: sum.splits if_splits)
  have log: "?log = Inr l \<Longrightarrow> (if \<not> auc_Enabled (cfg_Audit cfg) then l = NoopLogger
         else if auc_Backend (cfg_Audit cfg) = ''stdout'' then l = StdoutLogger
         else \<exists>k. l = SQLiteLogger k \<and> auc_Backend (cfg_Audit cfg) \<in> {''sqlite'', ''''} \<and>
           NewSQLiteAuditLogger sqlite_ops (open_store h) (h_pd h) (h_scaled h) (h_query h) (cfg_Audit cfg) = Inr k)" for l
    by (auto simp: NewLogger_def split: if_splits sum.splits)
  have unfold: "runServe h path = and_then (relabel InitAuth ?auth) (\<lambda>auth.
      and_then (relabel LoadPolicyError (load_engine h (cfg_PolicyFile cfg))) (\<lambda>engine.
      and_then (relabel InitAudit ?log) (\<lambda>logger.
      Inr \<lparr>sv_auth = auth, sv_engine = engine, sv_logger = logger, sv_manager = mgr', sv_gateway = gw, sv_http = s,
        sv_policyFile = cfg_PolicyFile cfg, sv_warmupTimeout = sr_WarmupTimeout (rt_Server rt),
        sv_warmupRetryInterval = sr_WarmupRetryInterval (rt_Server rt)\<rparr>)))"
    using assms(1,2) es(1) m g s w by (simp add: runServe_def relabel_def)
  show ?thesis
  proof (cases ?auth)
    case (Inl x)
    then show ?thesis using auth by (simp add: unfold relabel_def)
  next
    case a: (Inr a)
    show ?thesis
    proof (cases "load_engine h (cfg_PolicyFile cfg)")
      case (Inl x)
      then show ?thesis using eng(2) a by (simp add: unfold relabel_def)
    next
      case e: (Inr e)
      show ?thesis
      proof (cases ?log)
        case (Inl x)
        then show ?thesis using a e by (simp add: unfold relabel_def)
      next
        case (Inr l)
        then have r: "runServe h path = Inr \<lparr>sv_auth = a, sv_engine = e, sv_logger = l, sv_manager = mgr', sv_gateway = gw,
            sv_http = s, sv_policyFile = cfg_PolicyFile cfg, sv_warmupTimeout = sr_WarmupTimeout (rt_Server rt),
            sv_warmupRetryInterval = sr_WarmupRetryInterval (rt_Server rt)\<rparr>"
          by (simp add: unfold a e relabel_def)
        show ?thesis
          unfolding r sum.case server.simps
          by (intro conjI authr [OF a] eng(1) [OF e] log [OF Inr] gw mg)
      qed
    qed
  qed
qed

text \<open>A host with one configuration file: anonymous access, no policy file, no audit.\<close>

definition demo_config :: Config where
  "demo_config = sample_config\<lparr>cfg_Auth := \<lparr>ac_Type = ''none'', ac_Keys = []\<rparr>,
     cfg_Server := (cfg_Server sample_config)\<lparr>sc_InsecureAllowAnonymous := True\<rparr>\<rparr>"

definition demo_host :: "string host" where
  "demo_host = \<lparr>h_readFile = (\<lambda>p. if p = ''c'' then Inr '''' else Inl ''missing''), h_env = (\<lambda>n. ''''),
     h_config_yaml = (\<lambda>t. Inr demo_config), h_policy_yaml = (\<lambda>t. Inl ''''), h_pd = ParseDuration (\<lambda>_ _ _. 0),
     h_re = substring_re, h_sqlopen = (\<lambda>p. None), h_exec = (\<lambda>s. None), h_disk = (\<lambda>p. []),
     h_scaled = (\<lambda>s n. None), h_query = None, h_map_order = (\<lambda>m. m)\<rparr>"

lemma demo_runtime: "\<exists>rt. buildRuntime (h_pd demo_host) demo_config = Inr rt"
  by (simp add: demo_host_def demo_config_def buildRuntime_def sample_config_defs buildServerRuntime_def
      buildUpstreamRuntime_def parseDurationWithDefault_def parseInt64WithDefault_def
      parseIntWithDefault_def check_upstream_def upstream_values_def ParseDuration_30s default_defs time_units)

lemma demo_load: "Load (h_readFile demo_host) (h_env demo_host) (h_config_yaml demo_host) ''c'' = Inr demo_config"
  by (simp add: Load_def demo_host_def)

theorem serve_starts_closed_witness:
  "\<exists>sv. runServe demo_host ''c'' = Inr sv \<and> sv_auth sv = AllowAll \<and> sv_engine sv = NewYAMLPolicyEngine None \<and>
    sv_logger sv = NoopLogger \<and> \<not> Ready (sv_manager sv)"
proof -
  obtain rt where rt: "buildRuntime (h_pd demo_host) demo_config = Inr rt" using demo_runtime by blast
  have p: "cfg_PolicyFile demo_config = ''''" "auc_Enabled (cfg_Audit demo_config) = False" "ac_Type (cfg_Auth demo_config) = ''none''"
    by (simp_all add: demo_config_def sample_config_defs)
  have o: "\<And>m. mset (h_map_order demo_host m) = mset m" by (simp add: demo_host_def)
  have n: "auth_complete (cfg_Auth demo_config) (sc_InsecureAllowAnonymous (cfg_Server demo_config))"
    "NewLogger sqlite_ops (open_store demo_host) (h_pd demo_host) (h_scaled demo_host) (h_query demo_host) (cfg_Audit demo_config) = Inr NoopLogger"
    by (simp_all add: auth_complete_def demo_config_def sample_config_defs NewLogger_def)
  show ?thesis
    using serve_starts_closed [OF demo_load rt o] n p
    by (cases "runServe demo_host ''c''") (auto split: any_authenticator.splits)
qed

section \<open>Reloading\<close>

text \<open>The last policy that loaded, of the initial one and the file at each signal.\<close>

definition last_loaded :: "'re CompiledPolicy option \<Rightarrow> string \<Rightarrow> 're host list \<Rightarrow> 're CompiledPolicy option" where
  "last_loaded p0 path hs =
     (case rev (List.map_filter (\<lambda>h. case load_policy h path of Inl err \<Rightarrow> None | Inr p \<Rightarrow> Some p) hs) of [] \<Rightarrow> p0 | p # ps \<Rightarrow> Some p)"

text \<open>
  C17: A reload never weakens the policy.  After any number of reload signals the engine runs the last
  policy file that loaded without an error, or the policy it started with when none did; the counters
  of the rate limiter survive; without a policy file the signals change nothing.
\<close>

theorem reload_keeps_last_good:
  "eng_policy (fold (sighup path) hs e) =
     (if path = '''' then eng_policy e else last_loaded (eng_policy e) path hs) \<and>
   eng_limiter (fold (sighup path) hs e) = eng_limiter e"
proof (induction hs rule: rev_induct)
  case (snoc h hs)
  then show ?case
    by (auto simp: sighup_def last_loaded_def Swap_def map_filter_def split: sum.splits list.splits)
qed (simp add: last_loaded_def map_filter_def)

section \<open>Warming up\<close>

definition succeeds :: "'c Entry list \<Rightarrow> 'e attempt \<Rightarrow> bool" where
  "succeeds es a \<longleftrightarrow> first_failure (at_ask a) 0 es = None"

definition cold :: "'c realManager \<Rightarrow> bool" where
  "cold m \<longleftrightarrow> \<not> Ready m \<and> rm_loading m = None"

text \<open>One attempt of a cold manager.\<close>

lemma Warmup_cold:
  assumes "cold m"
  shows "(succeeds (rm_entries m) a \<longrightarrow> (\<exists>m1. Warmup (at_ask a) (at_now a) (at_channel a) m = (None, m1) \<and> Ready m1)) \<and>
    (\<not> succeeds (rm_entries m) a \<longrightarrow> (\<exists>err m1. Warmup (at_ask a) (at_now a) (at_channel a) m = (Some err, m1) \<and>
      cold m1 \<and> rm_entries m1 = rm_entries m))"
  using assms
  by (auto simp: cold_def succeeds_def Warmup_def warmup_enter_def Ready_def doRefresh_eq Let_def warmup_reset_def
      split: option.splits prod.splits)

lemma loop_unfold:
  assumes "cold m"
  shows "runWarmupUntilReady att k m =
    (case Warmup (at_ask (att k)) (at_now (att k)) (at_channel (att k)) m of
        (None, m1) \<Rightarrow> Some (Suc k, m1)
      | (Some err, m1) \<Rightarrow> if at_stopped (att k) then Some (Suc k, m1) else runWarmupUntilReady att (Suc k) m1)"
  using assms by (simp add: runWarmupUntilReady.simps [of att k m] cold_def)

text \<open>The loop ends at the first attempt that succeeds or is stopped.\<close>

lemma loop_ends:
  "cold m \<Longrightarrow> k \<le> n \<Longrightarrow> succeeds (rm_entries m) (att n) \<or> at_stopped (att n) \<Longrightarrow>
   \<forall>j. k \<le> j \<longrightarrow> j < n \<longrightarrow> \<not> succeeds (rm_entries m) (att j) \<and> \<not> at_stopped (att j) \<Longrightarrow>
   \<exists>m'. runWarmupUntilReady att k m = Some (Suc n, m') \<and> Ready m' = succeeds (rm_entries m) (att n)"
proof (induction "n - k" arbitrary: k m)
  case 0
  then have "k = n" by simp
  show ?case
  proof (cases "succeeds (rm_entries m) (att n)")
    case True
    then show ?thesis using Warmup_cold [OF 0(2), of "att n"] by (auto simp: loop_unfold [OF 0(2)] \<open>k = n\<close>)
  next
    case False
    then show ?thesis
      using Warmup_cold [OF 0(2), of "att n"] 0(4) by (auto simp: loop_unfold [OF 0(2)] \<open>k = n\<close> cold_def)
  qed
next
  case (Suc d)
  then have "k < n" by simp
  then have k: "\<not> succeeds (rm_entries m) (att k)" "\<not> at_stopped (att k)" using Suc.prems(4) by auto
  then obtain err m1 where m1: "Warmup (at_ask (att k)) (at_now (att k)) (at_channel (att k)) m = (Some err, m1)"
    "cold m1" "rm_entries m1 = rm_entries m" using Warmup_cold [OF Suc.prems(1), of "att k"] by auto
  have "\<exists>m'. runWarmupUntilReady att (Suc k) m1 = Some (Suc n, m') \<and> Ready m' = succeeds (rm_entries m1) (att n)"
    using Suc.hyps(2) Suc.prems(3,4) \<open>k < n\<close> by (intro Suc.hyps(1)) (auto simp: m1)
  then show ?case using k(2) by (simp add: loop_unfold [OF Suc.prems(1)] m1)
qed

lemma loop_needs_end:
  assumes "runWarmupUntilReady att k m = Some y" and "cold m"
  shows "\<exists>n. succeeds (rm_entries m) (att n) \<or> at_stopped (att n)"
proof -
  have "cold m \<longrightarrow> (\<exists>n. succeeds (rm_entries m) (att n) \<or> at_stopped (att n))"
    using assms(1)
  proof (rule runWarmupUntilReady.raw_induct [rotated])
    fix rec :: "(nat \<Rightarrow> 'b attempt) \<Rightarrow> nat \<Rightarrow> 'a realManager \<Rightarrow> (nat \<times> 'a realManager) option" and att k m y
    assume IH: "\<And>att k m y. rec att k m = Some y \<Longrightarrow> cold m \<longrightarrow> (\<exists>n. succeeds (rm_entries m) (att n) \<or> at_stopped (att n))"
      and eq: "(if Ready m then Some (k, m)
        else case Warmup (at_ask (att k)) (at_now (att k)) (at_channel (att k)) m of
          (None, m1) \<Rightarrow> Some (Suc k, m1)
        | (Some err, m1) \<Rightarrow> if at_stopped (att k) then Some (Suc k, m1) else rec att (Suc k) m1) = Some y"
    show "cold m \<longrightarrow> (\<exists>n. succeeds (rm_entries m) (att n) \<or> at_stopped (att n))"
    proof
      assume c: "cold m"
      show "\<exists>n. succeeds (rm_entries m) (att n) \<or> at_stopped (att n)"
      proof (cases "succeeds (rm_entries m) (att k) \<or> at_stopped (att k)")
        case False
        then obtain err m1 where m1: "Warmup (at_ask (att k)) (at_now (att k)) (at_channel (att k)) m = (Some err, m1)"
          "cold m1" "rm_entries m1 = rm_entries m" using Warmup_cold [OF c, of "att k"] by auto
        have "rec att (Suc k) m1 = Some y" using eq c False by (simp add: m1 cold_def)
        from IH [OF this] m1(2,3) show ?thesis by auto
      qed blast
    qed
  qed
  then show ?thesis using assms(2) by blast
qed

text \<open>
  C35: The warm-up loop.  Starting from a manager without a listing, the loop ends with the first attempt
  in which all upstreams answer or after which the process is being stopped, and ends in no other way:
  it goes on for ever when there is no such attempt.  When it ends, the manager is ready exactly if
  that attempt succeeded.
\<close>

theorem warmup_loop:
  assumes "cold m"
  shows "case runWarmupUntilReady att 0 m of
      Some (n, m') \<Rightarrow> 0 < n \<and> n - 1 = (LEAST k. succeeds (rm_entries m) (att k) \<or> at_stopped (att k)) \<and>
        (succeeds (rm_entries m) (att (n - 1)) \<or> at_stopped (att (n - 1))) \<and>
        Ready m' = succeeds (rm_entries m) (att (n - 1))
    | None \<Rightarrow> \<nexists>k. succeeds (rm_entries m) (att k) \<or> at_stopped (att k)"
proof (cases "\<exists>k. succeeds (rm_entries m) (att k) \<or> at_stopped (att k)")
  case True
  define n where "n = (LEAST k. succeeds (rm_entries m) (att k) \<or> at_stopped (att k))"
  have n: "succeeds (rm_entries m) (att n) \<or> at_stopped (att n)"
    unfolding n_def by (rule LeastI_ex [OF True])
  moreover have "\<forall>j. 0 \<le> j \<longrightarrow> j < n \<longrightarrow> \<not> succeeds (rm_entries m) (att j) \<and> \<not> at_stopped (att j)"
    unfolding n_def using not_less_Least by blast
  ultimately have "\<exists>m'. runWarmupUntilReady att 0 m = Some (Suc n, m') \<and> Ready m' = succeeds (rm_entries m) (att n)"
    using assms by (intro loop_ends) simp_all
  then show ?thesis using n by (auto simp: n_def)
next
  case False
  then have "runWarmupUntilReady att 0 m = None"
    using loop_needs_end [of att 0 m] assms by (cases "runWarmupUntilReady att 0 m") auto
  then show ?thesis using False by simp
qed

definition demo_attempts :: "nat \<Rightarrow> unit attempt" where
  "demo_attempts k = \<lparr>at_ask = (\<lambda>i. if k < 2 then Inl () else Inr []), at_now = int k, at_channel = k, at_stopped = False\<rparr>"

theorem warmup_loop_witness:
  "\<exists>n m'. runWarmupUntilReady demo_attempts 0 (sample_manager ''a'' ''b'') = Some (n, m') \<and> Ready m'"
proof -
  let ?m = "sample_manager ''a'' ''b''"
  have c: "cold ?m" by (simp add: cold_def sample_manager_def Ready_def)
  have s: "succeeds (rm_entries ?m) (demo_attempts 2)" by (simp add: succeeds_def demo_attempts_def sample_manager_def)
  have ns: "\<not> at_stopped (demo_attempts k)" for k by (simp add: demo_attempts_def)
  note w = warmup_loop [OF c, of demo_attempts]
  show ?thesis
  proof (cases "runWarmupUntilReady demo_attempts 0 ?m")
    case None
    then show ?thesis using w s by auto
  next
    case (Some x)
    obtain n m' where x: "x = (n, m')" by (cases x)
    show ?thesis using w ns unfolding Some x by auto
  qed
qed

end
