(* ===== verification/MainCli.thy ===== *)
theory MainCli
  imports MainCmd
begin

text \<open>
  The command line of \<open>cmd/mcpshield/main.go\<close>: the tree of commands with their flags and what each of them
  runs, and \<open>main\<close> with its exit status.  The package \<open>cobra\<close>, which finds the command and the values of
  its flags in the arguments, is a parameter.
\<close>

section \<open>Commands\<close>

record flag =
  fl_Name :: string
  fl_Default :: string
  fl_Required :: bool

text \<open>A \<open>cobra.Command\<close>: its name, its flags, what \<open>RunE\<close> does with their values, and its sub-commands.\<close>

datatype 'r command = Command
  (cmd_Use: string) (cmd_Flags: "flag list") (cmd_RunE: "((string \<Rightarrow> string) \<Rightarrow> 'r) option") (cmd_Sub: "'r command list")

definition StringVar :: "string \<Rightarrow> string \<Rightarrow> flag" where
  "StringVar name def = \<lparr>fl_Name = name, fl_Default = def, fl_Required = False\<rparr>"

definition MarkFlagRequired :: "flag \<Rightarrow> flag" where
  "MarkFlagRequired f = f\<lparr>fl_Required := True\<rparr>"

text \<open>
  What the commands read and write: the host, the client's \<open>ToolsList\<close>, the clock, \<open>time.Parse\<close>,
  \<open>strconv.Quote\<close>, the decoder's numbers, the standard output, the help text \<open>cobra\<close> makes for a command,
  and how the server that \<open>runServe\<close> has built comes to its end, if it does (\<open>ServerLife\<close> describes the ends).
\<close>

record 're shell =
  sh_host :: "'re host"
  sh_ask :: "MCPHTTPClient \<Rightarrow> transport_error + Tool list"
  sh_now :: "nat \<Rightarrow> instant"
  sh_parse_time :: "string \<Rightarrow> string + instant"
  sh_quote :: "string \<Rightarrow> string"
  sh_num :: num_fn
  sh_write :: "(string, unit) writer"
  sh_help :: "string \<Rightarrow> string"
  sh_serve :: "'re server \<Rightarrow> serve_end option"

datatype cli_error = ServeFailed serve_error | ServerEnded serve_end | CommandFailed command_error

text \<open>A command returns, with what it has printed, or it has become the server.\<close>

datatype 're outcome = Returned "cli_error option" string | Started "'re server"

text \<open>\<open>fmt.Println\<close> and \<open>fmt.Printf\<close> of a confirmation; their errors are ignored.\<close>

definition confirm :: "'re shell \<Rightarrow> ('a \<Rightarrow> string) \<Rightarrow> command_error + 'a \<Rightarrow> 're outcome" where
  "confirm sh line r =
     (case r of
        Inl err \<Rightarrow> Returned (Some (CommandFailed err)) ''''
      | Inr x \<Rightarrow> Returned None (snd (sh_write sh '''' (line x))))"

definition printed :: "command_error option \<times> string \<Rightarrow> 're outcome" where
  "printed r = (case r of (err, out) \<Rightarrow> Returned (map_option CommandFailed err) out)"

definition serveCmd :: "'re shell \<Rightarrow> 're outcome command" where
  "serveCmd sh = Command ''serve''
     [StringVar ''config'' ''config.yaml'']
     (Some (\<lambda>v. case runServe (sh_host sh) (v ''config'') of
        Inl err \<Rightarrow> Returned (Some (ServeFailed err)) ''''
      | Inr server \<Rightarrow> Started server)) []"

definition validateUpstreamCmd :: "'re shell \<Rightarrow> 're outcome command" where
  "validateUpstreamCmd sh = Command ''validate-upstream''
     [StringVar ''config'' ''config.yaml'', MarkFlagRequired (StringVar ''upstream'' '''')]
     (Some (\<lambda>v. confirm sh
        (\<lambda>n. ''upstream '' @ sh_quote sh (v ''upstream'') @ '' OK: '' @ show_nat n @ '' tool(s)\<newline>'')
        (runValidateUpstream (sh_host sh) (sh_ask sh) (sh_now sh 0) (sh_now sh 1) (v ''config'') (v ''upstream'')))) []"

definition validatePolicyCmd :: "'re shell \<Rightarrow> 're outcome command" where
  "validatePolicyCmd sh = Command ''validate-policy''
     [MarkFlagRequired (StringVar ''file'' '''')]
     (Some (\<lambda>v. confirm sh (\<lambda>_. ''policy OK\<newline>'') (runValidatePolicy (sh_host sh) (v ''file'')))) []"

definition auditVerifyCmd :: "'re shell \<Rightarrow> 're outcome command" where
  "auditVerifyCmd sh = Command ''verify''
     [MarkFlagRequired (StringVar ''db'' '''')]
     (Some (\<lambda>v. confirm sh (\<lambda>_. ''chain OK\<newline>'') (runAuditVerify (sh_host sh) (v ''db'')))) []"

definition auditExportCmd :: "'re shell \<Rightarrow> 're outcome command" where
  "auditExportCmd sh = Command ''export''
     [MarkFlagRequired (StringVar ''db'' ''''), StringVar ''since'' '''', StringVar ''format'' ''jsonl'']
     (Some (\<lambda>v. printed (runAuditExport (sh_host sh) (sh_parse_time sh) (sh_write sh) '''' (v ''db'') (v ''since'')))) []"

definition auditCmd :: "'re shell \<Rightarrow> 're outcome command" where
  "auditCmd sh = Command ''audit'' [] None [auditVerifyCmd sh, auditExportCmd sh]"

definition replayCmd :: "'re shell \<Rightarrow> 're outcome command" where
  "replayCmd sh = Command ''replay''
     [MarkFlagRequired (StringVar ''db'' ''''), MarkFlagRequired (StringVar ''session'' ''''),
      StringVar ''mode'' ''read-only'', StringVar ''policy'' '''']
     (Some (\<lambda>v. printed (runReplayTo (sh_host sh) (sh_num sh) (sh_now sh) (sh_write sh) ''''
        (v ''db'') (v ''session'') (v ''mode'') (v ''policy'')))) []"

definition rootCmd :: "'re shell \<Rightarrow> 're outcome command" where
  "rootCmd sh = Command ''mcpshield'' [] None
     [serveCmd sh, validateUpstreamCmd sh, validatePolicyCmd sh, auditCmd sh, replayCmd sh]"

section \<open>main\<close>

text \<open>
  What \<open>cobra\<close> makes of the arguments: a usage error; a text it prints itself, as for \<open>--help\<close>; or the command
  and the values of its flags.
\<close>

datatype ('u, 'r) cobra_result = UsageError 'u | CobraText string | RunCommand "'r command" "string \<Rightarrow> string"

type_synonym ('u, 'r) cobra = "'r command \<Rightarrow> string list \<Rightarrow> ('u, 'r) cobra_result"

text \<open>
  A process that exits, with its status, its standard output (log lines left out) and the error on its
  standard error; or one that serves for ever.
\<close>

datatype ('u, 're) process_end =
    Exit (exit_status: int) (exit_stdout: string) (exit_stderr: "('u + cli_error) option")
  | Running "'re server"

text \<open>A command without \<open>RunE\<close> prints its help, and \<open>Execute\<close> returns nil.\<close>

definition main_process :: "('u, 're outcome) cobra \<Rightarrow> 're shell \<Rightarrow> string list \<Rightarrow> ('u, 're) process_end" where
  "main_process cobra sh args =
     (case cobra (rootCmd sh) args of
        UsageError err \<Rightarrow> Exit 1 '''' (Some (Inl err))
      | CobraText out \<Rightarrow> Exit 0 out None
      | RunCommand c v \<Rightarrow>
        (case cmd_RunE c of
           None \<Rightarrow> Exit 0 (sh_help sh (cmd_Use c)) None
         | Some run \<Rightarrow>
           (case run v of
              Returned (Some err) out \<Rightarrow> Exit 1 out (Some (Inr err))
            | Returned None out \<Rightarrow> Exit 0 out None
            | Started server \<Rightarrow>
              (case sh_serve sh server of
                 None \<Rightarrow> Running server
               | Some (Stopped None) \<Rightarrow> Exit 0 '''' None
               | Some err \<Rightarrow> Exit 1 '''' (Some (Inr (ServerEnded err)))))))"

section \<open>What the package promises\<close>

text \<open>The commands of a tree.\<close>

fun commands :: "'r command \<Rightarrow> 'r command list" where
  "commands (Command u fs run subs) = Command u fs run subs # concat (map commands subs)"

text \<open>
  A command it finds is one of the tree; a flag that the arguments do not set has its default, and one
  that is required is set.
\<close>

definition is_set :: "string list \<Rightarrow> string \<Rightarrow> bool" where
  "is_set args n \<longleftrightarrow> (\<exists>a \<in> set args. a = ''--'' @ n \<or> (\<exists>s. a = ''--'' @ n @ ''='' @ s))"

definition cobra_contract :: "('u, 'r) cobra \<Rightarrow> bool" where
  "cobra_contract cobra \<longleftrightarrow> (\<forall>root args c v. cobra root args = RunCommand c v \<longrightarrow>
     c \<in> set (commands root) \<and>
     (\<forall>f \<in> set (cmd_Flags c). (\<not> is_set args (fl_Name f) \<longrightarrow> \<not> fl_Required f \<and> v (fl_Name f) = fl_Default f)))"

text \<open>A write to the standard output that reports no error has written the text.\<close>

definition writes_through :: "(string, unit) writer \<Rightarrow> bool" where
  "writes_through wr \<longleftrightarrow> (\<forall>w s w'. wr w s = (None, w') \<longrightarrow> w' = w @ s)"

lemma commands_rootCmd:
  "set (commands (rootCmd sh)) =
    {rootCmd sh, serveCmd sh, validateUpstreamCmd sh, validatePolicyCmd sh, auditCmd sh, auditVerifyCmd sh,
     auditExportCmd sh, replayCmd sh}"
  by (auto simp: rootCmd_def serveCmd_def validateUpstreamCmd_def validatePolicyCmd_def auditCmd_def auditVerifyCmd_def
      auditExportCmd_def replayCmd_def)

section \<open>Properties\<close>

lemma scan_writes:
  assumes "writes_through wr" and "scanRows (\<lambda>w e. wr w (line e)) w es = (None, w')"
  shows "w' = w @ concat (map line es)"
  using assms(2)
proof (induction es arbitrary: w)
  case (Cons e es)
  then obtain w1 where "wr w (line e) = (None, w1)" "scanRows (\<lambda>w e. wr w (line e)) w1 es = (None, w')"
    by (auto split: prod.splits option.splits)
  then show ?case using Cons.IH assms(1) by (force simp: writes_through_def)
qed simp

lemma scan_result_None: "scan_result r = (None, w') \<longleftrightarrow> r = (None, w')"
  by (auto simp: scan_result_def split: prod.splits)

lemma export_writes:
  assumes "writes_through wr" and "ExportJSONL f t0 wr w s = (None, w')"
  shows "w' = w @ concat (map export_line
    (filter (\<lambda>e. (case t0 of None \<Rightarrow> 0 | Some t \<Rightarrow> int64 t) \<le> se_TsUnixNano e) (ordered (ss_rows s))))"
proof -
  have "scanRows (\<lambda>w e. wr w (export_line e)) w
      (filter (\<lambda>e. (case t0 of None \<Rightarrow> 0 | Some t \<Rightarrow> int64 t) \<le> se_TsUnixNano e) (ordered (ss_rows s))) = (None, w')"
    using assms(2) by (auto simp: ExportJSONL_def Scan_def Let_def split: option.splits prod.splits)
  from scan_writes [OF assms(1) this] show ?thesis .
qed

lemma replay_writes:
  assumes "writes_through wr" and "ReplayReadOnly f sid wr w s = (None, w')"
  shows "w' = w @ concat (map replay_line (session_rows sid s))"
proof -
  have "scanRows (\<lambda>w e. wr w (replay_line e)) w (session_rows sid s) = (None, w')"
    using assms(2) by (auto simp: ReplayReadOnly_def ScanSession_def Let_def session_rows_def split: option.splits prod.splits)
  from scan_writes [OF assms(1) this] show ?thesis .
qed

text \<open>The decisions of a policy check, in the order of the calls; the limits of the policy count along.\<close>

fun decisions ::
  "'re regexp_pkg \<Rightarrow> num_fn \<Rightarrow> (nat \<Rightarrow> instant) \<Rightarrow> nat \<Rightarrow> ('re, fixedWindowLimiter) YAMLPolicyEngine \<Rightarrow> StoredEvent list
   \<Rightarrow> (StoredEvent \<times> Decision) list" where
  "decisions re num now k eng [] = []"
| "decisions re num now k eng (e # es) =
     (case Evaluate re Allow eng (se_ClientID e) (now k) (row_call num e) of
        (d, eng1) \<Rightarrow> (e, d) # decisions re num now (Suc k) eng1 es)"

lemma check_writes:
  assumes "writes_through wr"
    and "scanRows (check_event num (Evaluate re Allow) now wr) (eng, k, w) es = (None, eng', k', w')"
  shows "w' = w @ concat (map (\<lambda>(e, d). check_line e d)
    (decisions re num now k eng (filter (\<lambda>e. se_Method e = ''tools/call'') es)))"
  using assms(2)
proof (induction es arbitrary: eng k w)
  case (Cons e es)
  show ?case
  proof (cases "se_Method e = ''tools/call''")
    case True
    obtain d eng1 where d: "Evaluate re Allow eng (se_ClientID e) (now k) (row_call num e) = (d, eng1)" by fastforce
    then have "check_event num (Evaluate re Allow) now wr (eng, k, w) e =
        (case wr w (check_line e d) of (err, w1) \<Rightarrow> (err, eng1, Suc k, w1))"
      using True by (simp add: check_event_def row_call_def Let_def)
    then obtain w1 where w: "wr w (check_line e d) = (None, w1)"
      "scanRows (check_event num (Evaluate re Allow) now wr) (eng1, Suc k, w1) es = (None, eng', k', w')"
      using Cons.prems by (auto split: prod.splits option.splits)
    have "w1 = w @ check_line e d" using assms(1) w(1) by (auto simp: writes_through_def)
    then show ?thesis using Cons.IH [OF w(2)] True by (simp add: d)
  next
    case False
    then show ?thesis using Cons by (simp add: check_event_def)
  qed
qed simp

lemma ReplayPolicyCheck_writes:
  assumes "writes_through wr" and "ReplayPolicyCheck f num (Evaluate re Allow) now sid eng wr w s = (None, w')"
  shows "w' = w @ concat (map (\<lambda>(e, d). check_line e d)
    (decisions re num now 0 eng (filter (\<lambda>e. se_Method e = ''tools/call'') (session_rows sid s))))"
proof -
  obtain eng' k' where
    "scanRows (check_event num (Evaluate re Allow) now wr) (eng, 0, w) (session_rows sid s) = (None, eng', k', w')"
    using assms(2) by (auto simp: ReplayPolicyCheck_def ScanSession_def session_rows_def Let_def split: option.splits prod.splits)
  from check_writes [OF assms(1) this] show ?thesis .
qed

lemma Warmup_single:
  fixes ask :: "'c \<Rightarrow> 'e + Tool list"
  assumes "NewManager [e] cfg = Inr m" and "Warmup (\<lambda>k. ask (en_Client e)) now ch m = (None, m1)"
  shows "\<exists>ts. ask (en_Client e) = Inr ts \<and> fst (ToolsList now' m1) = (Inr (map (published e) ts) :: 'e manager_error + Tool list)"
  using assms
  by (auto simp: NewManager_def Warmup_def warmup_enter_def doRefresh_eq ToolsList_def getCache_eq listing_def
      warmup_reset_def Let_def comp_def split: option.splits prod.splits sum.splits if_splits)

lemma runValidateUpstream_Inr:
  assumes "runValidateUpstream h ask now now' cfgPath i = Inr n"
  shows "\<exists>cfg rt u r client tools. Load (h_readFile h) (h_env h) (h_config_yaml h) cfgPath = Inr cfg \<and>
    buildRuntime (h_pd h) cfg = Inr rt \<and> find_upstream i (cfg_Upstreams cfg) (rt_Upstreams rt) = Some (u, r) \<and>
    NewMCPHTTPClient (uc_ID u) (uc_URL u) (uc_Headers u)
      \<lparr>hc_RequestTimeout = ur_RequestTimeout r, hc_MaxResponseBytes = ur_MaxResponseBytes r\<rparr> = Inr client \<and>
    ask client = Inr tools \<and> n = length tools"
proof -
  obtain cfg rt where c: "Load (h_readFile h) (h_env h) (h_config_yaml h) cfgPath = Inr cfg" "buildRuntime (h_pd h) cfg = Inr rt"
    using assms by (auto simp: runValidateUpstream_def and_then_Inr relabel_Inr)
  obtain u r where u: "find_upstream i (cfg_Upstreams cfg) (rt_Upstreams rt) = Some (u, r)"
    using assms by (auto simp: runValidateUpstream_def and_then_Inr relabel_Inr c split: option.splits)
  obtain client m where m: "NewMCPHTTPClient (uc_ID u) (uc_URL u) (uc_Headers u)
      \<lparr>hc_RequestTimeout = ur_RequestTimeout r, hc_MaxResponseBytes = ur_MaxResponseBytes r\<rparr> = Inr client"
    "NewManager [\<lparr>en_ID = uc_ID u, en_Prefix = uc_Prefix u, en_Client = client\<rparr>]
      \<lparr>mc_ToolsCacheTTL = ur_ToolsCacheTTL r, mc_RefreshTimeout = ur_RefreshTimeout r\<rparr> = Inr m"
    "(case Warmup (\<lambda>k. ask client) now 0 m of (Some err, m1) \<Rightarrow> Inl (WarmupFailed err)
      | (None, m1) \<Rightarrow> (case fst (ToolsList now' m1) of Inl err \<Rightarrow> Inl (ListFailed err) | Inr tools \<Rightarrow> Inr (length tools))) = Inr n"
    using assms by (auto simp: runValidateUpstream_def and_then_Inr relabel_Inr c u)
  obtain m1 ts where "Warmup (\<lambda>k. ask client) now 0 m = (None, m1)"
    "fst (ToolsList now' m1) = (Inr ts :: transport_error manager_error + Tool list)" "n = length ts"
    using m(3) by (cases "Warmup (\<lambda>k. ask client) now 0 m") (auto split: option.splits sum.splits)
  with Warmup_single [OF m(2), of ask now 0 m1 now'] obtain tools where "ask client = Inr tools" "n = length tools"
    by auto
  then show ?thesis using c u m(1) by blast
qed

lemma verified_chain:
  assumes "VerifyChain f s = None"
  shows "chain_ok '''' (filter (\<lambda>e. 0 \<le> se_TsUnixNano e) (ordered (ss_rows s)))"
  using assms by (auto simp: VerifyChain_def Scan_def case_prod_unfold Let_def scanRows_verify split: option.splits)

text \<open>
  What a command that returned no error has established, and what it has printed.  A confirmation is
  printed by \<open>fmt\<close>, whose error is ignored; the lines of an export or a replay are all written.
\<close>

definition vouched :: "'re shell \<Rightarrow> (string \<Rightarrow> string) \<Rightarrow> string \<Rightarrow> string \<Rightarrow> bool" where
  "vouched sh v use out \<longleftrightarrow>
     (if use = ''validate-upstream'' then
        \<exists>cfg rt u r client tools.
          Load (h_readFile (sh_host sh)) (h_env (sh_host sh)) (h_config_yaml (sh_host sh)) (v ''config'') = Inr cfg \<and>
          buildRuntime (h_pd (sh_host sh)) cfg = Inr rt \<and>
          find_upstream (v ''upstream'') (cfg_Upstreams cfg) (rt_Upstreams rt) = Some (u, r) \<and>
          NewMCPHTTPClient (uc_ID u) (uc_URL u) (uc_Headers u)
            \<lparr>hc_RequestTimeout = ur_RequestTimeout r, hc_MaxResponseBytes = ur_MaxResponseBytes r\<rparr> = Inr client \<and>
          sh_ask sh client = Inr tools \<and>
          out = snd (sh_write sh '''' (''upstream '' @ sh_quote sh (v ''upstream'') @ '' OK: '' @
            show_nat (length tools) @ '' tool(s)\<newline>''))
      else if use = ''validate-policy'' then
        (\<exists>p. LoadFromFile (h_readFile (sh_host sh)) (h_policy_yaml (sh_host sh)) (h_re (sh_host sh)) (h_pd (sh_host sh))
          (v ''file'') = Inr p) \<and> out = snd (sh_write sh '''' ''policy OK\<newline>'')
      else if use = ''verify'' then
        (\<exists>s. open_db (sh_host sh) (v ''db'') = Inr s \<and>
          chain_ok '''' (filter (\<lambda>e. 0 \<le> se_TsUnixNano e) (ordered (ss_rows s)))) \<and>
        out = snd (sh_write sh '''' ''chain OK\<newline>'')
      else if use = ''export'' then
        \<exists>s t. open_db (sh_host sh) (v ''db'') = Inr s \<and>
          (v ''since'' = '''' \<and> t = zero_time \<or> v ''since'' \<noteq> '''' \<and> sh_parse_time sh (v ''since'') = Inr t) \<and>
          out = concat (map export_line
            (filter (\<lambda>e. (if t = zero_time then 0 else int64 t) \<le> se_TsUnixNano e) (ordered (ss_rows s))))
      else use = ''replay'' \<and>
        (\<exists>s. open_db (sh_host sh) (v ''db'') = Inr s \<and>
          (v ''mode'' = ''read-only'' \<and> out = concat (map (\<lambda>e.
               rfc3339_nano (se_TsUnixNano e) @ [CHR 0x09] @ se_Method e @ [CHR 0x09] @ se_SessionID e @ [CHR 0x09] @
               se_ClientID e @ [CHR 0x09] @ se_ToolName e @ [CHR 0x09] @ se_Decision e @ [CHR 0x09] @
               se_UpstreamID e @ [CHR 0x09] @ show_int (se_DurationUs e) @ [CHR 0xC2, CHR 0xB5] @ ''s'' @ [CHR 0x09] @
               (if se_ErrorJSON e = '''' then ''ok'' else ''error'') @ ''\<newline>'') (session_rows (v ''session'') s)) \<or>
           v ''mode'' = ''policy-check'' \<and> v ''policy'' \<noteq> '''' \<and>
           (\<exists>p. load_policy (sh_host sh) (v ''policy'') = Inr p \<and>
             out = concat (map (\<lambda>(e, d).
                 rfc3339_nano (se_TsUnixNano e) @ [CHR 0x09] @
                 (if dec_Action d = se_Decision e then ''='' else ''CHANGED'') @ [CHR 0x09] @ se_ToolName e @ [CHR 0x09] @
                 ''old='' @ se_Decision e @ '' new='' @ dec_Action d @ '' rule='' @ dec_Rule d @
                 '' ['' @ dec_Reason d @ '']\<newline>'')
               (decisions (h_re (sh_host sh)) (sh_num sh) (sh_now sh) 0 (NewYAMLPolicyEngine (Some p))
                 (filter (\<lambda>e. se_Method e = ''tools/call'') (session_rows (v ''session'') s))))))))"

lemma replay_line_text:
  "replay_line = (\<lambda>e. rfc3339_nano (se_TsUnixNano e) @ [CHR 0x09] @ se_Method e @ [CHR 0x09] @ se_SessionID e @ [CHR 0x09] @
     se_ClientID e @ [CHR 0x09] @ se_ToolName e @ [CHR 0x09] @ se_Decision e @ [CHR 0x09] @
     se_UpstreamID e @ [CHR 0x09] @ show_int (se_DurationUs e) @ [CHR 0xC2, CHR 0xB5] @ ''s'' @ [CHR 0x09] @
     (if se_ErrorJSON e = '''' then ''ok'' else ''error'') @ ''\<newline>'')"
  by (simp add: fun_eq_iff replay_line_def tab_def)

lemma confirm_None: "confirm sh line r = Returned None out \<longleftrightarrow> (\<exists>x. r = Inr x \<and> out = snd (sh_write sh '''' (line x)))"
  by (auto simp: confirm_def split: sum.splits)

lemma printed_None: "printed r = Returned None out \<longleftrightarrow> r = (None, out)"
  by (auto simp: printed_def split: prod.splits)

lemma export_vouched:
  assumes "writes_through (sh_write sh)"
    and "runAuditExport (sh_host sh) (sh_parse_time sh) (sh_write sh) '''' (v ''db'') (v ''since'') = (None, out)"
  shows "vouched sh v ''export'' out"
proof -
  obtain s where s: "open_db (sh_host sh) (v ''db'') = Inr s"
    using assms(2) by (auto simp: runAuditExport_def split: sum.splits)
  obtain t where t: "v ''since'' = '''' \<and> t = zero_time \<or> v ''since'' \<noteq> '''' \<and> sh_parse_time sh (v ''since'') = Inr t"
    "ExportJSONL (h_query (sh_host sh)) (time_arg t) (sh_write sh) '''' s = (None, out)"
    using assms(2) by (auto simp: runAuditExport_def s scan_result_None time_arg_def split: sum.splits if_splits)
  show ?thesis using export_writes [OF assms(1) t(2)] s t(1) by (auto simp: vouched_def time_arg_def)
qed

lemma replay_vouched:
  assumes "writes_through (sh_write sh)"
    and "runReplayTo (sh_host sh) (sh_num sh) (sh_now sh) (sh_write sh) '''' (v ''db'') (v ''session'') (v ''mode'') (v ''policy'') =
      (None, out)"
  shows "vouched sh v ''replay'' out"
proof -
  obtain s where s: "open_db (sh_host sh) (v ''db'') = Inr s"
    using assms(2) by (auto simp: runReplayTo_def split: sum.splits)
  consider "v ''mode'' = ''read-only''" "ReplayReadOnly (h_query (sh_host sh)) (v ''session'') (sh_write sh) '''' s = (None, out)"
    | p where "v ''mode'' = ''policy-check''" "v ''policy'' \<noteq> ''''" "load_policy (sh_host sh) (v ''policy'') = Inr p"
      "ReplayPolicyCheck (h_query (sh_host sh)) (sh_num sh) (Evaluate (h_re (sh_host sh)) Allow) (sh_now sh) (v ''session'')
         (NewYAMLPolicyEngine (Some p)) (sh_write sh) '''' s = (None, out)"
    using assms(2) by (auto simp: runReplayTo_def s scan_result_None split: sum.splits if_splits)
  then show ?thesis
  proof cases
    case 1
    from replay_writes [OF assms(1) 1(2)] 1(1) s show ?thesis
      unfolding vouched_def replay_line_text by simp
  next
    case 2
    from ReplayPolicyCheck_writes [OF assms(1) 2(4)] 2(1-3) s show ?thesis
      unfolding vouched_def check_line_text by simp
  qed
qed

lemma runs_vouched:
  assumes "writes_through (sh_write sh)" and "c \<in> set (commands (rootCmd sh))"
    and "cmd_RunE c = Some run" and "run v = Returned None out"
  shows "vouched sh v (cmd_Use c) out"
proof -
  consider "c = serveCmd sh" | "c = validateUpstreamCmd sh" | "c = validatePolicyCmd sh" | "c = auditVerifyCmd sh"
    | "c = auditExportCmd sh" | "c = replayCmd sh"
    using assms(2,3) unfolding commands_rootCmd by (auto simp: rootCmd_def auditCmd_def)
  then show ?thesis
  proof cases
    case 1
    then show ?thesis using assms(3,4) by (auto simp: serveCmd_def split: sum.splits)
  next
    case 2
    then obtain n where "runValidateUpstream (sh_host sh) (sh_ask sh) (sh_now sh 0) (sh_now sh 1) (v ''config'') (v ''upstream'') = Inr n"
      "out = snd (sh_write sh '''' (''upstream '' @ sh_quote sh (v ''upstream'') @ '' OK: '' @ show_nat n @ '' tool(s)\<newline>''))"
      using assms(3,4) by (auto simp: validateUpstreamCmd_def confirm_None)
    with runValidateUpstream_Inr [OF this(1)] 2 show ?thesis
      unfolding vouched_def by (simp add: validateUpstreamCmd_def) blast
  next
    case 3
    then show ?thesis
      using assms(3,4) by (auto simp: validatePolicyCmd_def vouched_def confirm_None runValidatePolicy_def load_policy_def split: sum.splits)
  next
    case 4
    then show ?thesis
      using assms(3,4) verified_chain
      by (auto simp: auditVerifyCmd_def vouched_def confirm_None runAuditVerify_def and_then_Inr split: option.splits)
  next
    case 5
    then show ?thesis
      using export_vouched [OF assms(1), of v out] assms(3,4) by (auto simp: auditExportCmd_def printed_None)
  next
    case 6
    then show ?thesis
      using replay_vouched [OF assms(1), of v out] assms(3,4) by (auto simp: replayCmd_def printed_None)
  qed
qed

lemma runs_server:
  assumes "c \<in> set (commands (rootCmd sh))" and "cmd_RunE c = Some run" and "run v = Started server"
  shows "cmd_Use c = ''serve'' \<and> runServe (sh_host sh) (v ''config'') = Inr server"
  using assms unfolding commands_rootCmd
  by (auto simp: rootCmd_def serveCmd_def validateUpstreamCmd_def validatePolicyCmd_def auditCmd_def auditVerifyCmd_def
      auditExportCmd_def replayCmd_def confirm_def printed_def split: sum.splits prod.splits)

text \<open>
  C38: What exit status 0 vouches for.  When a command line ends with status 0, nothing is on the standard
  error, and this is one of four cases.  The text is \<open>cobra\<close>'s own, as for \<open>--help\<close>; or it is the help of
  \<open>mcpshield\<close> or \<open>mcpshield audit\<close>; or the server was built from its configuration and \<open>Shutdown\<close> returned
  no error; or a command has done its work and the standard output is exactly this: the number of tools
  the client of the upstream of that id answered with; the confirmation that the policy file loads; the
  confirmation for a database whose rows from time 0 on are a hash chain; one line for every event from
  the given time on, in the order of the log; one line for every event of the session; or, against
  a policy file that loads, one line with the old and the new decision for every call of the session.
  In the last two cases every flag the command marks required was set.  So a write that fails, a flag with
  a bad value and an unknown mode end with status 1.
\<close>

theorem exit_status_vouches:
  assumes "cobra_contract cobra" and "writes_through (sh_write sh)" and "main_process cobra sh args = Exit 0 out err"
  shows "err = None \<and>
    (cobra (rootCmd sh) args = CobraText out \<or>
     (\<exists>c v. cobra (rootCmd sh) args = RunCommand c v \<and>
        (\<forall>f \<in> set (cmd_Flags c). fl_Required f \<longrightarrow> is_set args (fl_Name f)) \<and>
        (cmd_Use c \<in> {''mcpshield'', ''audit''} \<and> out = sh_help sh (cmd_Use c) \<or>
         cmd_Use c = ''serve'' \<and> out = '''' \<and>
           (\<exists>server. runServe (sh_host sh) (v ''config'') = Inr server \<and> sh_serve sh server = Some (Stopped None)) \<or>
         vouched sh v (cmd_Use c) out)))"
proof (cases "cobra (rootCmd sh) args")
  case (RunCommand c v)
  have c: "c \<in> set (commands (rootCmd sh))" "\<forall>f \<in> set (cmd_Flags c). fl_Required f \<longrightarrow> is_set args (fl_Name f)"
    using assms(1) RunCommand unfolding cobra_contract_def by blast+
  consider "cmd_RunE c = None" "out = sh_help sh (cmd_Use c)" "err = None"
    | run where "cmd_RunE c = Some run" "run v = Returned None out" "err = None"
    | run server where "cmd_RunE c = Some run" "run v = Started server" "sh_serve sh server = Some (Stopped None)"
        "out = ''''" "err = None"
    using assms(3) RunCommand
    by (auto simp: main_process_def split: option.splits outcome.splits serve_end.splits)
  then show ?thesis
  proof cases
    case 1
    have "cmd_Use c \<in> {''mcpshield'', ''audit''}"
      using c(1) 1(1) unfolding commands_rootCmd
      by (auto simp: rootCmd_def serveCmd_def validateUpstreamCmd_def validatePolicyCmd_def auditCmd_def auditVerifyCmd_def
          auditExportCmd_def replayCmd_def)
    then show ?thesis using 1(2,3) c(2) RunCommand by blast
  next
    case 2
    then show ?thesis using runs_vouched [OF assms(2) c(1) 2(1,2)] c(2) RunCommand by blast
  next
    case 3
    then show ?thesis using runs_server [OF c(1) 3(1,2)] c(2) RunCommand by blast
  qed
qed (use assms(3) in \<open>auto simp: main_process_def\<close>)

text \<open>An argument parser for one command with one flag, which keeps the contract, and a host with an empty log.\<close>

definition one_flag :: "(unit, 'r) cobra" where
  "one_flag root args =
     (case args of
        [name, dashed, x] \<Rightarrow>
          (case List.find (\<lambda>c. cmd_Use c = name) (commands root) of
             None \<Rightarrow> UsageError ()
           | Some c \<Rightarrow>
             if distinct (map fl_Name (cmd_Flags c)) \<and>
                list_all (\<lambda>f. fl_Required f \<longrightarrow> dashed = ''--'' @ fl_Name f) (cmd_Flags c)
             then RunCommand c (\<lambda>n. if dashed = ''--'' @ n then x
               else (case map_of (map (\<lambda>f. (fl_Name f, fl_Default f)) (cmd_Flags c)) n of Some d \<Rightarrow> d | None \<Rightarrow> ''''))
             else UsageError ())
      | _ \<Rightarrow> UsageError ())"

lemma one_flag_contract: "cobra_contract (one_flag :: (unit, 'r) cobra)"
  unfolding cobra_contract_def
proof (intro allI impI)
  fix root :: "'r command" and args c v
  assume a: "one_flag root args = RunCommand c v"
  then obtain name dashed x where args: "args = [name, dashed, x]"
    by (auto simp: one_flag_def split: list.splits)
  with a have f: "List.find (\<lambda>c. cmd_Use c = name) (commands root) = Some c"
    and d: "distinct (map fl_Name (cmd_Flags c))" "list_all (\<lambda>f. fl_Required f \<longrightarrow> dashed = ''--'' @ fl_Name f) (cmd_Flags c)"
    and v: "v = (\<lambda>n. if dashed = ''--'' @ n then x
      else (case map_of (map (\<lambda>f. (fl_Name f, fl_Default f)) (cmd_Flags c)) n of Some d \<Rightarrow> d | None \<Rightarrow> ''''))"
    by (auto simp: one_flag_def split: option.splits if_splits)
  have "map_of (map (\<lambda>f. (fl_Name f, fl_Default f)) (cmd_Flags c)) (fl_Name fl) = Some (fl_Default fl)"
    if "fl \<in> set (cmd_Flags c)" for fl
    using d(1) that by (intro map_of_is_SomeI) (auto simp: comp_def)
  moreover have "is_set args n" if "dashed = ''--'' @ n" for n using that by (auto simp: is_set_def args)
  ultimately show "c \<in> set (commands root) \<and>
      (\<forall>f \<in> set (cmd_Flags c). \<not> is_set args (fl_Name f) \<longrightarrow> \<not> fl_Required f \<and> v (fl_Name f) = fl_Default f)"
    using f d(2) by (auto simp: v list_all_iff find_Some_iff)
qed

definition demo_shell :: "string shell" where
  "demo_shell = \<lparr>sh_host = demo_host, sh_ask = (\<lambda>c. Inr []), sh_now = (\<lambda>k. 0), sh_parse_time = Inl, sh_quote = quote,
     sh_num = Some, sh_write = collect, sh_help = id, sh_serve = (\<lambda>sv. None)\<rparr>"

lemma demo_query: "h_query demo_host = None"
  by (simp add: demo_host_def)

lemma demo_open: "open_db demo_host ''a.db'' = Inr \<lparr>ss_path = ''a.db'', ss_rows = []\<rparr>"
  by (simp add: open_db_def open_store_def NewSQLiteStore_def relabel_def demo_host_def busy_statement_def exec_all_def)

lemma demo_verify: "main_process one_flag demo_shell [''verify'', ''--db'', ''a.db''] = Exit 0 ''chain OK\<newline>'' None"
proof -
  have f: "List.find (\<lambda>c. cmd_Use c = ''verify'') (commands (rootCmd demo_shell)) = Some (auditVerifyCmd demo_shell)"
    by (simp add: rootCmd_def serveCmd_def validateUpstreamCmd_def validatePolicyCmd_def auditCmd_def auditVerifyCmd_def)
  have "runAuditVerify demo_host ''a.db'' = Inr ()"
    by (simp add: runAuditVerify_def demo_open VerifyChain_def Scan_def AuditStore.ordered_def demo_query)
  then show ?thesis
    by (simp add: main_process_def one_flag_def f) (simp add: auditVerifyCmd_def MarkFlagRequired_def StringVar_def confirm_def
      demo_shell_def collect_def)
qed

theorem exit_status_vouches_witness:
  "\<exists>c v. one_flag (rootCmd demo_shell) [''verify'', ''--db'', ''a.db''] = RunCommand c v \<and>
     main_process one_flag demo_shell [''verify'', ''--db'', ''a.db''] = Exit 0 ''chain OK\<newline>'' None \<and>
     vouched demo_shell v ''verify'' ''chain OK\<newline>''"
proof -
  have w: "writes_through (sh_write demo_shell)" by (simp add: writes_through_def demo_shell_def collect_def)
  have "\<exists>c v. one_flag (rootCmd demo_shell) [''verify'', ''--db'', ''a.db''] = RunCommand c v \<and> cmd_Use c = ''verify''"
    by (simp add: one_flag_def rootCmd_def serveCmd_def validateUpstreamCmd_def validatePolicyCmd_def auditCmd_def
        auditVerifyCmd_def MarkFlagRequired_def StringVar_def)
  with exit_status_vouches [OF one_flag_contract w demo_verify] demo_verify show ?thesis by auto
qed

end
