(* ===== verification/ServerLife.thy ===== *)
theory ServerLife
  imports SystemConc MainCmd
begin

text \<open>
  The life of the server that \<open>runServe\<close> of \<open>cmd/mcpshield/main.go\<close> has built: it serves until a signal
  stops it or the listener fails, waits for the requests in progress, and closes the audit log.
\<close>

section \<open>The running server\<close>

type_synonym 're running = "('re, fixedWindowLimiter, MCPHTTPClient) world"

text \<open>The gateway of the server, on the components the server holds.\<close>

definition launch :: "'re server \<Rightarrow> sqliteStore SQLiteAuditLogger \<Rightarrow> 're running Gateway" where
  "launch sv l = \<lparr>gw_requestTimeout = gw_requestTimeout (sv_gateway sv), gw_maxRequestBytes = gw_maxRequestBytes (sv_gateway sv),
     gw_table = gw_table (sv_gateway sv),
     gw_state = \<lparr>w_engine = sv_engine sv, w_manager = sv_manager sv, w_logger = l, w_uses = 0\<rparr>, gw_trace = []\<rparr>"

text \<open>
  \<open>Serving\<close> is the \<open>select\<close>; \<open>ShuttingDown\<close> is the call of \<open>Shutdown\<close>, which lets no new connection in and
  returns when no request is in progress; \<open>Closing\<close> is the deferred \<open>auditLog.Close\<close>, which waits for the
  writer.
\<close>

datatype phase = Serving | ShuttingDown | Closing serve_end | Exited serve_end

definition close_log :: "'re running Gateway \<Rightarrow> 're running Gateway" where
  "close_log g = g\<lparr>gw_state := (gw_state g)\<lparr>w_logger := Close (w_logger (gw_state g))\<rparr>\<rparr>"

text \<open>The steps of the writer goroutine.\<close>

definition writing :: "logger_action \<Rightarrow> bool" where
  "writing a \<longleftrightarrow> (case a of DoReceive f \<Rightarrow> True | DoTick f \<Rightarrow> True | DoRetention f env \<Rightarrow> True | _ \<Rightarrow> False)"

text \<open>
  A connection that was open before the signal may still deliver a request during the shutdown.  A reload
  reads the policy file of the host as it is then.
\<close>

inductive lifetime ::
  "num_fn \<Rightarrow> 're running deps \<Rightarrow> string \<Rightarrow> 're running Gateway \<Rightarrow> phase \<Rightarrow> 're running Gateway \<Rightarrow> 're running request list \<Rightarrow> bool"
  for num deps policyFile g0 where
  start: "lifetime num deps policyFile g0 Serving g0 []"
| accept: "lifetime num deps policyFile g0 ph g qs \<Longrightarrow> ph \<in> {Serving, ShuttingDown} \<Longrightarrow> readings_ok rd \<Longrightarrow>
    lifetime num deps policyFile g0 ph g (qs @ [new_request num deps rd r])"
| action: "lifetime num deps policyFile g0 ph g qs \<Longrightarrow> (\<forall>x. ph \<noteq> Exited x) \<Longrightarrow> i < length qs \<Longrightarrow>
    rq_rest (qs ! i) = Atomic f \<Longrightarrow> f g = (t, g') \<Longrightarrow> unblocked (gw_state g) (gw_state g') \<Longrightarrow>
    lifetime num deps policyFile g0 ph g' (qs[i := moved t g g' (qs ! i)])"
| writer: "lifetime num deps policyFile g0 ph g qs \<Longrightarrow> (\<forall>x. ph \<noteq> Exited x) \<Longrightarrow> writing a \<Longrightarrow>
    logger_step sqlite_ops (w_logger (gw_state g)) a l \<Longrightarrow>
    lifetime num deps policyFile g0 ph (g\<lparr>gw_state := (gw_state g)\<lparr>w_logger := l\<rparr>\<rparr>) qs"
| refresh: "lifetime num deps policyFile g0 ph g qs \<Longrightarrow> (\<forall>x. ph \<noteq> Exited x) \<Longrightarrow>
    lifetime num deps policyFile g0 ph (g\<lparr>gw_state := (gw_state g)\<lparr>w_manager := m\<rparr>\<rparr>) qs"
| reload: "lifetime num deps policyFile g0 ph g qs \<Longrightarrow> (\<forall>x. ph \<noteq> Exited x) \<Longrightarrow>
    lifetime num deps policyFile g0 ph
      (g\<lparr>gw_state := (gw_state g)\<lparr>w_engine := sighup policyFile h (w_engine (gw_state g))\<rparr>\<rparr>) qs"
| terminate: "lifetime num deps policyFile g0 Serving g qs \<Longrightarrow> lifetime num deps policyFile g0 ShuttingDown g qs"
| shut: "lifetime num deps policyFile g0 ShuttingDown g qs \<Longrightarrow> list_all (\<lambda>q. answer q \<noteq> None) qs \<Longrightarrow>
    lifetime num deps policyFile g0 (Closing (Stopped err)) (close_log g) qs"
| listener: "lifetime num deps policyFile g0 Serving g qs \<Longrightarrow>
    lifetime num deps policyFile g0 (Closing (ListenerFailed e)) (close_log g) qs"
| exit: "lifetime num deps policyFile g0 (Closing x) g qs \<Longrightarrow> lg_done (w_logger (gw_state g)) \<Longrightarrow>
    lifetime num deps policyFile g0 (Exited x) g qs"

section \<open>A life is an interleaving\<close>

lemma writing_cases: "writing a \<Longrightarrow> \<not> logging a \<and> a \<noteq> DoClose"
  by (auto simp: writing_def logging_def split: logger_action.splits)

lemma Swap_sighup: "\<exists>p. sighup policyFile h e = Swap e p"
proof -
  have "Swap e None = e" by (simp add: Swap_def)
  then show ?thesis unfolding sighup_def by (metis (no_types, lifting) old.sum.exhaust old.sum.simps(5,6))
qed

lemma close_background:
  "\<not> lg_closed (w_logger w) \<Longrightarrow> background w (w\<lparr>w_logger := Close (w_logger w)\<rparr>)"
  unfolding Close_def by (rule background.writer [of DoClose]) (auto simp: logging_def intro: logger_step.step_close)

text \<open>Until the log is closed it is open, and a writer that is done has drained the closed log.\<close>

definition open_log :: "'re running Gateway \<Rightarrow> bool" where
  "open_log g \<longleftrightarrow> \<not> lg_closed (w_logger (gw_state g)) \<and> \<not> lg_done (w_logger (gw_state g))"

definition drained :: "'s SQLiteAuditLogger \<Rightarrow> bool" where
  "drained l \<longleftrightarrow> lg_closed l \<and> lg_ch l = [] \<and> lg_batch l = []"

lemma writing_step:
  assumes "logger_step ops l a l'" and "writing a"
  shows "lg_closed l' = lg_closed l" and "\<not> lg_closed l \<Longrightarrow> lg_done l' = lg_done l"
    and "lg_done l \<longrightarrow> drained l \<Longrightarrow> lg_done l' \<longrightarrow> drained l'"
proof -
  have "lg_closed l' = lg_closed l \<and> (\<not> lg_closed l \<longrightarrow> lg_done l' = lg_done l) \<and>
      ((lg_done l \<longrightarrow> drained l) \<longrightarrow> lg_done l' \<longrightarrow> drained l')"
    using assms(1)
  proof cases
    case (step_receive f)
    then show ?thesis by (cases "lg_ch l") (auto simp: receive_def Let_def drained_def split: if_splits)
  qed (use assms(2) in \<open>auto simp: writing_def retention_tick_def drained_def\<close>)
  then show "lg_closed l' = lg_closed l" "\<not> lg_closed l \<Longrightarrow> lg_done l' = lg_done l"
    "lg_done l \<longrightarrow> drained l \<Longrightarrow> lg_done l' \<longrightarrow> drained l'" by blast+
qed

lemma logging_run:
  "logger_run ops l as l' \<Longrightarrow> list_all logging as \<Longrightarrow> lg_closed l' = lg_closed l \<and> lg_done l' = lg_done l"
proof (induction rule: logger_run.induct)
  case (run_cons l a l1 as l2)
  then obtain sel now uuid e where a: "a = DoLog sel now uuid e" by (cases a) (auto simp: logging_def)
  have "snd (Log sel now uuid e l) = l1" using run_cons.hyps(1) by (auto simp: a elim: step_logE)
  then have "lg_closed l1 = lg_closed l \<and> lg_done l1 = lg_done l"
    by (cases rule: Log_cases [of sel now uuid e l]) (auto simp: send_def reportDrop_def)
  then show ?case using run_cons by simp
qed simp

lemma unblocked_log:
  "unblocked w w' \<Longrightarrow> lg_closed (w_logger w') = lg_closed (w_logger w) \<and> lg_done (w_logger w') = lg_done (w_logger w)"
  using logging_run by (auto simp: unblocked_def)

definition open_past :: "'re running request \<Rightarrow> bool" where
  "open_past q \<longleftrightarrow> list_all (\<lambda>(g, g'). open_log g) (rq_past q)"

definition finished :: "'s request list \<Rightarrow> bool" where
  "finished qs \<longleftrightarrow> list_all (\<lambda>q. answer q \<noteq> None) qs"

fun phase_ok :: "phase \<Rightarrow> 're running Gateway \<Rightarrow> 're running request list \<Rightarrow> bool" where
  "phase_ok (Closing (Stopped err)) g qs \<longleftrightarrow> finished qs \<and> list_all open_past qs \<and>
     lg_closed (w_logger (gw_state g)) \<and> (lg_done (w_logger (gw_state g)) \<longrightarrow> drained (w_logger (gw_state g)))"
| "phase_ok (Exited (Stopped err)) g qs \<longleftrightarrow> finished qs \<and> list_all open_past qs \<and>
     lg_done (w_logger (gw_state g)) \<and> drained (w_logger (gw_state g))"
| "phase_ok (Closing (ListenerFailed e)) g qs \<longleftrightarrow> lg_closed (w_logger (gw_state g))"
| "phase_ok (Exited (ListenerFailed e)) g qs \<longleftrightarrow> lg_closed (w_logger (gw_state g))"
| "phase_ok ph g qs \<longleftrightarrow> list_all open_past qs \<and> open_log g"

lemma finished_no_action: "finished qs \<Longrightarrow> i < length qs \<Longrightarrow> rq_rest (qs ! i) \<noteq> Atomic f"
  by (auto simp: finished_def list_all_length answer_def)

lemma phase_ok_frame:
  "phase_ok ph g qs \<Longrightarrow> w_logger s = w_logger (gw_state g) \<Longrightarrow> phase_ok ph (g\<lparr>gw_state := s\<rparr>) qs"
  by (cases "(ph, g, qs)" rule: phase_ok.cases) (auto simp: open_log_def)

lemma phase_ok_action:
  assumes "phase_ok ph g qs" and "i < length qs" and "rq_rest (qs ! i) = Atomic f"
    and "unblocked (gw_state g) (gw_state g')"
  shows "phase_ok ph g' (qs[i := moved t g g' (qs ! i)])"
proof -
  note u = unblocked_log [OF assms(4)]
  have p: "list_all open_past qs \<and> open_log g \<Longrightarrow> list_all open_past (qs[i := moved t g g' (qs ! i)]) \<and> open_log g'"
  proof -
    assume o: "list_all open_past qs \<and> open_log g"
    then have "open_past (qs ! i)" using assms(2) by (simp add: list_all_length)
    then have "open_past (moved t g g' (qs ! i))" using o by (simp add: open_past_def moved_def)
    then show ?thesis using o u by (auto intro: list_all_update simp: open_log_def)
  qed
  show ?thesis
    using assms(1-3) p u finished_no_action [of qs i f]
    by (cases "(ph, g, qs)" rule: phase_ok.cases) auto
qed

lemma phase_ok_writer:
  assumes "phase_ok ph g qs" and "\<forall>x. ph \<noteq> Exited x" and "writing a"
    and "logger_step sqlite_ops (w_logger (gw_state g)) a l"
  shows "phase_ok ph (g\<lparr>gw_state := (gw_state g)\<lparr>w_logger := l\<rparr>\<rparr>) qs"
  using assms(1,2) writing_step [OF assms(4,3)]
  by (cases "(ph, g, qs)" rule: phase_ok.cases) (auto simp: open_log_def)

lemma lifetime_ok:
  assumes "lifetime num deps policyFile g0 ph g qs" and "open_log g0"
  shows "phase_ok ph g qs"
  using assms
proof (induction rule: lifetime.induct)
  case (accept ph g qs rd r)
  then show ?case by (auto simp: open_past_def new_request_def)
next
  case (action ph g qs i f t g')
  then show ?case by (intro phase_ok_action) auto
next
  case (shut g qs err)
  then show ?case by (auto simp: finished_def close_log_def Close_def open_log_def)
next
  case (exit x g qs)
  then show ?case by (cases x) auto
qed (auto intro: phase_ok_frame phase_ok_writer simp: close_log_def Close_def)

lemma lifetime_interleaving:
  assumes "lifetime num deps policyFile g0 ph g qs" and "open_log g0"
  shows "interleaving num deps unblocked background g0 g qs"
  using assms
proof (induction rule: lifetime.induct)
  case (writer ph g qs a l)
  then show ?case using writing_cases [OF writer.hyps(3)] by (intro interleaving.other) (auto intro: background.writer)
next
  case (refresh ph g qs m)
  then show ?case by (intro interleaving.other) (auto intro: background.refresh)
next
  case (reload ph g qs h)
  obtain p where "sighup policyFile h (w_engine (gw_state g)) = Swap (w_engine (gw_state g)) p" using Swap_sighup by blast
  then show ?case using reload by (auto intro!: interleaving.other background.reload)
next
  case (shut g qs err)
  from lifetime_ok [OF shut.hyps(1) assms(2)] have "\<not> lg_closed (w_logger (gw_state g))" by (simp add: open_log_def)
  then show ?case using shut by (auto simp: close_log_def intro!: interleaving.other close_background)
next
  case (listener g qs e)
  from lifetime_ok [OF listener.hyps(1) assms(2)] have "\<not> lg_closed (w_logger (gw_state g))" by (simp add: open_log_def)
  then show ?case using listener by (auto simp: close_log_def intro!: interleaving.other close_background)
qed (auto intro: interleaving.intros)

section \<open>The logger of a server that has just started\<close>

lemma runServe_logger:
  assumes "runServe h path = Inr sv" and "sv_logger sv = SQLiteLogger l"
  shows "lg_ch l = [] \<and> lg_batch l = [] \<and> \<not> lg_closed l \<and> \<not> lg_done l"
proof -
  obtain cfg where "NewLogger sqlite_ops (open_store h) (h_pd h) (h_scaled h) (h_query h) cfg = Inr (SQLiteLogger l)"
    using assms by (auto simp: runServe_def and_then_Inr relabel_Inr case_prod_unfold)
  then have "NewSQLiteAuditLogger sqlite_ops (open_store h) (h_pd h) (h_scaled h) (h_query h) cfg = Inr l"
    by (auto simp: NewLogger_def split: if_splits sum.splits)
  then show ?thesis by (auto simp: NewSQLiteAuditLogger_def split: sum.splits option.splits)
qed

section \<open>The writer after Close\<close>

text \<open>The receives among the steps of the writer; the others are ticks of the flush and retention timers.\<close>

definition receives :: "logger_action list \<Rightarrow> nat" where
  "receives as = length (filter (\<lambda>a. case a of DoReceive f \<Rightarrow> True | _ \<Rightarrow> False) as)"

lemma receives_simps [simp]:
  "receives [] = 0" "receives (DoReceive f # as) = Suc (receives as)" "receives (map DoReceive fs) = length fs"
  "receives (DoTick f # as) = receives as" "receives (DoRetention f env # as) = receives as"
  by (simp_all add: receives_def filter_map comp_def)

text \<open>What a closed log still has to receive: the queued events, and the end of the channel.\<close>

definition outstanding :: "'s SQLiteAuditLogger \<Rightarrow> nat" where
  "outstanding l = length (lg_ch l) + (if lg_done l then 0 else 1)"

lemma writing_outstanding:
  assumes "logger_step ops l a l'" and "writing a"
  shows "receives [a] + outstanding l' = outstanding l"
  using assms(1)
proof cases
  case (step_receive f)
  then show ?thesis by (cases "lg_ch l") (auto simp: receive_def outstanding_def Let_def split: if_splits)
qed (use assms(2) in \<open>auto simp: writing_def retention_tick_def outstanding_def\<close>)

lemma closed_run:
  assumes "logger_run ops l as l'" and "list_all writing as" and "lg_closed l" and "lg_done l \<longrightarrow> drained l"
  shows "lg_closed l' \<and> (lg_done l' \<longrightarrow> drained l') \<and> receives as + outstanding l' = outstanding l"
  using assms
proof (induction rule: logger_run.induct)
  case (run_cons l a l1 as l2)
  have w: "writing a" using run_cons.prems(1) by simp
  have "receives (a # as) = receives [a] + receives as" by (simp add: receives_def)
  then show ?case
    using run_cons writing_step [OF run_cons.hyps(1) w] writing_outstanding [OF run_cons.hyps(1) w] by simp
qed simp

lemma closing_run:
  assumes "logger_run sqlite_ops l as l'" and "list_all writing as" and "w_logger (gw_state g) = l"
    and "lifetime num deps policyFile g0 (Closing x) g qs"
  shows "lifetime num deps policyFile g0 (Closing x) (g\<lparr>gw_state := (gw_state g)\<lparr>w_logger := l'\<rparr>\<rparr>) qs"
  using assms
proof (induction arbitrary: g rule: logger_run.induct)
  case (run_cons l a l1 as l2)
  have "lifetime num deps policyFile g0 (Closing x) (g\<lparr>gw_state := (gw_state g)\<lparr>w_logger := l1\<rparr>\<rparr>) qs"
    using run_cons by (intro lifetime.writer [where a = a]) auto
  from run_cons.IH [OF _ _ this] run_cons.prems(1) show ?case by simp
next
  case (run_nil l)
  then have e: "g\<lparr>gw_state := (gw_state g)\<lparr>w_logger := l\<rparr>\<rparr> = g" by auto
  show ?case unfolding e by (rule run_nil.prems(3))
qed

lemma shut_run:
  assumes "lifetime num deps policyFile g0 ShuttingDown g qs" and "list_all (\<lambda>q. answer q \<noteq> None) qs"
    and "logger_run sqlite_ops (Close (w_logger (gw_state g))) as l" and "list_all writing as"
  shows "lifetime num deps policyFile g0 (Closing (Stopped err)) (g\<lparr>gw_state := (gw_state g)\<lparr>w_logger := l\<rparr>\<rparr>) qs"
proof -
  have "w_logger (gw_state (close_log g)) = Close (w_logger (gw_state g))" by (simp add: close_log_def)
  from closing_run [OF assms(3,4) this lifetime.shut [OF assms(1,2)]] show ?thesis by (simp add: close_log_def)
qed

section \<open>Properties\<close>

lemma recorded_when_drained:
  assumes "interleaving num (wired a re al out) unblocked background g0 g qs" and "strict_logger (gw_state g0)"
    and "lg_batch (w_logger (gw_state g0)) = []" and "lg_ch (w_logger (gw_state g0)) = []"
    and "drained (w_logger (gw_state g))"
  shows "\<exists>bs F. logger_hist sqlite_ops (w_logger (gw_state g0)) bs (flushed F) F (w_logger (gw_state g)) \<and>
    list_all (on_record (flushed F)) qs"
proof -
  from interleaving_log [OF assms(1,2)] obtain S F bs where
    h: "list_all (on_record S) qs" "logger_hist sqlite_ops (w_logger (gw_state g0)) bs S F (w_logger (gw_state g))"
    by (auto simp: log_history_def)
  have "S = flushed F" using hist_fifo [OF h(2)] assms(3-5) by (simp add: drained_def)
  then show ?thesis using h by blast
qed

lemma on_record_result:
  assumes "on_track num (wired a re al out) q" and "answer q = Some resp" and "result_of resp = Some p" and "on_record S q"
  shows "\<exists>e \<in> set S. ev_Response e = Some p \<and> Authenticate a (hi_Authorization (rq_in q)) = Inr (ev_ClientID e)"
proof -
  from serve_script [OF answered_completes [OF assms(1,2)]] assms(3) obtain c xs where
    c: "Authenticate a (hi_Authorization (rq_in q)) = Inr c" "script c resp xs"
      "effects (rq_past q) = Authenticated (hi_Authorization (rq_in q)) (Inr c) # xs"
    by (cases rule: served.cases) auto
  from script_result [OF c(2) assms(3)] obtain ys e where
    e: "xs = ys @ [Logged e None]" "ev_Response e = Some p" "ev_ClientID e = c" by blast
  then have "Logged e None \<in> set (effects (rq_past q))" by (simp add: c(3))
  then obtain e' where "e' \<in> set S" "same_facts e e'" using assms(4) by (auto simp: on_record_def)
  then show ?thesis using same_factsD [of e e'] e(2,3) c(1) by (intro bexI [of _ e']) auto
qed

text \<open>
  C3: A stop by signal loses nothing.  When the server that \<open>runServe\<close> built, with API keys and an SQLite
  audit log that does not drop silently, has exited through \<open>Shutdown\<close>, then whatever requests, writer
  steps, retention runs, refreshes and reloads came before: every request it accepted has been answered;
  no action of a request ever found the log closed, so none sent on a closed channel; the channel and
  the writer's batch are empty; and for every result a client received, an event with this result and the
  client's identity is in a batch that was handed to the store before the exit.
\<close>

theorem graceful_shutdown:
  assumes "runServe h cfgPath = Inr sv" and "sv_auth sv = APIKeys a" and "sv_logger sv = SQLiteLogger l"
    and "lc_mode (lg_cfg l) \<in> {ModeBlock, ModeFailClosed, ModeUnknown}"
    and "lifetime num (wired a (h_re h) Allow out) (sv_policyFile sv) (launch sv l) (Exited (Stopped err)) g qs"
  shows "(\<forall>q \<in> set qs. answer q \<noteq> None \<and> list_all (\<lambda>(g1, g2). \<not> lg_closed (w_logger (gw_state g1))) (rq_past q)) \<and>
    lg_ch (w_logger (gw_state g)) = [] \<and> lg_batch (w_logger (gw_state g)) = [] \<and>
    (\<exists>bs F. logger_hist sqlite_ops l bs (flushed F) F (w_logger (gw_state g)) \<and>
      (\<forall>q \<in> set qs. \<forall>resp p. answer q = Some resp \<longrightarrow> result_of resp = Some p \<longrightarrow>
        (\<exists>e \<in> set (flushed F). ev_Response e = Some p \<and> Authenticate a (hi_Authorization (rq_in q)) = Inr (ev_ClientID e))))"
proof -
  note l = runServe_logger [OF assms(1,3)]
  have l0: "w_logger (gw_state (launch sv l)) = l" by (simp add: launch_def)
  then have o: "open_log (launch sv l)" using l by (simp add: open_log_def)
  from lifetime_ok [OF assms(5) o] have ok: "finished qs" "list_all open_past qs" "drained (w_logger (gw_state g))" by simp_all
  note i = lifetime_interleaving [OF assms(5) o]
  have s: "strict_logger (gw_state (launch sv l))" using assms(4) by (simp add: strict_logger_def l0)
  from recorded_when_drained [OF i s _ _ ok(3)] l obtain bs F where
    F: "logger_hist sqlite_ops l bs (flushed F) F (w_logger (gw_state g))" "list_all (on_record (flushed F)) qs"
    by (auto simp: l0)
  have "\<exists>e \<in> set (flushed F). ev_Response e = Some p \<and> Authenticate a (hi_Authorization (rq_in q)) = Inr (ev_ClientID e)"
    if "q \<in> set qs" "answer q = Some resp" "result_of resp = Some p" for q resp p
    using on_record_result [OF _ that(2,3)] all_on_track [OF i] F(2) that(1) by (fastforce simp: list_all_iff)
  moreover have "answer q \<noteq> None \<and> list_all (\<lambda>(g1, g2). \<not> lg_closed (w_logger (gw_state g1))) (rq_past q)" if "q \<in> set qs" for q
  proof
    show "answer q \<noteq> None" using ok(1) that by (simp add: finished_def list_all_iff)
    have "list_all (\<lambda>(g1, g2). open_log g1) (rq_past q)" using ok(2) that by (simp add: open_past_def list_all_iff)
    then show "list_all (\<lambda>(g1, g2). \<not> lg_closed (w_logger (gw_state g1))) (rq_past q)"
      by (auto simp: list_all_iff open_log_def)
  qed
  moreover have "lg_ch (w_logger (gw_state g)) = []" "lg_batch (w_logger (gw_state g)) = []"
    using ok(3) by (simp_all add: drained_def)
  ultimately show ?thesis using F(1) by (intro conjI ballI exI [of _ bs] exI [of _ F]) simp_all
qed

text \<open>
  C40: A stop by signal comes to an end under every schedule.  Once the requests in progress are answered
  and \<open>Close\<close> has closed the channel, take any steps of the writer whatever: receives, flush ticks and
  retention runs in any order, with any answers of the store.  The receives among them are at most the
  events that were queued, and one more; the writer is done exactly when there have been that many; until
  then the next receive is never blocked; and when it is done, the server can exit with the result of
  \<open>Shutdown\<close>, with the channel and the batch empty.
\<close>

theorem shutdown_completes:
  assumes "lifetime num deps policyFile g0 ShuttingDown g qs" and "open_log g0"
    and "list_all (\<lambda>q. answer q \<noteq> None) qs"
    and "logger_run sqlite_ops (Close (w_logger (gw_state g))) as l" and "list_all writing as"
  shows "receives as \<le> Suc (length (lg_ch (w_logger (gw_state g)))) \<and>
    (lg_done l \<longleftrightarrow> receives as = Suc (length (lg_ch (w_logger (gw_state g))))) \<and>
    (\<not> lg_done l \<longrightarrow> (\<forall>f. \<exists>l'. logger_step sqlite_ops l (DoReceive f) l')) \<and>
    (lg_done l \<longrightarrow> lg_ch l = [] \<and> lg_batch l = [] \<and>
      lifetime num deps policyFile g0 (Exited (Stopped err)) (g\<lparr>gw_state := (gw_state g)\<lparr>w_logger := l\<rparr>\<rparr>) qs)"
proof -
  let ?l0 = "Close (w_logger (gw_state g))"
  have o: "\<not> lg_done (w_logger (gw_state g))" using lifetime_ok [OF assms(1,2)] by (simp add: open_log_def)
  then have l: "lg_closed l \<and> (lg_done l \<longrightarrow> drained l)" and n: "receives as + outstanding l = outstanding ?l0"
    using closed_run [OF assms(4,5)] by (simp_all add: Close_def)
  have s: "outstanding ?l0 = Suc (length (lg_ch (w_logger (gw_state g))))" using o by (simp add: outstanding_def Close_def)
  have e: "lifetime num deps policyFile g0 (Exited (Stopped err)) (g\<lparr>gw_state := (gw_state g)\<lparr>w_logger := l\<rparr>\<rparr>) qs" if "lg_done l"
    using lifetime.exit [OF shut_run [OF assms(1,3,4,5)]] that by simp
  have "\<exists>l'. logger_step sqlite_ops l (DoReceive f) l'" if "\<not> lg_done l" for f
    using logger_step.step_receive [OF that _ refl] l by blast
  then show ?thesis using l n e unfolding s by (auto simp: outstanding_def drained_def split: if_splits)
qed

section \<open>A life in miniature\<close>

definition life_config :: Config where
  "life_config = sample_config\<lparr>cfg_Auth := \<lparr>ac_Type = ''api_key'',
       ac_Keys = [\<lparr>ak_ID = ''k'', ak_KeyHash = NewKeyHash ''k'', ak_ClientID = ''c''\<rparr>]\<rparr>,
     cfg_Audit := (cfg_Audit sample_config)\<lparr>auc_Enabled := True,
       auc_SQLite := \<lparr>asc_Path = ''a.db'', asc_WAL = False, asc_BusyTimeout = '''', asc_Synchronous = ''''\<rparr>,
       auc_Write := \<lparr>awc_BatchMaxEvents = 0, awc_BatchMaxDelay = '''', awc_ChannelSize = 0, awc_Mode = ''block''\<rparr>\<rparr>\<rparr>"

definition life_host :: "string host" where
  "life_host = demo_host\<lparr>h_config_yaml := (\<lambda>t. Inr life_config)\<rparr>"

lemma life_runtime: "\<exists>rt. buildRuntime (h_pd life_host) life_config = Inr rt \<and> 1000 \<le> sr_MaxRequestBytes (rt_Server rt)"
  by (simp add: life_host_def demo_host_def life_config_def buildRuntime_def sample_config_defs buildServerRuntime_def
      buildUpstreamRuntime_def parseDurationWithDefault_def parseInt64WithDefault_def
      parseIntWithDefault_def check_upstream_def upstream_values_def ParseDuration_30s default_defs time_units)

lemma life_key: "NewKeyHash ''k'' \<noteq> ''''" "Authenticate (NewAPIKeyAuthenticator [(NewKeyHash ''k'', ''c'')]) ''Bearer k'' = Inr ''c''"
  using decode_NewKeyHash [of "''k''"] by (simp_all add: Authenticate_eq bearer_prefix_def, simp add: NewKeyHash_def sha256_prefix_def)

definition life_logger :: "sqliteStore SQLiteAuditLogger" where
  "life_logger = (case NewLogger sqlite_ops (open_store life_host) (h_pd life_host) (h_scaled life_host) (h_query life_host)
     (cfg_Audit life_config) of Inr (SQLiteLogger l) \<Rightarrow> l)"

lemma life_log: "NewLogger sqlite_ops (open_store life_host) (h_pd life_host) (h_scaled life_host) (h_query life_host)
    (cfg_Audit life_config) = Inr (SQLiteLogger life_logger)"
  "lc_mode (lg_cfg life_logger) = ModeBlock" "lg_chanSize life_logger = 4096"
  by (simp_all add: life_logger_def life_host_def demo_host_def life_config_def sample_config_defs NewLogger_def
      NewSQLiteAuditLogger_def open_store_def NewSQLiteStore_def busy_statement_def exec_all_def parseSqliteWriteMode_def
      parseRetentionConfig_def or_default_def)

lemma life_server:
  "\<exists>sv. runServe life_host ''c'' = Inr sv \<and> sv_auth sv = APIKeys (NewAPIKeyAuthenticator [(NewKeyHash ''k'', ''c'')]) \<and>
     sv_logger sv = SQLiteLogger life_logger \<and> 1000 \<le> gw_maxRequestBytes (sv_gateway sv)"
proof -
  from life_runtime obtain rt where rt: "buildRuntime (h_pd life_host) life_config = Inr rt" "1000 \<le> sr_MaxRequestBytes (rt_Server rt)"
    by blast
  note parts = serve_parts_ok [OF rt(1)]
  obtain es where es: "buildEntries (rt_Upstreams rt) = Inr es" using parts(1) by blast
  obtain m where m: "NewManager es \<lparr>mc_ToolsCacheTTL = um_ToolsCacheTTL (rt_UpstreamManager rt),
      mc_RefreshTimeout = um_RefreshTimeout (rt_UpstreamManager rt)\<rparr> = Inr m" using parts(2) by blast
  obtain g where g: "NewGateway () \<lparr>gc_RequestTimeout = sr_RequestTimeout (rt_Server rt), gc_MaxRequestBytes = sr_MaxRequestBytes (rt_Server rt),
      gc_SessionTTL = sr_SessionTTL (rt_Server rt), gc_SessionMaxEntries = sr_SessionMaxEntries (rt_Server rt)\<rparr> = Inr g"
    using parts(3) by blast
  obtain s where s: "NewHTTPServer (sr_Listen (rt_Server rt)) \<lparr>hs_ReadTimeout = sr_ReadTimeout (rt_Server rt),
      hs_WriteTimeout = sr_WriteTimeout (rt_Server rt), hs_IdleTimeout = sr_IdleTimeout (rt_Server rt)\<rparr> = Inr s"
    using parts(4) by blast
  have l: "Load (h_readFile life_host) (h_env life_host) (h_config_yaml life_host) ''c'' = Inr life_config"
    by (simp add: Load_def life_host_def demo_host_def)
  have a: "buildAuth (h_map_order life_host) (cfg_Auth life_config) b = Inr (APIKeys (NewAPIKeyAuthenticator [(NewKeyHash ''k'', ''c'')]))" for b
    using life_key(1) by (simp add: buildAuth_def life_config_def life_host_def demo_host_def)
  have p: "cfg_PolicyFile life_config = ''''" "\<not> mc_Enabled (cfg_Metrics life_config)"
    by (simp_all add: life_config_def sample_config_defs)
  have "gw_maxRequestBytes g = sr_MaxRequestBytes (rt_Server rt)"
    using g by (auto simp: NewGateway_def split: option.splits)
  then show ?thesis
    using rt l a life_log(1) es m g s p by (simp add: runServe_def relabel_def load_engine_def wire_metrics_def)
qed

lemma lifetime_stretch:
  assumes "plays t h u" and "linked g h g'" and "lifetime num deps policyFile g0 Serving g qs"
    and "i < length qs" and "rq_rest (qs ! i) = t" and "list_all (\<lambda>(g, g'). unblocked (gw_state g) (gw_state g')) h"
  shows "lifetime num deps policyFile g0 Serving g'
    (qs[i := (qs ! i)\<lparr>rq_rest := u, rq_past := rq_past (qs ! i) @ h\<rparr>])"
  using assms
proof (induction arbitrary: g qs rule: plays.induct)
  case (start t)
  then have "(qs ! i)\<lparr>rq_rest := t, rq_past := rq_past (qs ! i) @ []\<rparr> = qs ! i" by (cases "qs ! i") simp
  then have "qs[i := (qs ! i)\<lparr>rq_rest := t, rq_past := rq_past (qs ! i) @ []\<rparr>] = qs" by (simp only: list_update_id)
  then show ?case using start.prems(1,2) by (simp only: linked.simps)
next
  case (step f g1 t g2 h u)
  then have g: "g1 = g" "linked g2 h g'" by simp_all
  have "unblocked (gw_state g) (gw_state g2)" using step.prems(5) g(1) by simp
  note i = lifetime.action [OF step.prems(2) _ step.prems(3,4) step.hyps(1) [unfolded g(1)] this]
  from step.IH [OF g(2) i] show ?case using step.prems(3,5) g(1) by (simp add: moved_def)
qed

lemma init_length: "int (length init_body) \<le> 1000"
  by code_simp

lemma init_read:
  "1000 \<le> limit \<Longrightarrow> read_request limit (post ''Bearer k'' '''' init_body) =
    Inr \<lparr>req_JSONRPC = ''2.0'', req_ID = Some (show_int 1), req_Method = ''initialize'', req_Params = None\<rparr>"
  using init_length by (intro read_envelope) (simp_all add: init_body_def params_ok_def ascii_valid)

text \<open>Initializing on a server with this logger: the answer is a result, after one audit record.\<close>

lemma life_initialize:
  assumes "1000 \<le> gw_maxRequestBytes g" and "w_logger (gw_state g) = life_logger" and "gw_trace g = []"
    and "ServeHTTP Some (wired (NewAPIKeyAuthenticator [(NewKeyHash ''k'', ''c'')]) re al (always_sent out)) sample_readings
      (post ''Bearer k'' '''' init_body) g = (resp, g')"
  shows "result_of resp = Some (PInitialize gateway_result) \<and> length (filter is_logged (gw_trace g')) = 1"
proof -
  have L: "\<exists>s'. wired_log (always_sent out) e s = (None, s')" if "w_logger s = life_logger" for e s
    using that by (simp add: wired_log_def Log_def life_log always_sent_def Let_def)
  let ?e = "new_event (rd_event sample_readings) ''initialize'' ''allow'' ''c'' (show_int 1) ''n''"
  from L obtain s' where s': "wired_log (always_sent out)
      (?e\<lparr>ev_Response := Some (PInitialize gateway_result)\<rparr>) (gw_state g) = (None, s')"
    by (metis assms(2))
  show ?thesis
    using assms(1,3,4) s'
    by (auto simp: ServeHTTP_def serve_rpc_def init_read dispatch_def authenticate_def life_key(2) Let_def handleInitialize_def
        log_event_def note_effect_def request_id_def writeResult_def result_of_def is_logged_def sample_readings_def)
qed

text \<open>The server starts, a client initializes, a signal stops it.\<close>

definition life_outside :: "(MCPHTTPClient, unit) outside" where
  "life_outside = always_sent \<lparr>o_now = (\<lambda>k. 0), o_send = (\<lambda>k c q. Inl ()), o_text = (\<lambda>e. ''''), o_select = (\<lambda>k. Sent),
     o_uuid = (\<lambda>k. None)\<rparr>"

lemma life_stopping:
  assumes "runServe life_host ''c'' = Inr sv" and "sv_auth sv = APIKeys a" and "sv_logger sv = SQLiteLogger life_logger"
    and "a = NewAPIKeyAuthenticator [(NewKeyHash ''k'', ''c'')]" and "1000 \<le> gw_maxRequestBytes (sv_gateway sv)"
  shows "\<exists>g q resp. lifetime Some (wired a (h_re life_host) Allow life_outside) (sv_policyFile sv) (launch sv life_logger)
      ShuttingDown g [q] \<and> answer q = Some resp \<and> result_of resp = Some (PInitialize gateway_result) \<and>
      open_log (launch sv life_logger) \<and> lg_ch (w_logger (gw_state g)) \<noteq> []"
proof -
  let ?d = "wired a (h_re life_host) Allow life_outside" and ?g = "launch sv life_logger"
    and ?r = "post ''Bearer k'' '''' init_body"
  let ?q = "new_request Some ?d sample_readings ?r"
  obtain resp g' where p: "ServeHTTP Some ?d sample_readings ?r ?g = (resp, g')" by fastforce
  have s: "always_sent life_outside = life_outside" by (simp add: life_outside_def always_sent_def)
  have i: "result_of resp = Some (PInitialize gateway_result)" "length (filter is_logged (gw_trace g')) = 1"
    using life_initialize [where out = life_outside and g = ?g and re = "h_re life_host" and al = Allow and resp = resp and g' = g']
      p assms(5) by (simp_all add: s assms(4) launch_def)
  from ServeHTTP_history [OF p] obtain h where
    h: "completes (rq_rest ?q) h resp" "linked ?g h g'" "effects h = since ?g g'" by (auto simp: new_request_def)
  have e: "effects h = gw_trace g'" using h(3) by (simp add: since_def launch_def)
  have l: "w_logger (gw_state ?g) = life_logger" by (simp add: launch_def)
  have ev: "every_action logs_once (rq_rest ?q)"
    using sent_logging.serve_every [of Some a "h_re life_host" Allow life_outside] by (simp add: s new_request_def)
  then have "list_all (\<lambda>(g, g'). logs_once g g') h"
    using every_plays [OF h(1) [unfolded completes_def]] by blast
  moreover have "log_enabled (w_logger (gw_state ?g)) Sent"
    using runServe_logger [OF assms(1,3)] by (simp add: l life_log)
  ultimately have u: "list_all (\<lambda>(g, g'). unblocked (gw_state g) (gw_state g')) h"
    using one_log_unblocked [OF h(2)] i(2) by (simp add: e)
  have a: "lifetime Some ?d (sv_policyFile sv) ?g Serving ?g [?q]"
    using lifetime.accept [OF lifetime.start _ sample_readings_ok] by simp
  let ?q1 = "?q\<lparr>rq_rest := Done resp, rq_past := h\<rparr>"
  from lifetime_stretch [OF h(1) [unfolded completes_def] h(2) a, of 0] u
  have "lifetime Some ?d (sv_policyFile sv) ?g Serving g' [?q1]" by (simp add: new_request_def)
  then have "lifetime Some ?d (sv_policyFile sv) ?g ShuttingDown g' [?q1]" by (rule lifetime.terminate)
  moreover have "open_log ?g" using runServe_logger [OF assms(1,3)] by (simp add: open_log_def l)
  moreover have "lg_ch (w_logger (gw_state g')) \<noteq> []"
    using sqlite_audit.delivered [OF p _ i(1)] by (auto simp: strict_logger_def l life_log)
  ultimately show ?thesis using i(1) by (intro exI [of _ g'] exI [of _ ?q1]) (auto simp: answer_def)
qed

text \<open>The writer of a log that has just been closed, receiving all there is.\<close>

lemma drain_closed:
  assumes "\<not> lg_done l"
  shows "\<exists>l'. logger_run ops (Close l) (map (\<lambda>k. DoReceive (faults k)) [0..<Suc (length (lg_ch l))]) l' \<and> lg_done l'"
  using drain [of "Close l" ops faults 0] assms by (auto simp: Close_def comp_def)

theorem graceful_shutdown_witness:
  "\<exists>sv g q F. runServe life_host ''c'' = Inr sv \<and>
    lifetime Some (wired (NewAPIKeyAuthenticator [(NewKeyHash ''k'', ''c'')]) (h_re life_host) Allow life_outside)
      (sv_policyFile sv) (launch sv life_logger) (Exited (Stopped None)) g [q] \<and>
    lg_ch (w_logger (gw_state g)) = [] \<and>
    (\<exists>e \<in> set (flushed F). ev_Response e = Some (PInitialize gateway_result))"
proof -
  from life_server obtain sv where sv: "runServe life_host ''c'' = Inr sv"
    "sv_auth sv = APIKeys (NewAPIKeyAuthenticator [(NewKeyHash ''k'', ''c'')])" "sv_logger sv = SQLiteLogger life_logger"
    "1000 \<le> gw_maxRequestBytes (sv_gateway sv)" by blast
  have m: "lc_mode (lg_cfg life_logger) \<in> {ModeBlock, ModeFailClosed, ModeUnknown}" by (simp add: life_log)
  from life_stopping [OF sv(1-3) refl sv(4)] obtain g0 q resp where
    g0: "lifetime Some (wired (NewAPIKeyAuthenticator [(NewKeyHash ''k'', ''c'')]) (h_re life_host) Allow life_outside)
      (sv_policyFile sv) (launch sv life_logger) ShuttingDown g0 [q]"
    "answer q = Some resp" "result_of resp = Some (PInitialize gateway_result)" "open_log (launch sv life_logger)" by blast
  have "\<not> lg_done (w_logger (gw_state g0))" using lifetime_ok [OF g0(1,4)] by (simp add: open_log_def)
  from drain_closed [OF this] obtain l where
    l: "logger_run sqlite_ops (Close (w_logger (gw_state g0)))
      (map (\<lambda>k. DoReceive (undefined k)) [0..<Suc (length (lg_ch (w_logger (gw_state g0))))]) l" "lg_done l" by blast
  obtain g where
    "lifetime Some (wired (NewAPIKeyAuthenticator [(NewKeyHash ''k'', ''c'')]) (h_re life_host) Allow life_outside)
      (sv_policyFile sv) (launch sv life_logger) (Exited (Stopped None)) g [q]"
    using lifetime.exit [OF shut_run [OF g0(1) _ l(1)]] l(2) g0(2) by (fastforce simp: list_all_iff writing_def)
  note g = this g0(2,3)
  show ?thesis using graceful_shutdown [OF sv(1-3) m g(1)] g sv(1) by fastforce
qed

theorem shutdown_completes_witness:
  "\<exists>sv g q as l. runServe life_host ''c'' = Inr sv \<and> answer q \<noteq> None \<and> lg_ch (w_logger (gw_state g)) \<noteq> [] \<and>
    list_all writing as \<and> logger_run sqlite_ops (Close (w_logger (gw_state g))) as l \<and>
    receives as = Suc (length (lg_ch (w_logger (gw_state g)))) \<and> lg_ch l = [] \<and>
    lifetime Some (wired (NewAPIKeyAuthenticator [(NewKeyHash ''k'', ''c'')]) (h_re life_host) Allow life_outside)
      (sv_policyFile sv) (launch sv life_logger) (Exited (Stopped None)) (g\<lparr>gw_state := (gw_state g)\<lparr>w_logger := l\<rparr>\<rparr>) [q]"
proof -
  from life_server obtain sv where sv: "runServe life_host ''c'' = Inr sv"
    "sv_auth sv = APIKeys (NewAPIKeyAuthenticator [(NewKeyHash ''k'', ''c'')])" "sv_logger sv = SQLiteLogger life_logger"
    "1000 \<le> gw_maxRequestBytes (sv_gateway sv)" by blast
  let ?as = "\<lambda>g :: string running Gateway. map (\<lambda>k. DoReceive (undefined k)) [0..<Suc (length (lg_ch (w_logger (gw_state g))))]"
  from life_stopping [OF sv(1-3) refl sv(4)] obtain g q resp where
    g: "lifetime Some (wired (NewAPIKeyAuthenticator [(NewKeyHash ''k'', ''c'')]) (h_re life_host) Allow life_outside)
      (sv_policyFile sv) (launch sv life_logger) ShuttingDown g [q]"
    "answer q = Some resp" "open_log (launch sv life_logger)" "lg_ch (w_logger (gw_state g)) \<noteq> []" by blast
  have "\<not> lg_done (w_logger (gw_state g))" using lifetime_ok [OF g(1,3)] by (simp add: open_log_def)
  from drain_closed [OF this] obtain l where l: "logger_run sqlite_ops (Close (w_logger (gw_state g))) (?as g) l" "lg_done l" by blast
  have a: "list_all (\<lambda>q. answer q \<noteq> None) [q]" "list_all writing (?as g)" using g(2) by (auto simp: list_all_iff writing_def)
  from shutdown_completes [OF g(1,3) a(1) l(1) a(2), where err = None] l(2) show ?thesis
    using sv(1) g(2,4) l(1) a(2) by (intro exI [of _ sv] exI [of _ g] exI [of _ q] exI [of _ "?as g"] exI [of _ l]) simp
qed

text \<open>
  On the other way out nothing is waited for: when the listener fails, the log is closed under the requests
  in progress, and their next event would be sent on a closed channel.
\<close>

lemma listener_failure_cuts_off:
  assumes "readings_ok rd"
  shows "\<exists>g qs. lifetime num deps policyFile g0 (Closing (ListenerFailed e)) g qs \<and>
    (\<exists>q \<in> set qs. rq_past q = [] \<and> rq_rest q = serve_thread num deps rd r) \<and> \<not> log_enabled (w_logger (gw_state g)) Sent"
proof -
  have "lifetime num deps policyFile g0 (Closing (ListenerFailed e)) (close_log g0) ([] @ [new_request num deps rd r])"
    using assms by (intro lifetime.listener lifetime.accept lifetime.start) auto
  then show ?thesis
    by (intro exI [of _ "close_log g0"] exI [of _ "[new_request num deps rd r]"])
      (simp add: close_log_def Close_def new_request_def)
qed

end
