(* ===== verification/MockUpstream.thy ===== *)
theory MockUpstream
  imports GatewayParse GoCivil
begin

text \<open>
  \<open>examples/mock-upstream/main.go\<close>: the demonstration upstream, an HTTP server of two tools.  The body of
  a request is the bytes that arrive and how the stream ends; the answer is the text that is written.
\<close>

section \<open>Messages\<close>

text \<open>\<open>rpcRequest\<close> has the fields and the JSON names of \<open>mcp.Request\<close>, so it is decoded the same way.\<close>

type_synonym rpcRequest = Request

record rpcError =
  re_Code :: int
  re_Message :: string

record rpcResponse =
  rs_JSONRPC :: string
  rs_ID :: RawMessage
  rs_Result :: "any option"
  rs_Error :: "rpcError option"

text \<open>
  A \<open>json.RawMessage\<close> that holds a JSON value is written without white space outside strings, and with
  the characters of HTML and the two line separators inside strings escaped.
\<close>

fun compact :: "string \<Rightarrow> string" and compact_string :: "string \<Rightarrow> string" where
  "compact [] = []"
| "compact (c # cs) =
     (if is_ws c then compact cs
      else if c = dquote then c # compact_string cs
      else c # compact cs)"
| "compact_string [] = []"
| "compact_string (c # cs) =
     (if c = dquote then c # compact cs
      else if c = bslash then (case cs of [] \<Rightarrow> [c] | e # ds \<Rightarrow> c # e # compact_string ds)
      else if c \<in> {CHR ''<'', CHR ''>'', CHR ''&''} then bslash # CHR ''u'' # hex4 (byte c) @ compact_string cs
      else if take 3 (c # cs) = line_separator then bslash # CHR ''u'' # ''2028'' @ compact_string (drop 2 cs)
      else if take 3 (c # cs) = paragraph_separator then bslash # CHR ''u'' # ''2029'' @ compact_string (drop 2 cs)
      else c # compact_string cs)"

definition marshal_rpcError :: "rpcError \<Rightarrow> string" where
  "marshal_rpcError e = json_object [(''code'', show_int (re_Code e)), (''message'', quote (re_Message e))]"

definition marshal_rpcResponse :: "rpcResponse \<Rightarrow> string" where
  "marshal_rpcResponse v = json_object
     ((''jsonrpc'', quote (rs_JSONRPC v)) #
      (if rs_ID v = '''' then [] else [(''id'', compact (rs_ID v))]) @
      (case rs_Result v of None \<Rightarrow> [] | Some a \<Rightarrow> [(''result'', marshal_any a)]) @
      (case rs_Error v of None \<Rightarrow> [] | Some e \<Rightarrow> [(''error'', marshal_rpcError e)]))"

text \<open>The status, the content type the handler sets, and the body.\<close>

record mock_response =
  mr_status :: int
  mr_ContentType :: "string option"
  mr_body :: string

definition writeJSON :: "rpcResponse \<Rightarrow> mock_response" where
  "writeJSON v = \<lparr>mr_status = 200, mr_ContentType = Some ''application/json'',
     mr_body = marshal_rpcResponse v @ ''\<newline>''\<rparr>"

definition errResp :: "RawMessage \<Rightarrow> int \<Rightarrow> string \<Rightarrow> rpcResponse" where
  "errResp i code msg = \<lparr>rs_JSONRPC = ''2.0'', rs_ID = i, rs_Result = None,
     rs_Error = Some \<lparr>re_Code = code, re_Message = msg\<rparr>\<rparr>"

definition okResp :: "RawMessage \<Rightarrow> any \<Rightarrow> rpcResponse" where
  "okResp i a = \<lparr>rs_JSONRPC = ''2.0'', rs_ID = i, rs_Result = Some a, rs_Error = None\<rparr>"

section \<open>The tools\<close>

definition toolList :: "any list" where
  "toolList =
     [AMap [(''name'', AString ''echo''),
            (''description'', AString ''Echoes the input text back unchanged''),
            (''inputSchema'', AMap
              [(''type'', AString ''object''),
               (''properties'', AMap [(''text'', AMap
                 [(''type'', AString ''string''), (''description'', AString ''Text to echo'')])]),
               (''required'', ASlice [AString ''text''])])],
      AMap [(''name'', AString ''time.now''),
            (''description'', AString ''Returns the current UTC time in RFC3339 format''),
            (''inputSchema'', AMap [(''type'', AString ''object''), (''properties'', AMap [])])]]"

definition initialize_result :: any where
  "initialize_result = AMap
     [(''protocolVersion'', AString ''2024-11-05''),
      (''capabilities'', AMap [(''tools'', AMap [])]),
      (''serverInfo'', AMap [(''name'', AString ''mock-upstream''), (''version'', AString ''0.1.0'')])]"

definition text_result :: "string \<Rightarrow> any" where
  "text_result text = AMap [(''content'', ASlice [AMap [(''type'', AString ''text''), (''text'', AString text)]])]"

text \<open>What a call of a tool comes to: an error code and message, or the text.\<close>

definition run_tool :: "instant \<Rightarrow> ToolsCallRequest \<Rightarrow> int \<times> string + string" where
  "run_tool now params =
     (if call_Name params = ''echo'' then
        Inr (case map_of (call_Arguments params) ''text'' of Some v \<Rightarrow> sprint v | None \<Rightarrow> ''(no text provided)'')
      else if call_Name params = ''time.now'' then Inr (rfc3339 now)
      else Inl (-32601, ''tool not found: '' @ call_Name params))"

section \<open>The handlers\<close>

text \<open>
  \<open>Decode\<close> reads the first JSON value of the body.  A word or a number ends only at the next byte, so it
  needs one, or a stream that ends well; what follows the value is not read.
\<close>

definition decode_body :: "http_in \<Rightarrow> rpcRequest option" where
  "decode_body r =
     (case parse_value max_nesting (skip (hi_Body r)) of
        None \<Rightarrow> None
      | Some (v, rest) \<Rightarrow> if needs_next v \<and> rest = '''' \<and> hi_broken r then None else decode_Request v)"

text \<open>\<open>json.Unmarshal\<close> of the parameters; absent ones are not JSON.\<close>

definition mock_params :: "num_fn \<Rightarrow> rpcRequest \<Rightarrow> ToolsCallRequest option" where
  "mock_params num req =
     (case req_Params req of
        None \<Rightarrow> None
      | Some raw \<Rightarrow> Option.bind (parse_document raw) (decode_ToolsCallRequest num))"

definition mock_call :: "num_fn \<Rightarrow> instant \<Rightarrow> RawMessage \<Rightarrow> rpcRequest \<Rightarrow> rpcResponse" where
  "mock_call num now i req =
     (case mock_params num req of
        None \<Rightarrow> errResp i (-32602) ''invalid params''
      | Some params \<Rightarrow>
        (case run_tool now params of
           Inl (code, msg) \<Rightarrow> errResp i code msg
         | Inr text \<Rightarrow> okResp i (text_result text)))"

definition mcpHandler :: "num_fn \<Rightarrow> instant \<Rightarrow> http_in \<Rightarrow> mock_response" where
  "mcpHandler num now r =
     (if hi_Method r \<noteq> ''POST'' then
        \<lparr>mr_status = 405, mr_ContentType = Some ''text/plain; charset=utf-8'', mr_body = ''method not allowed\<newline>''\<rparr>
      else case decode_body r of
        None \<Rightarrow> writeJSON (errResp ''null'' (-32700) ''parse error'')
      | Some req \<Rightarrow>
        (case req_ID req of
           None \<Rightarrow> \<lparr>mr_status = 202, mr_ContentType = None, mr_body = ''''\<rparr>
         | Some i \<Rightarrow>
           if i = '''' \<or> i = ''null'' then \<lparr>mr_status = 202, mr_ContentType = None, mr_body = ''''\<rparr>
           else if req_Method req = ''initialize'' then writeJSON (okResp i initialize_result)
           else if req_Method req = ''tools/list'' then writeJSON (okResp i (AMap [(''tools'', ASlice toolList)]))
           else if req_Method req = ''tools/call'' then writeJSON (mock_call num now i req)
           else writeJSON (errResp i (-32601) (''method not found: '' @ req_Method req))))"

text \<open>The two patterns of the \<open>ServeMux\<close>, for the clean paths it does not redirect.\<close>

definition mock_serve :: "num_fn \<Rightarrow> instant \<Rightarrow> http_in \<Rightarrow> mock_response" where
  "mock_serve num now r =
     (if hi_Path r = ''/health'' then \<lparr>mr_status = 200, mr_ContentType = None, mr_body = ''ok''\<rparr>
      else mcpHandler num now r)"

section \<open>Texts that can be sent\<close>

lemma valid_utf8_append: "valid_utf8 s \<Longrightarrow> valid_utf8 t \<Longrightarrow> valid_utf8 (s @ t)"
proof (induction s rule: valid_utf8.induct)
  case (2 c cs)
  define n where "n = rune_size (c # cs)"
  obtain k where k: "n = Suc k" using 2(2) by (cases n) (auto simp: n_def simp del: rune_size.simps)
  have le: "k \<le> length cs" using rune_size_le [of "c # cs"] k by (simp add: n_def)
  have "rune_size (c # take k cs @ (drop k cs @ t)) = Suc k"
    using rune_size_append [of c cs k "drop k cs @ t"] k by (simp add: n_def)
  then have "rune_size (c # cs @ t) = Suc k" by (simp only: append_assoc [symmetric] append_take_drop_id)
  moreover have "valid_utf8 (drop k cs @ t)" using 2 k by (simp add: n_def del: rune_size.simps)
  ultimately show ?case using le by (simp del: rune_size.simps)
qed simp

definition ascii :: "string \<Rightarrow> bool" where
  "ascii s \<longleftrightarrow> list_all (\<lambda>c. byte c < 128) s"

lemma ascii_simps [simp]:
  "ascii ''''" "ascii (c # s) \<longleftrightarrow> byte c < 128 \<and> ascii s" "ascii (s @ t) \<longleftrightarrow> ascii s \<and> ascii t"
  "ascii (rev s) \<longleftrightarrow> ascii s" "ascii (replicate n c) \<longleftrightarrow> n = 0 \<or> byte c < 128"
  by (auto simp: ascii_def list_all_iff)

lemma ascii_subset: "ascii s \<Longrightarrow> set t \<subseteq> set s \<Longrightarrow> ascii t"
  by (auto simp: ascii_def list_all_iff)

lemma ascii_parts [simp]:
  "ascii s \<Longrightarrow> ascii (take n s)" "ascii s \<Longrightarrow> ascii (drop n s)" "ascii s \<Longrightarrow> ascii (dropWhile P s)"
  "ascii s \<Longrightarrow> ascii (takeWhile P s)"
  by (erule ascii_subset; auto dest: in_set_takeD in_set_dropD set_dropWhileD set_takeWhileD)+

lemma ascii_utf8: "ascii s \<Longrightarrow> valid_utf8 s"
  by (simp add: ascii_def ascii_valid)

lemma ascii_show [simp]: "ascii (show_nat n)" "ascii (show_int i)"
proof -
  show "ascii (show_nat n)" for n
    using show_nat_digits [of n] by (auto simp: ascii_def digit_char_def list_all_iff)
  then show "ascii (show_int i)" by (simp add: show_int_def)
qed

lemma ascii_pad [simp]: "ascii (pad_int w i)"
  by (simp add: pad_int_def Let_def)

lemma ascii_rfc3339 [simp]: "ascii (rfc3339 n)"
  by (simp add: rfc3339_def date_time_def Let_def split: prod.splits)

lemma number_ascii: "number_text t \<Longrightarrow> ascii t"
proof -
  have d: "ascii (takeWhile is_digit s)" for s
    by (auto simp: ascii_def list_all_iff is_digit_def less_eq_char_def dest: set_takeWhileD)
  have dig: "is_digit c \<Longrightarrow> byte c < 128" for c by (simp add: is_digit_def less_eq_char_def)
  have i: "int_part s = Some (a, r) \<Longrightarrow> ascii a" for s a r
    using d [of s] by (auto simp: int_part_def span_digits_def dig split: list.splits if_splits)
  have f: "frac_part s = Some (a, r) \<Longrightarrow> ascii a" for s a r
    by (auto simp: frac_part_def span_digits_def d split: list.splits if_splits)
  have sg: "ascii (takeWhile (\<lambda>d. d = CHR ''+'' \<or> d = CHR ''-'') s)" for s
    by (auto simp: ascii_def list_all_iff dest: set_takeWhileD)
  have e: "exp_part s = Some (a, r) \<Longrightarrow> ascii a" for s a r
    by (auto simp: exp_part_def span_digits_def Let_def d sg split: list.splits if_splits)
  show "number_text t \<Longrightarrow> ascii t"
    by (auto simp: number_text_def parse_number_def Let_def split: option.splits if_splits dest!: i f e)
qed

lemma ascii_print_float: "ascii t \<Longrightarrow> ascii (print_float t)"
proof -
  assume t: "ascii t"
  have z: "ascii s \<Longrightarrow> ascii (strip_zeros s)" for s by (simp add: strip_zeros_def)
  obtain neg ds dp where d: "decimal t = (neg, ds, dp)" by (cases "decimal t")
  then have "ascii ds" using t z by (auto simp: decimal_def Let_def split: if_splits)
  then show ?thesis by (simp add: print_float_def d format_e_def format_f_def Let_def)
qed

lemma valid_intercalate: "valid_utf8 sep \<Longrightarrow> list_all valid_utf8 ts \<Longrightarrow> valid_utf8 (intercalate sep ts)"
  by (induction sep ts rule: intercalate.induct) (simp_all add: valid_utf8_append)

lemma sprint_maps:
  "sprint_list xs = map sprint xs" "sprint_pairs m = map (\<lambda>kv. (fst kv, sprint (snd kv))) m"
  by (induction xs, simp_all) (induction m, auto)

lemma sort_sprint: "sort_key fst (sprint_pairs m) = map (\<lambda>kv. (fst kv, sprint (snd kv))) (sort_key fst m)"
  by (simp add: sprint_maps sort_key_map_comp)

lemma valid_sprint: "any_ok num a \<Longrightarrow> valid_utf8 (sprint a)"
proof (induction a)
  case (ANumber t)
  then show ?case by (simp add: ascii_utf8 ascii_print_float number_ascii)
next
  case (ASlice xs)
  then have "valid_utf8 (intercalate '' '' (sprint_list xs))"
    by (intro valid_intercalate) (auto simp: sprint_maps list_maps list_all_iff ascii_utf8)
  then show ?case by (simp add: valid_utf8_append [of "''[''", simplified] valid_utf8_append ascii_utf8)
next
  case (AMap m)
  have "valid_utf8 (k @ '':'' @ sprint v)" if "(k, v) \<in> set m" for k v
    using AMap.prems AMap.IH [OF that, of v] that
    by (intro valid_utf8_append) (auto simp: pairs_maps list_all_iff ascii_utf8)
  then have "valid_utf8 (intercalate '' '' (map (\<lambda>(k, t). k @ '':'' @ t) (sort_key fst (sprint_pairs m))))"
    by (intro valid_intercalate) (auto simp: sort_sprint list_all_iff ascii_utf8)
  then have "valid_utf8 (''map['' @ intercalate '' '' (map (\<lambda>(k, t). k @ '':'' @ t) (sort_key fst (sprint_pairs m))) @ '']'')"
    by (intro valid_utf8_append) (simp_all add: ascii_utf8)
  then show ?case by simp
qed (auto simp: ascii_utf8)

lemma sort_twice: "sort_key f (sort_key f m) = sort_key f m"
  by (rule sort_key_id_if_sorted) simp

lemma sprint_canon: "any_ok num a \<Longrightarrow> sprint (canon a) = sprint a"
proof (induction a)
  case (ASlice xs)
  then have "map (sprint \<circ> canon) xs = map sprint xs" by (auto simp: list_maps list_all_iff)
  then show ?case by (simp only: canon.simps sprint.simps sprint_maps list_maps map_map)
next
  case (AMap m)
  have "sprint (canon v) = sprint v" if "(k, v) \<in> set m" for k v
    using AMap.prems AMap.IH [OF that, of v] that by (auto simp: pairs_maps list_all_iff)
  then have "map (\<lambda>kv. fst kv @ '':'' @ sprint (canon (snd kv))) (sort_key fst m) =
      map (\<lambda>kv. fst kv @ '':'' @ sprint (snd kv)) (sort_key fst m)"
    by (intro map_cong) auto
  moreover have "sort_key fst (canon_pairs m) = map (\<lambda>kv. (fst kv, canon (snd kv))) (sort_key fst m)"
    by (simp add: pairs_maps sort_key_map_comp)
  ultimately show ?case
    by (simp add: sort_sprint sort_key_map_comp comp_def sort_twice del: map_eq_conv)
qed simp_all

section \<open>What the program's client reads\<close>

lemma map_of_sort: "is_map m \<Longrightarrow> map_of (sort_key fst m) k = map_of m k"
  using map_of_mset [of m "sort_key fst m"] by simp

lemma map_of_values: "map_of (map (\<lambda>kv. (fst kv, f (snd kv))) m) k = map_option f (map_of m k)"
  by (induction m) auto

lemma run_tool_canon: "call_ok num q \<Longrightarrow> run_tool now (canon_call q) = run_tool now q"
proof -
  assume ok: "call_ok num q"
  let ?m = "call_Arguments q"
  have m: "is_map ?m" and p: "pairs_ok num ?m" using ok by (simp_all add: call_ok_def)
  have "is_map (canon_pairs ?m)" using m by (simp add: is_map_def pairs_maps comp_def)
  then have "map_of (sort_key fst (canon_pairs ?m)) ''text'' = map_of (canon_pairs ?m) ''text''" by (rule map_of_sort)
  also have "\<dots> = map_option canon (map_of ?m ''text'')"
    by (simp add: pairs_maps map_of_values)
  finally have t: "map_of (sort_key fst (canon_pairs ?m)) ''text'' = map_option canon (map_of ?m ''text'')" .
  have "sprint (canon v) = sprint v" if "map_of ?m ''text'' = Some v" for v
    using map_of_SomeD [OF that] p by (intro sprint_canon [of num]) (auto simp: pairs_maps list_all_iff)
  then show ?thesis by (auto simp: run_tool_def canon_call_def t split: option.splits)
qed

lemma compact_plain: "list_all (\<lambda>c. \<not> is_ws c \<and> c \<noteq> dquote) s \<Longrightarrow> compact s = s"
  by (induction s) auto

lemma compact_show_int [simp]: "compact (show_int n) = show_int n"
proof -
  have "list_all (\<lambda>c. \<not> is_ws c \<and> c \<noteq> dquote) (show_nat k)" for k
    using show_nat_digits [of k] by (auto simp: list_all_iff digit_char_def is_ws_def dquote_def)
  then show ?thesis by (intro compact_plain) (simp add: show_int_def is_ws_def dquote_def)
qed

lemma show_int_nonempty [simp]: "show_int n \<noteq> ''''" "show_int n \<noteq> ''null''"
proof -
  show "show_int n \<noteq> ''''" by (simp add: show_int_def show_nat_nonempty)
  have "show_nat k \<noteq> ''null''" for k
    using show_nat_digits [of k] by (auto simp: digit_char_def)
  then show "show_int n \<noteq> ''null''" by (simp add: show_int_def)
qed

lemma marshal_ok: "marshal_rpcResponse (okResp (show_int n) a) = honest_reply n (marshal_any a)"
  by (simp add: marshal_rpcResponse_def okResp_def honest_reply_def)

text \<open>The reply of a server that refuses the call.\<close>

definition refusal :: "int \<Rightarrow> int \<Rightarrow> string \<Rightarrow> string" where
  "refusal n code msg = marshal_rpcResponse (errResp (show_int n) code msg)"

definition refusal_json :: "int \<Rightarrow> int \<Rightarrow> string \<Rightarrow> json" where
  "refusal_json n code msg = JObject
     [(''jsonrpc'', quote ''2.0'', JString ''2.0''), (''id'', show_int n, JNumber (show_int n)),
      (''error'', marshal_rpcError \<lparr>re_Code = code, re_Message = msg\<rparr>,
        JObject [(''code'', show_int code, JNumber (show_int code)), (''message'', quote msg, JString msg)])]"

lemma parses_refusal:
  assumes "valid_utf8 msg"
  shows "parses (Suc (Suc d)) (refusal n code msg) (refusal_json n code msg)"
proof -
  have "list_all2 (\<lambda>(k, t) v. valid_utf8 k \<and> parses d t v) [(''code'', show_int code), (''message'', quote msg)]
      [JNumber (show_int code), JString msg]"
    using assms by (simp add: parses_string parses_number_text ascii_valid)
  from parses_object [OF this]
  have e: "parses (Suc d) (marshal_rpcError \<lparr>re_Code = code, re_Message = msg\<rparr>)
      (JObject [(''code'', show_int code, JNumber (show_int code)), (''message'', quote msg, JString msg)])"
    by (simp add: marshal_rpcError_def)
  have "list_all2 (\<lambda>(k, t) v. valid_utf8 k \<and> parses (Suc d) t v)
      [(''jsonrpc'', quote ''2.0''), (''id'', show_int n), (''error'', marshal_rpcError \<lparr>re_Code = code, re_Message = msg\<rparr>)]
      [JString ''2.0'', JNumber (show_int n),
       JObject [(''code'', show_int code, JNumber (show_int code)), (''message'', quote msg, JString msg)]]"
    using e by (simp add: parses_string parses_number_text ascii_valid)
  from parses_object [OF this] show ?thesis
    by (simp add: refusal_def marshal_rpcResponse_def errResp_def refusal_json_def)
qed

lemma decode_refusal:
  assumes "in_int64 code"
  shows "decode_rpcReply num (refusal_json n code msg) =
    Some \<lparr>rp_JSONRPC = ''2.0'', rp_ID = Some (show_int n), rp_Result = None, rp_Error = Some (code, msg)\<rparr>"
  using assms by (simp add: refusal_json_def decode_rpcReply_def no_reply_def field_matches_def into_string_def
      into_int_def Atoi_show_int)

lemma refused_call:
  assumes "net (request_of c (mh_nextID c + 1) meth params) =
      Answer 200 (refusal (mh_nextID c + 1) code msg @ tail) False ra"
    and "valid_utf8 msg" and "in_int64 code" and "stops tail" and "skip tail = ''''"
    and "int (length (refusal (mh_nextID c + 1) code msg @ tail)) \<le> mh_maxResponseBytes c" and "mh_maxResponseBytes c < max_int64"
    and "0 \<le> mh_nextID c" and "mh_nextID c < max_int64"
  shows "call num net meth params dec c = (Inl (RpcError code msg), c\<lparr>mh_nextID := mh_nextID c + 1\<rparr>)"
proof -
  define n where "n = mh_nextID c + 1"
  define reply where "reply = \<lparr>rp_JSONRPC = ''2.0'', rp_ID = Some (show_int n), rp_Result = None, rp_Error = Some (code, msg)\<rparr>"
  have "parses max_nesting (refusal n code msg) (refusal_json n code msg)"
    using parses_refusal [OF assms(2), of 9998] by (simp add: max_nesting_def)
  moreover have "decode_rpcReply num (refusal_json n code msg) = Some reply"
    unfolding reply_def by (rule decode_refusal [OF assms(3)])
  moreover have "received_id (Some (show_int n)) = Some n"
    unfolding n_def using assms(8,9) by (intro received_show_int next_in_int64)
  then have "check_reply (mh_nextID c + 1) reply = None" by (simp add: check_reply_def reply_def n_def)
  moreover have "\<not> needs_next (refusal_json n code msg)" by (simp add: needs_next_def refusal_json_def)
  ultimately have "call num net meth params dec c = (finish_reply dec reply, c\<lparr>mh_nextID := mh_nextID c + 1\<rparr>)"
    using assms(1,4-9) by (intro reply_call [where body = "refusal n code msg" and tail = tail]) (auto simp: n_def)
  then show ?thesis by (simp add: finish_reply_def reply_def)
qed

lemma decode_envelope:
  assumes "valid_utf8 meth" and "params_ok params" and "hi_Body r = marshal_envelope n meth params"
  shows "decode_body r = Some \<lparr>req_JSONRPC = ''2.0'', req_ID = Some (show_int n), req_Method = meth, req_Params = params\<rparr>"
proof -
  obtain pv where pv: "case params of None \<Rightarrow> pv = None
      | Some p \<Rightarrow> p \<noteq> '''' \<and> (\<exists>v. pv = Some (p, v) \<and> parses (max_nesting - 1) p v)"
    using assms(2) by (auto simp: params_ok_def split: option.splits)
  then have fst: "map_option fst pv = params" by (auto split: option.splits)
  let ?t = "marshal_envelope n meth params"
  have p: "parses max_nesting ?t (request_json n meth pv)"
    using parses_envelope [OF assms(1) pv] by (simp add: max_nesting_def flip: numeral_eq_Suc)
  have "parse_value max_nesting (skip ?t) = Some (request_json n meth pv, '''')"
    using parses_value [OF p, of "''''"] skip_parses [OF p, of "''''"] by simp
  moreover have "\<not> needs_next (request_json n meth pv)" by (simp add: needs_next_def request_json_def)
  ultimately show ?thesis by (simp add: decode_body_def assms(3) decode_request_json fst)
qed

lemma text_result_ok: "any_ok num (text_result t) \<longleftrightarrow> valid_utf8 t" "depth (text_result t) = 3"
  by (simp_all add: text_result_def is_map_def ascii_utf8)

lemma decode_text_result:
  "decode_ToolsCallResult (json_of (text_result t)) =
    Some \<lparr>result_Content = Some [\<lparr>content_Type = ''text'', content_Text = t\<rparr>]\<rparr>"
  by (simp add: decode_ToolsCallResult_def text_result_def slice_member_def field_matches_def into_string_def no_content_def)

lemma toolList_ok: "any_ok num (AMap [(''tools'', ASlice toolList)])" "depth (AMap [(''tools'', ASlice toolList)]) = 6"
  by (simp_all add: toolList_def is_map_def ascii_utf8)

definition mock_tools :: "Tool list" where
  "mock_tools =
     [\<lparr>tool_Name = ''echo'', tool_Description = ''Echoes the input text back unchanged'',
       tool_InputSchema = Some
         [(''properties'', AMap [(''text'', AMap
            [(''description'', AString ''Text to echo''), (''type'', AString ''string'')])]),
          (''required'', ASlice [AString ''text'']), (''type'', AString ''object'')]\<rparr>,
      \<lparr>tool_Name = ''time.now'', tool_Description = ''Returns the current UTC time in RFC3339 format'',
       tool_InputSchema = Some [(''properties'', AMap []), (''type'', AString ''object'')]\<rparr>]"

lemma decode_toolList:
  "decode_ToolsListResult num (json_of (AMap [(''tools'', ASlice toolList)])) = Some mock_tools"
  by (simp add: decode_ToolsListResult_def toolList_def mock_tools_def slice_member_def field_matches_def
      into_string_def no_tool_def)

text \<open>The server as the network of a client; \<open>path\<close> is the path of the client's URL.\<close>

definition mock_net :: "num_fn \<Rightarrow> instant \<Rightarrow> string \<Rightarrow> nat \<Rightarrow> http_request \<Rightarrow> http_answer" where
  "mock_net num now path readahead req =
     (let resp = mock_serve num now \<lparr>hi_Method = hr_Method req, hi_Path = path, hi_Authorization = '''', hi_Session = '''',
        hi_Body = hr_Body req, hi_broken = False\<rparr> in
      Answer (mr_status resp) (mr_body resp) False readahead)"

definition fits :: "(http_request \<Rightarrow> http_answer) \<Rightarrow> string \<Rightarrow> RawMessage option \<Rightarrow> MCPHTTPClient \<Rightarrow> bool" where
  "fits net meth params c \<longleftrightarrow>
     int (length (ans_body (net (request_of c (mh_nextID c + 1) meth params)))) \<le> mh_maxResponseBytes c \<and>
     mh_maxResponseBytes c < max_int64 \<and> 0 \<le> mh_nextID c \<and> mh_nextID c < max_int64"

lemma newline_tail [simp]: "stops ''\<newline>''" "skip ''\<newline>'' = ''''"
  by (simp_all add: skip_def is_ws_def)

lemma mock_net_writes:
  assumes "path \<noteq> ''/health''" and "valid_utf8 meth" and "params_ok params"
  shows "mock_net num now path ra (request_of c n meth params) =
    Answer 200 (marshal_rpcResponse
      (if meth = ''initialize'' then okResp (show_int n) initialize_result
       else if meth = ''tools/list'' then okResp (show_int n) (AMap [(''tools'', ASlice toolList)])
       else if meth = ''tools/call'' then mock_call num now (show_int n)
         \<lparr>req_JSONRPC = ''2.0'', req_ID = Some (show_int n), req_Method = meth, req_Params = params\<rparr>
       else errResp (show_int n) (-32601) (''method not found: '' @ meth)) @ ''\<newline>'') False ra"
  using decode_envelope [OF assms(2,3), of "\<lparr>hi_Method = ''POST'', hi_Path = path, hi_Authorization = '''', hi_Session = '''',
      hi_Body = marshal_envelope n meth params, hi_broken = False\<rparr>" n] assms(1)
  by (simp add: mock_net_def mock_serve_def mcpHandler_def request_of_def writeJSON_def)

lemma mock_params_round:
  assumes "call_ok num q" and "req_Params req = Some (marshal_ToolsCallRequest q)"
  shows "mock_params num req = Some (canon_call q)"
  using parses_document [OF parses_call [OF assms(1)]] decode_call [OF assms(1)] by (simp add: mock_params_def assms(2))

lemma call_params_ok: "call_ok num q \<Longrightarrow> params_ok (Some (marshal_ToolsCallRequest q))"
proof -
  assume "call_ok num q"
  from parses_call [OF this, of "max_nesting - 1"] show ?thesis by (auto simp: params_ok_def parses_def)
qed

lemma run_tool_valid:
  assumes "call_ok num q"
  shows "case run_tool now q of Inl (code, msg) \<Rightarrow> in_int64 code \<and> valid_utf8 msg | Inr text \<Rightarrow> valid_utf8 text"
proof -
  have "valid_utf8 (sprint v)" if "map_of (call_Arguments q) ''text'' = Some v" for v
    using map_of_SomeD [OF that] assms
    by (intro valid_sprint [of num]) (auto simp: call_ok_def pairs_maps list_all_iff)
  moreover have "valid_utf8 (''tool not found: '' @ call_Name q)"
    using assms by (intro valid_utf8_append) (simp_all add: ascii_utf8 call_ok_def)
  ultimately show ?thesis by (auto simp: run_tool_def ascii_utf8 in_int64_def split: option.splits)
qed

section \<open>Properties\<close>

lemma mock_call_client:
  assumes "call_ok num q" and "path \<noteq> ''/health''" and "fits (mock_net num now path ra) ''tools/call'' (Some (marshal_ToolsCallRequest q)) c"
  shows "client_ToolsCall num (mock_net num now path ra) q c =
    ((case run_tool now q of
        Inl (code, msg) \<Rightarrow> Inl (RpcError code msg)
      | Inr text \<Rightarrow> Inr \<lparr>result_Content = Some [\<lparr>content_Type = ''text'', content_Text = text\<rparr>]\<rparr>),
     c\<lparr>mh_nextID := mh_nextID c + 1\<rparr>)"
proof -
  define n where "n = mh_nextID c + 1"
  let ?net = "mock_net num now path ra" and ?p = "Some (marshal_ToolsCallRequest q)"
  have w: "?net (request_of c n ''tools/call'' ?p) = Answer 200 (marshal_rpcResponse
      (case run_tool now q of Inl (code, msg) \<Rightarrow> errResp (show_int n) code msg
       | Inr text \<Rightarrow> okResp (show_int n) (text_result text)) @ ''\<newline>'') False ra"
    using mock_net_writes [OF assms(2) _ call_params_ok [OF assms(1)], of "''tools/call''" num now ra c n]
    by (simp add: ascii_utf8 mock_call_def mock_params_round [OF assms(1)] run_tool_canon [OF assms(1)] split: sum.splits)
  note v = run_tool_valid [OF assms(1), of now]
  have f: "mh_maxResponseBytes c < max_int64" "0 \<le> mh_nextID c" "mh_nextID c < max_int64"
    using assms(3) by (simp_all add: fits_def)
  have len: "int (length (ans_body (?net (request_of c n ''tools/call'' ?p)))) \<le> mh_maxResponseBytes c"
    using assms(3) by (simp add: fits_def n_def)
  show ?thesis
  proof (cases "run_tool now q")
    case (Inl e)
    then show ?thesis
      using w v len f refused_call [where tail = "''\<newline>''" and net = ?net and c = c and msg = "snd e" and code = "fst e"]
      by (simp add: client_ToolsCall_def refusal_def n_def split: prod.splits)
  next
    case (Inr out)
    have p: "parses d (marshal_any (text_result out)) (json_of (text_result out))" if "3 \<le> d" for d
      using parses_any [of num "text_result out" d] v that by (simp add: text_result_ok Inr)
    have "call num ?net ''tools/call'' ?p decode_ToolsCallResult c =
        (Inr \<lparr>result_Content = Some [\<lparr>content_Type = ''text'', content_Text = out\<rparr>]\<rparr>, c\<lparr>mh_nextID := mh_nextID c + 1\<rparr>)"
      using w len f p [of "max_nesting - 1"] p [of max_nesting]
      by (intro honest_call_tail [where tail = "''\<newline>''" and t = "marshal_any (text_result out)" and v = "json_of (text_result out)"])
        (simp_all add: Inr marshal_ok n_def decode_text_result max_nesting_def)
    then show ?thesis by (simp add: client_ToolsCall_def Inr)
  qed
qed

lemma mock_list_client:
  assumes "path \<noteq> ''/health''" and "fits (mock_net num now path ra) ''tools/list'' None c"
  shows "client_ToolsList num (mock_net num now path ra) c = (Inr mock_tools, c\<lparr>mh_nextID := mh_nextID c + 1\<rparr>)"
proof -
  define n where "n = mh_nextID c + 1"
  define a where "a = AMap [(''tools'', ASlice toolList)]"
  let ?net = "mock_net num now path ra"
  have w: "?net (request_of c n ''tools/list'' None) = Answer 200 (honest_reply n (marshal_any a) @ ''\<newline>'') False ra"
    using mock_net_writes [OF assms(1), of "''tools/list''" None num now ra c n]
    by (simp add: ascii_utf8 params_ok_def marshal_ok a_def)
  have "parses d (marshal_any a) (json_of a)" if "6 \<le> d" for d
    using parses_any [OF toolList_ok(1), of d] that toolList_ok(2) by (simp add: a_def)
  moreover have "decode_ToolsListResult num (json_of a) = Some mock_tools" unfolding a_def by (rule decode_toolList)
  ultimately show ?thesis
    using w assms(2) unfolding client_ToolsList_def
    by (intro honest_call_tail [where tail = "''\<newline>''" and t = "marshal_any a" and v = "json_of a"])
      (simp_all add: n_def max_nesting_def fits_def)
qed

text \<open>
  C33: The program's client and the demonstration upstream understand each other.  The listing the client
  reads from the server is its two tools.  A call of a tool returns what the tool computes from the
  arguments the caller gave, although they went through two encodings: for \<open>echo\<close> the argument \<open>text\<close> as
  \<open>%v\<close> prints it, for \<open>time.now\<close> the time, and the server's error for every other name.  Each call consumes
  one identifier and counts no protocol error, whatever the decoder buffers.
\<close>

theorem mock_answers_client:
  assumes "call_ok num q" and "path \<noteq> ''/health''"
    and "fits (mock_net num now path ra) ''tools/list'' None c"
    and "fits (mock_net num now path ra) ''tools/call'' (Some (marshal_ToolsCallRequest q)) c"
  shows "client_ToolsList num (mock_net num now path ra) c = (Inr mock_tools, c\<lparr>mh_nextID := mh_nextID c + 1\<rparr>)
   \<and> client_ToolsCall num (mock_net num now path ra) q c =
      ((if call_Name q = ''echo'' then Inr \<lparr>result_Content = Some [\<lparr>content_Type = ''text'', content_Text =
            (case map_of (call_Arguments q) ''text'' of Some v \<Rightarrow> sprint v | None \<Rightarrow> ''(no text provided)'')\<rparr>]\<rparr>
        else if call_Name q = ''time.now'' then Inr \<lparr>result_Content = Some [\<lparr>content_Type = ''text'', content_Text = rfc3339 now\<rparr>]\<rparr>
        else Inl (RpcError (-32601) (''tool not found: '' @ call_Name q))),
       c\<lparr>mh_nextID := mh_nextID c + 1\<rparr>)"
  using mock_list_client [OF assms(2,3)] mock_call_client [OF assms(1,2,4)] by (simp add: run_tool_def)

definition demo_call :: ToolsCallRequest where
  "demo_call = \<lparr>call_Name = ''echo'', call_Arguments = [(''text'', AString ''hello'')]\<rparr>"

definition demo_client :: MCPHTTPClient where
  "demo_client = \<lparr>mh_upstreamID = ''demo'', mh_baseURL = ''http://localhost:9090/'', mh_headers = [], mh_timeout = 1,
     mh_nextID = 0, mh_maxResponseBytes = 1000, mh_metrics = None\<rparr>"

lemma demo_call_ok: "call_ok Some demo_call"
  by (simp add: call_ok_def demo_call_def ascii_utf8 is_map_def max_nesting_def)

lemma demo_texts:
  "length (marshal_rpcResponse (okResp (show_int 1) (AMap [(''tools'', ASlice toolList)]))) \<le> 900"
  "length (marshal_rpcResponse (okResp (show_int 1) (text_result ''hello''))) \<le> 900"
  by code_simp+

lemma demo_fits:
  "fits (mock_net Some now ''/'' 0) ''tools/list'' None demo_client"
  "fits (mock_net Some now ''/'' 0) ''tools/call'' (Some (marshal_ToolsCallRequest demo_call)) demo_client"
proof -
  have i: "mh_nextID demo_client = 0" "mh_maxResponseBytes demo_client = 1000" by (simp_all add: demo_client_def)
  show "fits (mock_net Some now ''/'' 0) ''tools/list'' None demo_client"
    using demo_texts(1) mock_net_writes [of "''/''" "''tools/list''" None Some now 0 demo_client 1]
    by (simp add: fits_def i ascii_utf8 params_ok_def max_int64_def)
  have t: "run_tool now (canon_call demo_call) = Inr ''hello''"
    by (simp add: run_tool_canon [OF demo_call_ok]) (simp add: run_tool_def demo_call_def)
  show "fits (mock_net Some now ''/'' 0) ''tools/call'' (Some (marshal_ToolsCallRequest demo_call)) demo_client"
    using demo_texts(2) mock_net_writes [OF _ _ call_params_ok [OF demo_call_ok], of "''/''" "''tools/call''" Some now 0 demo_client 1]
    by (simp add: fits_def i ascii_utf8 max_int64_def mock_call_def mock_params_round [OF demo_call_ok] t)
qed

theorem mock_answers_client_witness:
  "client_ToolsList Some (mock_net Some 0 ''/'' 0) demo_client = (Inr mock_tools, demo_client\<lparr>mh_nextID := 1\<rparr>)
   \<and> client_ToolsCall Some (mock_net Some 0 ''/'' 0) demo_call demo_client =
      (Inr \<lparr>result_Content = Some [\<lparr>content_Type = ''text'', content_Text = ''hello''\<rparr>]\<rparr>, demo_client\<lparr>mh_nextID := 1\<rparr>)"
proof -
  have i: "mh_nextID demo_client = 0" by (simp add: demo_client_def)
  show ?thesis
    using mock_answers_client [OF demo_call_ok _ demo_fits [of 0]] by (simp add: i) (simp add: demo_call_def)
qed

end
