(* ===== verification/Spec2Isabelle.thy ===== *)
theory Spec2Isabelle
  imports Validator PolicyConc AuditLogger Loggers Auth Sessions Config Upstream Transport GoJsonRound GatewaySpec
    GatewayConc System SystemConc Replay MainCmd MainCli ServerLife MockUpstream
begin

text \<open>
  mcpshield is a gateway between AI clients and MCP tool servers.  A client posts JSON-RPC requests;
  the gateway authenticates the client (\<open>internal/auth\<close>), binds it to a session
  (\<open>internal/gateway\<close>), asks the policy (\<open>internal/policy\<close>), forwards permitted calls to the upstream
  server that publishes the tool (\<open>internal/upstream\<close>, \<open>internal/transport\<close>), and records every
  decision in an audit log with a hash chain (\<open>internal/audit\<close>).  \<open>pkg/config\<close> holds the settings and
  \<open>cmd/mcpshield/main.go\<close> puts the parts together.

  The theories, with the code they model.

  \<^item> \<open>Prelude\<close>: machine integers as \<open>int\<close> wrapped to their width, association lists for Go maps (the
    iteration order is an argument where it matters), strings as lists of bytes, the sum type for
    results with errors, and the collections \<open>go_simps\<close> and \<open>alist_simps\<close>.
  \<^item> \<open>GoTime\<close>, \<open>GoJson\<close>, \<open>GoJsonRead\<close>, \<open>Sha256\<close>: what the program uses of \<open>time\<close>,
    \<open>encoding/json\<close>, \<open>unicode/utf8\<close>, \<open>strconv\<close>, \<open>crypto/sha256\<close> and \<open>encoding/hex\<close>.
    \<open>GoJsonRound\<close> proves that encoder and decoder are inverse to each other.  \<open>GoCivil\<close>: the RFC 3339 texts of
    \<open>time\<close> and the verb \<open>%v\<close> of \<open>fmt\<close>.
  \<^item> \<open>McpTypes\<close> (\<open>internal/mcp/types.go\<close>), \<open>Metrics\<close> (\<open>internal/observability/metrics.go\<close>).
  \<^item> \<open>RateLimit\<close> (\<open>internal/policy/ratelimit.go\<close>): \<open>Allow\<close> on a map of window buckets.  Lemmas: the answers
    within one window, the bound over any span, isolation of keys; the contract is the locale \<open>limiter\<close>.
  \<^item> \<open>Validator\<close>, \<open>PolicyLoader\<close>, \<open>PolicyEngine\<close> (\<open>validator.go\<close>, \<open>loader.go\<close>, \<open>engine.go\<close> of
    \<open>internal/policy\<close>): the file as decoded, \<open>compile\<close> with every rejection, \<open>evaluate\<close>, and \<open>Evaluate\<close> with
    the limits.  Lemmas: what a compiled file decides in terms of the file alone; what the engine adds.
    The locale \<open>policy_engine\<close> is the interface \<open>Engine\<close>; both engines interpret it.  In these theories and in
    those of the gateway one evaluation is one step; \<open>PolicyConc\<close> takes it apart into its loads of shared
    memory and its locked sections (\<open>eval_move\<close>) and interleaves evaluations and \<open>Swap\<close> freely
    (\<open>run_events\<close>).  Lemmas: a decision comes from one policy, a \<open>potential\<close> bounds what a key hands out,
    every evaluation returns after a bounded number of moves; undisturbed, the moves are \<open>Evaluate\<close>.
  \<^item> \<open>HashChain\<close> (\<open>hashchain.go\<close>), \<open>AuditStore\<close> (\<open>store.go\<close>, \<open>sqlite_store.go\<close>), \<open>AuditLogger\<close> and \<open>Loggers\<close>
    (\<open>logger.go\<close>), \<open>Replay\<close> (\<open>export.go\<close>, \<open>replay.go\<close>), all of \<open>internal/audit\<close>.  The table is a list of rows and
    each SQL statement the operation on rows it denotes; any driver call may fail.  The writer goroutine
    and the callers of \<open>Log\<close> are the steps of \<open>logger_step\<close> on one state with the bounded channel, and
    \<open>logger_hist\<close> is a reachable state with what was queued and flushed.  Lemmas: delivery in order,
    what each write mode answers, the chain in every reachable store, draining after \<open>Close\<close>.  The locales
    \<open>audit_store\<close> and \<open>logger_interface\<close> are the interfaces \<open>Store\<close> and \<open>Logger\<close>.
  \<^item> \<open>Auth\<close> (\<open>internal/auth/auth.go\<close>): both authenticators, with the locale \<open>authenticator\<close>.
  \<^item> \<open>Sessions\<close> (the session fields and methods of \<open>internal/gateway/gateway.go\<close>): capacity, ownership,
    expiry.
  \<^item> \<open>Upstream\<close> (\<open>internal/upstream/manager.go\<close>): the manager with its tool cache.  \<open>sys_step\<close> interleaves
    warm-up callers, requests and background refreshes at the granularity of the mutex; \<open>doRefresh\<close>,
    \<open>getCache\<close>, \<open>ToolsList\<close>, \<open>ToolsCall\<close> are the critical sections.  Lemmas: the cache refines an atomic cell
    of complete listings, single flight, release of waiters, routing.
  \<^item> \<open>Transport\<close> (\<open>internal/transport\<close>): the HTTP client for an upstream, \<open>call\<close> and the checks of a
    reply; the settings of the HTTP server.
  \<^item> \<open>Gateway\<close> (\<open>internal/gateway/gateway.go\<close>): \<open>ServeHTTP\<close> and its phases over the record \<open>deps\<close> of the
    operations of the other components on an arbitrary state.  Each call of a component is appended to
    the field \<open>gw_trace\<close>, which the code does not have.  \<open>GatewayParse\<close> reads requests back.
  \<^item> \<open>GatewayThread\<close>: the same handlers once more, at the granularity at which \<open>net/http\<close> interleaves them.  A
    request is a \<open>thread\<close> of atomic actions, one for each call of a component, critical section of the
    session mutex and counter; \<open>run_thread\<close> on it is \<open>ServeHTTP\<close>.  A history lists the gateway before and
    after each action; what happens between two actions is free.  \<open>GatewayFlow\<close> proves of every history
    that its calls follow the abstract protocol \<open>served\<close>; the locales \<open>gateway_step\<close> and \<open>gateway_relation\<close> of
    \<open>GatewayTrace\<close> carry a relation on gateways from the actions to the requests; \<open>GatewaySpec\<close> draws the
    properties of one request from them, and \<open>GatewayConc\<close> those of any number of requests that interleave
    with each other and with changes of the components (\<open>interleaving\<close>).
  \<^item> \<open>Config\<close> (\<open>pkg/config/config.go\<close>): defaults, validation, the run-time settings.
  \<^item> \<open>System\<close>: the gateway on the models of the real components, as \<open>runServe\<close> wires them; the locale
    \<open>audit_contract\<close> is what the gateway needs of its audit log; \<open>deployment\<close> interleaves requests with the
    audit writer, refreshes and reloads.  \<open>SystemConc\<close> does so action by action: with a logger that does not
    drop silently every delivered result is on record in every interleaving.
  \<^item> \<open>MainCmd\<close>, \<open>MainCli\<close>, \<open>ServerLife\<close> (\<open>cmd/mcpshield/main.go\<close>): the start of the server, the policy reload,
    the warm-up loop and the other commands; the command tree with its flags and \<open>main\<close> with its exit
    status; the life of the started server, an \<open>inductive\<close> step relation with the phases serving, shutting
    down, closing the audit log and exited, which is an interleaving of \<open>SystemConc\<close>.  A stop by signal loses
    no event and no request; a failing listener cuts requests off (\<open>listener_failure_cuts_off\<close>).
  \<^item> \<open>MockUpstream\<close> (\<open>examples/mock-upstream/main.go\<close>): the demonstration upstream down to the bytes it reads and
    writes, and what the program's client makes of its answers.

  Conventions.  Errors are constructors of sum types, with the text of an error only where the program
  shows or stores it.  Where the code shares a structure by pointer under a mutex, a critical section
  is one step.  Clock readings, generated identifiers, the outcome of a \<open>select\<close> and the result of a
  driver call are arguments.  Loops are structural recursion; only the warm-up loop may run for ever
  and is a \<open>partial_function\<close> into \<open>option\<close>, with a theorem that says exactly when it ends.  No definition
  runs on fuel: the JSON decoder is a \<open>function\<close> that terminates on the length of the text, and its only
  bound is \<open>max_nesting = 10000\<close>, the nesting limit of \<open>encoding/json\<close>; \<open>GoJsonRound\<close> shows that texts the
  encoder writes below that nesting are read back.

  Parameters, because their code is not part of the repository: the YAML decoder, the regular
  expression package, the parsing of a floating-point number and floating-point products, the HTTP
  and SQLite drivers, \<open>uuid\<close>, the Prometheus registry's exposition, and \<open>cobra\<close>, which finds the command
  and its flags in the arguments (\<open>cobra_contract\<close> states what it documents).

  Not modelled: \<open>slog\<close> output and the stubs of \<open>internal/observability/observability.go\<close>, which hold no
  logic; the listening sockets; cancellation of a context other than through the outcome of the
  operation it cuts short; the constant-time comparison's timing; the data race detector's view of memory,
  since a critical section and an atomic operation are one step.
\<close>

end
